(* ===== verification/Prelude.thy ===== *)
theory Prelude
  imports Main "HOL-Library.Char_ord" "HOL-Library.List_Lexorder" "HOL-Library.Multiset"
begin

text \<open>
  Shared vocabulary of the development: the three-way comparison functions of Go's
  \<^verbatim>\<open>cmp\<close> and \<^verbatim>\<open>slices\<close> packages, sorting with them, the small slice helpers the
  sources write again in every package (append when absent), trimming of white space,
  and the laws of comparison functions as a pair of locales. Strings are lists of bytes.
\<close>

named_theorems cmp_simps \<open>rewriting comparison results\<close>

section \<open>Three-way comparison\<close>

text \<open>\<^verbatim>\<open>cmp.Compare\<close> and \<^verbatim>\<open>strings.Compare\<close>: negative, zero or positive.\<close>

definition three_way :: "'a::linorder \<Rightarrow> 'a \<Rightarrow> int" where
  "three_way a b = (if a < b then -1 else if b < a then 1 else 0)"

text \<open>\<^verbatim>\<open>cmp.Or\<close> on results: the first that is not zero.\<close>

fun cmp_or :: "int list \<Rightarrow> int" where
  "cmp_or [] = 0"
| "cmp_or (c # cs) = (if c \<noteq> 0 then c else cmp_or cs)"

text \<open>\<^verbatim>\<open>slices.CompareFunc\<close>: element by element, then the shorter list first.\<close>

fun compare_func :: "('a \<Rightarrow> 'b \<Rightarrow> int) \<Rightarrow> 'a list \<Rightarrow> 'b list \<Rightarrow> int" where
  "compare_func c [] [] = 0"
| "compare_func c [] (y # ys) = -1"
| "compare_func c (x # xs) [] = 1"
| "compare_func c (x # xs) (y # ys) = (if c x y \<noteq> 0 then c x y else compare_func c xs ys)"

lemma three_way_zero [simp, cmp_simps]: "three_way a b = 0 \<longleftrightarrow> a = b"
  by (auto simp: three_way_def)

lemma three_way_neg [simp, cmp_simps]: "three_way a b < 0 \<longleftrightarrow> a < b"
  by (auto simp: three_way_def)

lemma three_way_pos [simp, cmp_simps]: "0 < three_way a b \<longleftrightarrow> b < a"
  by (auto simp: three_way_def)

lemma three_way_le [simp, cmp_simps]: "three_way a b \<le> 0 \<longleftrightarrow> a \<le> b"
  by (auto simp: three_way_def)

section \<open>Sorting with a comparison function\<close>

text \<open>
  \<^verbatim>\<open>slices.SortFunc\<close>. The library does not promise stability; the model is the
  insertion sort it runs on short slices. Where the comparison tells distinct elements
  apart the result is the same for every sorting algorithm (\<open>sort_func_unique\<close>).
\<close>

fun insert_func :: "('a \<Rightarrow> 'a \<Rightarrow> int) \<Rightarrow> 'a \<Rightarrow> 'a list \<Rightarrow> 'a list" where
  "insert_func c x [] = [x]"
| "insert_func c x (y # ys) = (if c x y \<le> 0 then x # y # ys else y # insert_func c x ys)"

fun sort_func :: "('a \<Rightarrow> 'a \<Rightarrow> int) \<Rightarrow> 'a list \<Rightarrow> 'a list" where
  "sort_func c [] = []"
| "sort_func c (x # xs) = insert_func c x (sort_func c xs)"

definition sorted_func :: "('a \<Rightarrow> 'a \<Rightarrow> int) \<Rightarrow> 'a list \<Rightarrow> bool" where
  "sorted_func c xs \<longleftrightarrow> sorted_wrt (\<lambda>x y. c x y \<le> 0) xs"

lemma sorted_func_Nil [simp]: "sorted_func c []"
  by (simp add: sorted_func_def)

lemma mset_insert_func [simp]: "mset (insert_func c x xs) = add_mset x (mset xs)"
  by (induction xs) auto

lemma mset_sort_func [simp]: "mset (sort_func c xs) = mset xs"
  by (induction xs) auto

lemma set_insert_func [simp]: "set (insert_func c x xs) = insert x (set xs)"
  by (induction xs) auto

lemma set_sort_func [simp]: "set (sort_func c xs) = set xs"
  by (induction xs) auto

lemma length_sort_func [simp]: "length (sort_func c xs) = length xs"
  by (metis mset_sort_func size_mset)

lemma distinct_sort_func [simp]: "distinct (sort_func c xs) = distinct xs"
  by (metis mset_sort_func mset_eq_imp_distinct_iff)

lemma sort_func_Nil_iff [simp]: "sort_func c xs = [] \<longleftrightarrow> xs = []"
  by (metis length_0_conv length_sort_func)

lemma insert_func_sorted:
  assumes "\<forall>y\<in>set ys. c x y \<le> 0"
  shows "insert_func c x ys = x # ys"
  using assms by (cases ys) auto

lemma sort_func_sorted: "sorted_func c xs \<Longrightarrow> sort_func c xs = xs"
  by (induction xs) (auto simp: sorted_func_def insert_func_sorted)

text \<open>
  What a sorting comparison promises. A preorder is enough for a sorted result; when
  zero means equality the result does not depend on the order of the input.
\<close>

locale compare_preorder =
  fixes c :: "'a \<Rightarrow> 'a \<Rightarrow> int"
  assumes flip: "c x y < 0 \<longleftrightarrow> 0 < c y x"
    and trans: "c x y \<le> 0 \<Longrightarrow> c y z \<le> 0 \<Longrightarrow> c x z \<le> 0"
begin

lemma self [simp]: "c x x = 0"
  using flip [of x x] by linarith

lemma total: "c x y \<le> 0 \<or> c y x \<le> 0"
  using flip [of x y] flip [of y x] by linarith

lemma zero_flip: "c x y = 0 \<longleftrightarrow> c y x = 0"
  using flip [of x y] flip [of y x] by linarith

lemma gt_flip: "\<not> c x y \<le> 0 \<Longrightarrow> c y x \<le> 0"
  using total by blast

lemma sorted_insert_func: "sorted_func c xs \<Longrightarrow> sorted_func c (insert_func c x xs)"
proof (induction xs)
  case (Cons y ys)
  then show ?case
    by (auto simp: sorted_func_def dest: gt_flip intro: trans)
qed (simp add: sorted_func_def)

lemma sorted_sort_func: "sorted_func c (sort_func c xs)"
  by (induction xs) (simp_all add: sorted_func_def sorted_insert_func [unfolded sorted_func_def])

lemma sort_func_idem: "sort_func c (sort_func c xs) = sort_func c xs"
  by (rule sort_func_sorted) (rule sorted_sort_func)

text \<open>
  Two sorted lists of the same elements are equal when the comparison tells those
  elements apart.
\<close>

lemma sorted_func_unique:
  assumes "mset xs = mset ys" "sorted_func c xs" "sorted_func c ys"
    and "\<And>x y. x \<in> set xs \<Longrightarrow> y \<in> set xs \<Longrightarrow> c x y = 0 \<Longrightarrow> x = y"
  shows "xs = ys"
  using assms
proof (induction xs arbitrary: ys)
  case Nil
  then show ?case by simp
next
  case (Cons x xs)
  then obtain y ys' where ys: "ys = y # ys'"
    by (cases ys) auto
  have sets: "set (x # xs) = set ys"
    using Cons.prems(1) by (metis set_mset_mset)
  have "c x y \<le> 0"
  proof (cases "x = y")
    case False
    then have "y \<in> set xs" using sets ys by auto
    then show ?thesis using Cons.prems(2) by (auto simp: sorted_func_def)
  qed simp
  moreover have "c y x \<le> 0"
  proof (cases "x = y")
    case False
    then have "x \<in> set ys'" using sets ys by auto
    then show ?thesis using Cons.prems(3) ys by (auto simp: sorted_func_def)
  qed simp
  ultimately have "c x y = 0"
    using flip [of x y] by linarith
  then have "x = y"
    using Cons.prems(4) sets ys by auto
  moreover have "xs = ys'"
    using Cons.prems \<open>x = y\<close> ys by (intro Cons.IH) (auto simp: sorted_func_def)
  ultimately show ?case using ys by simp
qed

lemma sort_func_unique:
  assumes "mset xs = mset ys"
    and "\<And>x y. x \<in> set xs \<Longrightarrow> y \<in> set xs \<Longrightarrow> c x y = 0 \<Longrightarrow> x = y"
  shows "sort_func c xs = sort_func c ys"
  by (rule sorted_func_unique) (use assms sorted_sort_func in auto)

end

locale compare_order = compare_preorder +
  assumes antisym: "c x y = 0 \<Longrightarrow> x = y"
begin

lemma zero_iff: "c x y = 0 \<longleftrightarrow> x = y"
  using antisym by auto

lemma sort_func_perm: "mset xs = mset ys \<Longrightarrow> sort_func c xs = sort_func c ys"
  by (rule sort_func_unique) (auto dest: antisym)

lemma sorted_remdups_adj: "sorted_func c xs \<Longrightarrow> sorted_func c (remdups_adj xs)"
  by (induction xs rule: remdups_adj.induct) (auto simp: sorted_func_def)

lemma distinct_compact: "sorted_func c xs \<Longrightarrow> distinct (remdups_adj xs)"
proof (induction xs rule: remdups_adj.induct)
  case (3 x y xs)
  then show ?case
    using antisym flip by (auto simp: sorted_func_def) (meson dual_order.antisym linorder_not_less)+
qed auto

lemma compact_sort_set:
  assumes "set xs = set ys"
  shows "remdups_adj (sort_func c xs) = remdups_adj (sort_func c ys)"
proof (rule sorted_func_unique)
  have "set_mset (mset (remdups_adj (sort_func c xs))) = set_mset (mset (remdups_adj (sort_func c ys)))"
    using assms by simp
  moreover have "distinct (remdups_adj (sort_func c zs))" for zs
    by (rule distinct_compact) (rule sorted_sort_func)
  ultimately show "mset (remdups_adj (sort_func c xs)) = mset (remdups_adj (sort_func c ys))"
    by (metis set_eq_iff_mset_eq_distinct set_mset_mset)
qed (auto intro: sorted_remdups_adj sorted_sort_func antisym)

end

section \<open>Comparisons the sources build\<close>

interpretation three_way: compare_order "three_way :: 'a::linorder \<Rightarrow> 'a \<Rightarrow> int"
  by unfold_locales (auto simp: cmp_simps)

lemma compare_preorder_three_way: "compare_preorder (three_way :: 'a::linorder \<Rightarrow> 'a \<Rightarrow> int)"
  by (rule three_way.compare_preorder_axioms)

lemma compare_preorder_const: "compare_preorder (\<lambda>x y. 0)"
  by unfold_locales auto

lemma compare_preorder_key: "compare_preorder c \<Longrightarrow> compare_preorder (\<lambda>x y. c (f x) (f y))"
  unfolding compare_preorder_def by blast

lemma compare_preorder_lex2:
  assumes a: "compare_preorder a" and b: "compare_preorder b"
  shows "compare_preorder (\<lambda>x y. if a x y \<noteq> 0 then a x y else b x y)"
proof
  fix x y z
  show "((if a x y \<noteq> 0 then a x y else b x y) < 0) = (0 < (if a y x \<noteq> 0 then a y x else b y x))"
    using compare_preorder.flip [OF a] compare_preorder.flip [OF b]
      compare_preorder.zero_flip [OF a, of x y] by auto
  assume xy: "(if a x y \<noteq> 0 then a x y else b x y) \<le> 0"
    and yz: "(if a y z \<noteq> 0 then a y z else b y z) \<le> 0"
  have le: "a x y \<le> 0" "a y z \<le> 0"
    using xy yz by (auto split: if_splits)
  then have xz: "a x z \<le> 0"
    by (rule compare_preorder.trans [OF a])
  show "(if a x z \<noteq> 0 then a x z else b x z) \<le> 0"
  proof (cases "a x z = 0")
    case True
    then have zx: "a z x \<le> 0"
      using compare_preorder.zero_flip [OF a, of x z] by simp
    have "a y x \<le> 0" "a z y \<le> 0"
      using compare_preorder.trans [OF a le(2) zx] compare_preorder.trans [OF a zx le(1)] .
    then have "a x y = 0" "a y z = 0"
      using le compare_preorder.flip [OF a, of x y] compare_preorder.flip [OF a, of y z] by linarith+
    then show ?thesis
      using xy yz True compare_preorder.trans [OF b, of x y z] by simp
  qed (use xz in simp)
qed

lemma compare_preorder_cmp_or:
  "(\<And>c. c \<in> set cs \<Longrightarrow> compare_preorder c) \<Longrightarrow> compare_preorder (\<lambda>x y. cmp_or (map (\<lambda>c. c x y) cs))"
proof (induction cs)
  case Nil
  then show ?case by (simp add: compare_preorder_const)
next
  case (Cons c cs)
  have "compare_preorder (\<lambda>x y. if c x y \<noteq> 0 then c x y else cmp_or (map (\<lambda>c. c x y) cs))"
    using Cons by (intro compare_preorder_lex2) auto
  then show ?case by simp
qed

lemma cmp_or_zero [simp, cmp_simps]: "cmp_or cs = 0 \<longleftrightarrow> (\<forall>c\<in>set cs. c = 0)"
  by (induction cs) auto

text \<open>
  The shape of every comparison of the sources: the first of several keys that differs.
\<close>

lemma compare_preorder_keysI:
  assumes "\<And>a b. c a b = cmp_or (map (\<lambda>d. d a b) ds)"
    and "\<And>d. d \<in> set ds \<Longrightarrow> compare_preorder d"
  shows "compare_preorder c"
proof -
  have "c = (\<lambda>a b. cmp_or (map (\<lambda>d. d a b) ds))"
    using assms(1) by blast
  then show ?thesis
    using compare_preorder_cmp_or [OF assms(2)] by simp
qed

lemma compare_order_keysI:
  assumes c: "\<And>a b. c a b = cmp_or (map (\<lambda>d. d a b) ds)"
    and "\<And>d. d \<in> set ds \<Longrightarrow> compare_preorder d"
    and eq: "\<And>a b. \<forall>d\<in>set ds. d a b = 0 \<Longrightarrow> a = b"
  shows "compare_order c"
proof (rule compare_order.intro)
  show "compare_preorder c"
    by (rule compare_preorder_keysI [OF assms(1,2)])
  show "compare_order_axioms c"
  proof
    fix x y
    assume "c x y = 0"
    then have "\<forall>d\<in>set ds. d x y = 0"
      by (simp add: c del: cmp_or.simps)
    then show "x = y" by (rule eq)
  qed
qed

lemmas compare_key_three_way = compare_preorder_key [OF compare_preorder_three_way]

lemma compare_func_zero:
  assumes "\<And>x y. c x y = 0 \<longleftrightarrow> x = y"
  shows "compare_func c xs ys = 0 \<longleftrightarrow> xs = ys"
  using assms by (induction c xs ys rule: compare_func.induct) auto

lemma compare_preorder_compare_func:
  assumes c: "compare_preorder c"
  shows "compare_preorder (compare_func c)"
proof
  fix xs ys zs :: "'a list"
  show "(compare_func c xs ys < 0) = (0 < compare_func c ys xs)"
    using compare_preorder.flip [OF c] compare_preorder.zero_flip [OF c]
    by (induction c xs ys rule: compare_func.induct) auto
  show "compare_func c xs ys \<le> 0 \<Longrightarrow> compare_func c ys zs \<le> 0 \<Longrightarrow> compare_func c xs zs \<le> 0"
  proof (induction xs arbitrary: ys zs)
    case Nil
    then show ?case by (cases zs) auto
  next
    case (Cons x xs)
    obtain y ys' where ys: "ys = y # ys'"
      using Cons.prems(1) by (cases ys) auto
    obtain z zs' where zs: "zs = z # zs'"
      using Cons.prems(2) ys by (cases zs) auto
    have le: "c x y \<le> 0" "c y z \<le> 0"
      using Cons.prems ys zs by (auto split: if_splits)
    then have xz: "c x z \<le> 0"
      by (rule compare_preorder.trans [OF c])
    show ?case
    proof (cases "c x z = 0")
      case True
      then have zx: "c z x \<le> 0"
        using compare_preorder.zero_flip [OF c, of x z] by simp
      have "c y x \<le> 0" "c z y \<le> 0"
        using compare_preorder.trans [OF c le(2) zx] compare_preorder.trans [OF c zx le(1)] .
      then have "c x y = 0" "c y z = 0"
        using le compare_preorder.flip [OF c, of x y] compare_preorder.flip [OF c, of y z] by linarith+
      then show ?thesis
        using Cons.prems True Cons.IH [of ys' zs'] ys zs by simp
    qed (use xz zs in simp)
  qed
qed

section \<open>Slices and strings\<close>

text \<open>Append an element that is not there yet: \<^verbatim>\<open>appendNew\<close>, \<^verbatim>\<open>appendUnique\<close>.\<close>

definition append_new :: "'a list \<Rightarrow> 'a \<Rightarrow> 'a list" where
  "append_new xs x = (if x \<in> set xs then xs else xs @ [x])"

lemma set_append_new [simp]: "set (append_new xs x) = insert x (set xs)"
  by (auto simp: append_new_def)

lemma distinct_append_new [simp]: "distinct (append_new xs x) = distinct xs"
  by (auto simp: append_new_def)

lemma set_foldl_append_new [simp]: "set (foldl append_new xs ys) = set xs \<union> set ys"
  by (induction ys arbitrary: xs) auto

lemma distinct_foldl_append_new [simp]: "distinct (foldl append_new xs ys) = distinct xs"
  by (induction ys arbitrary: xs) auto

text \<open>
  The UTF-8 encodings of the code points \<^verbatim>\<open>unicode.IsSpace\<close> accepts, and
  \<^verbatim>\<open>strings.TrimSpace\<close>: strip them from both ends.
\<close>

definition space_runes :: "string list" where
  "space_runes =
     [[CHR 0x09], [CHR 0x0A], [CHR 0x0B], [CHR 0x0C], [CHR 0x0D], [CHR 0x20],
      [CHR 0xC2, CHR 0x85], [CHR 0xC2, CHR 0xA0], [CHR 0xE1, CHR 0x9A, CHR 0x80],
      [CHR 0xE2, CHR 0x80, CHR 0x80], [CHR 0xE2, CHR 0x80, CHR 0x81], [CHR 0xE2, CHR 0x80, CHR 0x82],
      [CHR 0xE2, CHR 0x80, CHR 0x83], [CHR 0xE2, CHR 0x80, CHR 0x84], [CHR 0xE2, CHR 0x80, CHR 0x85],
      [CHR 0xE2, CHR 0x80, CHR 0x86], [CHR 0xE2, CHR 0x80, CHR 0x87], [CHR 0xE2, CHR 0x80, CHR 0x88],
      [CHR 0xE2, CHR 0x80, CHR 0x89], [CHR 0xE2, CHR 0x80, CHR 0x8A], [CHR 0xE2, CHR 0x80, CHR 0xA8],
      [CHR 0xE2, CHR 0x80, CHR 0xA9], [CHR 0xE2, CHR 0x80, CHR 0xAF], [CHR 0xE2, CHR 0x81, CHR 0x9F],
      [CHR 0xE3, CHR 0x80, CHR 0x80]]"

fun has_prefix :: "string \<Rightarrow> string \<Rightarrow> bool" where
  "has_prefix s [] = True"
| "has_prefix [] (p # ps) = False"
| "has_prefix (c # cs) (p # ps) = (c = p \<and> has_prefix cs ps)"

definition has_suffix :: "string \<Rightarrow> string \<Rightarrow> bool" where
  "has_suffix s p = has_prefix (rev s) (rev p)"

function trim_runes :: "string list \<Rightarrow> string \<Rightarrow> string" where
  "trim_runes rs s =
     (case find (\<lambda>r. r \<noteq> [] \<and> has_prefix s r) rs of None \<Rightarrow> s | Some r \<Rightarrow> trim_runes rs (drop (length r) s))"
  by pat_completeness auto
termination
proof (relation "measure (\<lambda>(rs, s). length s)")
  fix rs s r
  assume "find (\<lambda>r. r \<noteq> [] \<and> has_prefix s r) rs = Some r"
  then have "r \<noteq> []" "has_prefix s r"
    by (auto simp: find_Some_iff)
  then have "0 < length r" "s \<noteq> []"
    by (cases r; cases s; simp)+
  then show "((rs, drop (length r) s), rs, s) \<in> measure (\<lambda>(rs, s). length s)"
    by simp
qed simp

declare trim_runes.simps [simp del]

definition trim_space :: "string \<Rightarrow> string" where
  "trim_space s = rev (trim_runes (map rev space_runes) (rev (trim_runes space_runes s)))"

text \<open>\<^verbatim>\<open>strings.ToLower\<close> on ASCII letters, and \<^verbatim>\<open>strings.Join\<close>.\<close>

definition char_lower :: "char \<Rightarrow> char" where
  "char_lower c = (if CHR ''A'' \<le> c \<and> c \<le> CHR ''Z'' then char_of (of_char c + (32 :: nat)) else c)"

definition to_lower :: "string \<Rightarrow> string" where
  "to_lower s = map char_lower s"

fun join :: "string list \<Rightarrow> string \<Rightarrow> string" where
  "join [] sep = []"
| "join [x] sep = x"
| "join (x # y # ys) sep = x @ sep @ join (y # ys) sep"

section \<open>Numbers in decimal and hexadecimal\<close>

definition digit_char :: "int \<Rightarrow> char" where
  "digit_char d = ''0123456789abcdef'' ! nat d"

function digits_in :: "int \<Rightarrow> int \<Rightarrow> string" where
  "digits_in b n = (if n < b \<or> b < 2 then [digit_char n] else digits_in b (n div b) @ [digit_char (n mod b)])"
  by pat_completeness auto
termination
proof (relation "measure (\<lambda>(b, n). nat n)")
  fix b n :: int
  assume "\<not> (n < b \<or> b < 2)"
  then have "n div b < n" "0 < n"
    by (auto intro: int_div_less_self)
  then show "((b, n div b), b, n) \<in> measure (\<lambda>(b, n). nat n)"
    by simp
qed simp

declare digits_in.simps [simp del]

definition int_dec :: "int \<Rightarrow> string" where
  "int_dec n = (if n < 0 then CHR ''-'' # digits_in 10 (- n) else digits_in 10 n)"

definition int_hex :: "int \<Rightarrow> string" where
  "int_hex n = digits_in 16 n"

text \<open>A number padded with zeros to a width, as the time format writes its fields.\<close>

definition pad_dec :: "nat \<Rightarrow> int \<Rightarrow> string" where
  "pad_dec w n = (let s = int_dec n in replicate (w - length s) (CHR ''0'') @ s)"

section \<open>Errors as values\<close>

text \<open>
  A Go function that returns a value and an error gives \<open>Inl\<close> the error or \<open>Inr\<close>
  the value. \<open>rbind\<close> goes on with the value and returns the error as it is, \<open>collect\<close>
  is the loop that stops at the first error.
\<close>

fun rbind :: "'e + 'a \<Rightarrow> ('a \<Rightarrow> 'e + 'b) \<Rightarrow> 'e + 'b" where
  "rbind (Inl e) f = Inl e"
| "rbind (Inr x) f = f x"

fun collect :: "('a \<Rightarrow> 'e + 'b) \<Rightarrow> 'a list \<Rightarrow> 'e + 'b list" where
  "collect f [] = Inr []"
| "collect f (x # xs) = rbind (f x) (\<lambda>y. rbind (collect f xs) (\<lambda>ys. Inr (y # ys)))"

lemma rbind_Inr_iff [simp]: "rbind r f = Inr y \<longleftrightarrow> (\<exists>x. r = Inr x \<and> f x = Inr y)"
  by (cases r) auto

lemma rbind_split:
  "P (rbind r f) = ((\<forall>e. r = Inl e \<longrightarrow> P (Inl e)) \<and> (\<forall>x. r = Inr x \<longrightarrow> P (f x)))"
  by (cases r) auto

lemma collect_Inr_iff: "collect f xs = Inr ys \<longleftrightarrow> list_all2 (\<lambda>x y. f x = Inr y) xs ys"
  by (induction xs arbitrary: ys) (auto simp: list_all2_Cons1)

lemma collect_id: "(\<And>x. x \<in> set xs \<Longrightarrow> f x = Inr x) \<Longrightarrow> collect f xs = Inr xs"
  by (induction xs) auto

lemma collect_set: "collect f xs = Inr ys \<Longrightarrow> y \<in> set ys \<Longrightarrow> \<exists>x\<in>set xs. f x = Inr y"
  by (induction xs arbitrary: ys) auto

lemma collect_set_in: "collect f xs = Inr ys \<Longrightarrow> x \<in> set xs \<Longrightarrow> \<exists>y\<in>set ys. f x = Inr y"
  by (induction xs arbitrary: ys) auto

lemma collect_mset:
  assumes "mset xs = mset ys" "collect f xs = Inr us"
  shows "\<exists>vs. collect f ys = Inr vs \<and> mset vs = mset us"
proof -
  define g where "g x = (case f x of Inr y \<Rightarrow> y | Inl e \<Rightarrow> undefined)" for x
  have g: "f x = Inr (g x)" if "x \<in> set xs" for x
    using collect_set_in [OF assms(2) that] by (auto simp: g_def)
  have "collect f zs = Inr (map g zs)" if "set zs \<subseteq> set xs" for zs
    using that by (induction zs) (auto simp: g)
  moreover have "set ys \<subseteq> set xs"
    using assms(1) by (metis set_mset_mset subset_refl)
  moreover have "us = map g xs"
    using assms(2) calculation(1) [of xs] by simp
  moreover have "mset (map g ys) = mset (map g xs)"
    using assms(1) by simp
  ultimately show ?thesis by blast
qed

end
