(* ===== verification/Golib.thy ===== *)
theory Golib
  imports Prelude "HOL-Library.Word"
begin

text \<open>
  The part of Go's standard library the modelled packages compute with: addresses and
  prefixes of \<^verbatim>\<open>net/netip\<close> and instants of \<^verbatim>\<open>time\<close> with their RFC 3339
  text. An address is the zero value, a 32-bit address, or a 128-bit address with a zone
  (empty when there is none); an IPv4-mapped address is a 128-bit address. A prefix keeps
  its length plus one, so that the zero value is invalid, as the library does.
\<close>

unbundle bit_operations_syntax

section \<open>Addresses\<close>

datatype addr = ZeroAddr | Addr4 "32 word" | Addr6 "128 word" string

fun addr_valid :: "addr \<Rightarrow> bool" where
  "addr_valid ZeroAddr = False"
| "addr_valid a = True"

fun addr_is4 :: "addr \<Rightarrow> bool" where
  "addr_is4 (Addr4 w) = True"
| "addr_is4 a = False"

fun bit_len :: "addr \<Rightarrow> nat" where
  "bit_len ZeroAddr = 0"
| "bit_len (Addr4 w) = 32"
| "bit_len (Addr6 w z) = 128"

fun addr_zone :: "addr \<Rightarrow> string" where
  "addr_zone (Addr6 w z) = z"
| "addr_zone a = []"

fun with_zone :: "string \<Rightarrow> addr \<Rightarrow> addr" where
  "with_zone z (Addr6 w z') = Addr6 w z"
| "with_zone z a = a"

fun is_4in6 :: "addr \<Rightarrow> bool" where
  "is_4in6 (Addr6 w z) = (drop_bit 32 w = 0xFFFF)"
| "is_4in6 a = False"

fun unmap :: "addr \<Rightarrow> addr" where
  "unmap (Addr6 w z) = (if drop_bit 32 w = 0xFFFF then Addr4 (ucast w) else Addr6 w z)"
| "unmap a = a"

text \<open>The spelling every map key of the sources uses: no zone, no IPv4-mapped form.\<close>

definition plain_addr :: "addr \<Rightarrow> addr" where
  "plain_addr a = unmap (with_zone [] a)"

fun addr_link_local :: "addr \<Rightarrow> bool" where
  "addr_link_local ZeroAddr = False"
| "addr_link_local (Addr4 w) = (drop_bit 16 w = 0xA9FE)"
| "addr_link_local (Addr6 w z) =
     (if drop_bit 32 w = 0xFFFF then drop_bit 16 (ucast w :: 32 word) = 0xA9FE
      else drop_bit 118 w = 0x3FA)"

fun addr_compare :: "addr \<Rightarrow> addr \<Rightarrow> int" where
  "addr_compare (Addr4 x) (Addr4 y) = three_way x y"
| "addr_compare (Addr6 x z) (Addr6 y z') = cmp_or [three_way x y, three_way z z']"
| "addr_compare a b = three_way (bit_len a) (bit_len b)"

lemma plain_addr_idem [simp]: "plain_addr (plain_addr a) = plain_addr a"
  by (cases a) (auto simp: plain_addr_def)

lemma plain_addr_zone [simp]: "addr_zone (plain_addr a) = []"
  by (cases a) (auto simp: plain_addr_def)

lemma plain_addr_valid [simp]: "addr_valid (plain_addr a) = addr_valid a"
  by (cases a) (auto simp: plain_addr_def)

lemma plain_addr_Zero [simp]: "plain_addr ZeroAddr = ZeroAddr" "plain_addr (Addr4 w) = Addr4 w"
  by (simp_all add: plain_addr_def)

fun addr_value :: "addr \<Rightarrow> nat" where
  "addr_value ZeroAddr = 0"
| "addr_value (Addr4 w) = unat w"
| "addr_value (Addr6 w z) = unat w"

lemma addr_compare_keys:
  "addr_compare a b =
     cmp_or (map (\<lambda>c. c a b)
       [\<lambda>a b. three_way (bit_len a) (bit_len b), \<lambda>a b. three_way (addr_value a) (addr_value b),
        \<lambda>a b. three_way (addr_zone a) (addr_zone b)])"
  by (cases a; cases b) (auto simp: three_way_def word_less_nat_alt word_le_nat_alt)

lemma addr_keys_eq:
  "bit_len a = bit_len b \<Longrightarrow> addr_value a = addr_value b \<Longrightarrow> addr_zone a = addr_zone b \<Longrightarrow> a = b"
  by (cases a; cases b) (auto simp: word_unat_eq_iff)

interpretation addr_order: compare_order addr_compare
  by (rule compare_order_keysI [OF addr_compare_keys]) (auto intro: compare_key_three_way addr_keys_eq)

instantiation addr :: linorder
begin

definition less_eq_addr :: "addr \<Rightarrow> addr \<Rightarrow> bool" where
  "a \<le> b \<longleftrightarrow> addr_compare a b \<le> 0"

definition less_addr :: "addr \<Rightarrow> addr \<Rightarrow> bool" where
  "a < b \<longleftrightarrow> addr_compare a b < 0"

instance
proof
  fix x y z :: addr
  show "(x < y) = (x \<le> y \<and> \<not> y \<le> x)"
    using addr_order.flip [of x y] addr_order.flip [of y x]
    by (auto simp: less_eq_addr_def less_addr_def)
  show "x \<le> x"
    by (simp add: less_eq_addr_def)
  show "x \<le> y \<Longrightarrow> y \<le> z \<Longrightarrow> x \<le> z"
    by (auto simp: less_eq_addr_def intro: addr_order.trans)
  show "x \<le> y \<Longrightarrow> y \<le> x \<Longrightarrow> x = y"
    using addr_order.flip [of x y] addr_order.flip [of y x] addr_order.antisym [of x y]
    by (auto simp: less_eq_addr_def)
  show "x \<le> y \<or> y \<le> x"
    by (simp add: less_eq_addr_def addr_order.total)
qed

end

section \<open>Text of addresses\<close>

definition text4 :: "32 word \<Rightarrow> string" where
  "text4 w = join (map (\<lambda>k. int_dec (uint (drop_bit k w AND 0xFF))) [24, 16, 8, 0]) ''.''"

definition groups6 :: "128 word \<Rightarrow> int list" where
  "groups6 w = map (\<lambda>k. uint (drop_bit k w AND 0xFFFF)) [112, 96, 80, 64, 48, 32, 16, 0]"

text \<open>The first longest run of at least two zero groups, as a half-open interval.\<close>

definition zero_run :: "int list \<Rightarrow> nat \<times> nat" where
  "zero_run gs =
     foldl (\<lambda>(s, e) i. let l = length (takeWhile (\<lambda>x. x = 0) (drop i gs))
              in if 2 \<le> l \<and> e - s < l then (i, i + l) else (s, e)) (255, 255) [0..<8]"

definition text6 :: "128 word \<Rightarrow> string" where
  "text6 w =
     (let gs = groups6 w; (s, e) = zero_run gs
      in if s = 255 then join (map int_hex gs) '':''
         else join (map int_hex (take s gs)) '':'' @ ''::'' @ join (map int_hex (drop e gs)) '':'')"

fun addr_string :: "addr \<Rightarrow> string" where
  "addr_string ZeroAddr = ''invalid IP''"
| "addr_string (Addr4 w) = text4 w"
| "addr_string (Addr6 w z) =
     (if drop_bit 32 w = 0xFFFF then ''::ffff:'' @ text4 (ucast w) else text6 w)
     @ (if z = [] then [] else CHR ''%'' # z)"

section \<open>Prefixes\<close>

datatype prefix = Prefix (prefix_addr: addr) (bits_plus_one: nat)

definition prefix_valid :: "prefix \<Rightarrow> bool" where
  "prefix_valid p \<longleftrightarrow> 0 < bits_plus_one p"

definition prefix_bits :: "prefix \<Rightarrow> int" where
  "prefix_bits p = int (bits_plus_one p) - 1"

definition top4 :: "nat \<Rightarrow> 32 word" where
  "top4 b = NOT (mask (32 - b))"

definition top6 :: "nat \<Rightarrow> 128 word" where
  "top6 b = NOT (mask (128 - b))"

text \<open>\<^verbatim>\<open>Addr.Prefix\<close>: keep the first bits; a length that does not fit gives the zero prefix.\<close>

fun addr_prefix :: "addr \<Rightarrow> int \<Rightarrow> prefix" where
  "addr_prefix ZeroAddr b = Prefix ZeroAddr 0"
| "addr_prefix (Addr4 w) b =
     (if b < 0 \<or> 32 < b then Prefix ZeroAddr 0 else Prefix (Addr4 (w AND top4 (nat b))) (nat b + 1))"
| "addr_prefix (Addr6 w z) b =
     (if b < 0 \<or> 128 < b then Prefix ZeroAddr 0 else Prefix (Addr6 (w AND top6 (nat b)) []) (nat b + 1))"

definition masked :: "prefix \<Rightarrow> prefix" where
  "masked p = addr_prefix (prefix_addr p) (prefix_bits p)"

fun prefix_contains :: "prefix \<Rightarrow> addr \<Rightarrow> bool" where
  "prefix_contains (Prefix (Addr4 p) b1) (Addr4 a) = (0 < b1 \<and> (a XOR p) AND top4 (b1 - 1) = 0)"
| "prefix_contains (Prefix (Addr6 p z) b1) (Addr6 a z') =
     (0 < b1 \<and> z' = [] \<and> (a XOR p) AND top6 (b1 - 1) = 0)"
| "prefix_contains p a = False"

definition prefix_string :: "prefix \<Rightarrow> string" where
  "prefix_string p =
     (if prefix_valid p then addr_string (prefix_addr p) @ ''/'' @ int_dec (prefix_bits p)
      else ''invalid Prefix'')"

definition compare_prefix :: "prefix \<Rightarrow> prefix \<Rightarrow> int" where
  "compare_prefix a b =
     cmp_or [addr_compare (prefix_addr a) (prefix_addr b), three_way (prefix_bits a) (prefix_bits b)]"

interpretation prefix_order: compare_order compare_prefix
  by (rule compare_order_keysI [where ds = "[\<lambda>a b. addr_compare (prefix_addr a) (prefix_addr b),
        \<lambda>a b. three_way (prefix_bits a) (prefix_bits b)]"])
    (auto simp: compare_prefix_def addr_order.zero_iff prefix_bits_def simp del: cmp_or.simps
      intro: prefix.expand compare_key_three_way compare_preorder_key [OF addr_order.compare_preorder_axioms])

lemma masked_Zero [simp]: "masked (Prefix ZeroAddr b) = Prefix ZeroAddr 0"
  by (simp add: masked_def)

lemma masked_idem [simp]: "masked (masked p) = masked p"
  by (cases p; cases "prefix_addr p") (auto simp: masked_def prefix_bits_def and.assoc)

lemma prefix_contains_valid: "prefix_contains p a \<Longrightarrow> prefix_valid p"
  by (cases p; cases a; cases "prefix_addr p") (auto simp: prefix_valid_def)

lemma prefix_contains_zone: "prefix_contains p a \<Longrightarrow> addr_zone a = []"
  by (cases p; cases a; cases "prefix_addr p") auto

text \<open>
  Two prefixes of one length that both hold an address have the same masked form: at each
  length there is one masked prefix around an address.
\<close>

lemma and_xor_zero: "(a XOR p) AND m = (0 :: 'a::len word) \<longleftrightarrow> a AND m = p AND m"
  by (metis (no_types, lifting) bit.conj_xor_distrib2 bit.xor_left_self bit.xor_self
      and.commute xor.right_neutral xor.assoc)

lemma masked_contains_unique:
  assumes "prefix_contains p a" "prefix_contains q a" "bits_plus_one p = bits_plus_one q"
    and "masked p = p" "masked q = q"
  shows "p = q"
proof -
  obtain x n where p: "p = Prefix x n" by (cases p)
  obtain y m where q: "q = Prefix y m" by (cases q)
  show ?thesis
    using assms
    by (cases a; cases x; cases y)
      (auto simp: p q masked_def prefix_bits_def and_xor_zero nat_diff_distrib split: if_splits)
qed

section \<open>Instants\<close>

text \<open>
  An instant counts nanoseconds from Go's zero time, the start of the year 1 in UTC; the
  offset is the location's distance from UTC in seconds, which only its own text shows.
\<close>

datatype gotime = Time (instant: int) (offset: int)

definition time_is_zero :: "gotime \<Rightarrow> bool" where
  "time_is_zero t \<longleftrightarrow> instant t = 0"

definition time_compare :: "gotime \<Rightarrow> gotime \<Rightarrow> int" where
  "time_compare a b = three_way (instant a) (instant b)"

definition leap :: "int \<Rightarrow> bool" where
  "leap y \<longleftrightarrow> y mod 4 = 0 \<and> (y mod 100 \<noteq> 0 \<or> y mod 400 = 0)"

definition month_lengths :: "int \<Rightarrow> int list" where
  "month_lengths y = [31, if leap y then 29 else 28, 31, 30, 31, 30, 31, 31, 30, 31, 30, 31]"

fun month_day :: "int list \<Rightarrow> int \<Rightarrow> int \<Rightarrow> int \<times> int" where
  "month_day [] m d = (m, d + 1)"
| "month_day (l # ls) m d = (if d < l then (m, d + 1) else month_day ls (m + 1) (d - l))"

text \<open>Year, month and day of a day number counted from 1 January of the year 1.\<close>

definition civil :: "int \<Rightarrow> int \<times> int \<times> int" where
  "civil days =
     (let n400 = days div 146097; r = days mod 146097;
          n100 = min 3 (r div 36524); r = r - n100 * 36524;
          n4 = r div 1461; r = r mod 1461;
          n1 = min 3 (r div 365); r = r - n1 * 365;
          y = 400 * n400 + 100 * n100 + 4 * n4 + n1 + 1;
          (m, d) = month_day (month_lengths y) 1 r
      in (y, m, d))"

definition fraction :: "int \<Rightarrow> string" where
  "fraction ns = (if ns = 0 then [] else CHR ''.'' # rev (dropWhile (\<lambda>c. c = CHR ''0'') (rev (pad_dec 9 ns))))"

definition offset_text :: "int \<Rightarrow> string" where
  "offset_text off =
     (if off = 0 then ''Z''
      else let m = \<bar>off\<bar> div 60
           in (if off < 0 then ''-'' else ''+'') @ pad_dec 2 (m div 60) @ '':'' @ pad_dec 2 (m mod 60))"

text \<open>\<^verbatim>\<open>Time.Format(time.RFC3339Nano)\<close>.\<close>

definition rfc3339_nano :: "gotime \<Rightarrow> string" where
  "rfc3339_nano t =
     (let s = instant t div 1000000000 + offset t; ns = instant t mod 1000000000;
          (y, m, d) = civil (s div 86400); sec = s mod 86400
      in (if y < 0 then ''-'' else []) @ pad_dec 4 \<bar>y\<bar> @ ''-'' @ pad_dec 2 m @ ''-''
         @ pad_dec 2 d @ ''T'' @ pad_dec 2 (sec div 3600) @ '':'' @ pad_dec 2 (sec div 60 mod 60)
         @ '':'' @ pad_dec 2 (sec mod 60) @ fraction ns @ offset_text (offset t))"

text \<open>\<^verbatim>\<open>utcText\<close>: the instant in UTC.\<close>

definition utc_text :: "gotime \<Rightarrow> string" where
  "utc_text t = rfc3339_nano (Time (instant t) 0)"

end
