(* ===== verification/Netmodel.thy ===== *)
theory Netmodel
  imports Golib
begin

text \<open>
  The vendor-neutral model of routing state, \<^verbatim>\<open>internal/netmodel/model.go\<close>:
  observations, their validation and canonical order (\<open>new_model\<close>), and the exact-prefix
  question \<open>lookup_route\<close> with its four answers. The text of an error is its constructor;
  a nil slice and an empty one are the same list.
\<close>

section \<open>Data\<close>

text \<open>A plane is one of the five named ones or any other text, which validation refuses.\<close>

datatype plane = Intended | Configured | Control | FIB | Observed | OtherPlane string

fun plane_text :: "plane \<Rightarrow> string" where
  "plane_text Intended = ''intended''"
| "plane_text Configured = ''configured''"
| "plane_text Control = ''control''"
| "plane_text FIB = ''fib''"
| "plane_text Observed = ''observed''"
| "plane_text (OtherPlane s) = s"

definition origin_connected :: string where "origin_connected = ''connected''"
definition origin_static :: string where "origin_static = ''static''"
definition origin_ospf :: string where "origin_ospf = ''ospf''"
definition origin_bgp :: string where "origin_bgp = ''bgp''"

datatype lookup_state = Present | Absent | Unknown | Conflicting

record provenance =
  source :: string
  collected_at :: gotime

record attribute =
  attr_key :: string
  attr_value :: string

record next_hop =
  nh_addr :: addr
  nh_iface :: string

record route =
  r_prefix :: prefix
  r_origin :: string
  r_metric :: "32 word"
  r_metric_known :: bool
  r_discard :: bool
  r_hops :: "next_hop list"
  r_attrs :: "attribute list"

record interface =
  i_name :: string
  i_vlan_known :: bool
  i_vlan :: "16 word"
  i_addrs :: "prefix list"
  i_attrs :: "attribute list"

record neighbor =
  n_local :: string
  n_node :: string
  n_remote :: string
  n_addr :: addr
  n_attrs :: "attribute list"

record observation =
  o_prov :: provenance
  o_plane :: plane
  o_node :: string
  o_vrf :: string
  o_routes_complete :: bool
  o_neighbors_complete :: bool
  o_ifaces :: "interface list"
  o_neighbors :: "neighbor list"
  o_routes :: "route list"

record evidence =
  ev_prov :: provenance
  ev_route :: route

record answer =
  ans_state :: lookup_state
  ans_evidence :: "evidence list"
  ans_absent :: "provenance list"

text \<open>A model is its canonical observations.\<close>

type_synonym model = "observation list"

datatype row_owner = IfaceRow string | NeighborRow string string | RouteRow prefix

datatype model_error =
    SourceEmpty | CollectedAtZero | UnknownPlane plane | NodeEmpty | VrfEmpty
  | IfaceNameEmpty | IfaceTwice string | BadVlan string "16 word" | BadIfaceAddr string
  | AttrKeyEmpty row_owner | AttrValueEmpty row_owner string
  | NeighborIncomplete | NeighborZone string addr string
  | BadPrefix prefix | NoOrigin prefix | RouteTwice prefix string | DiscardWithHops prefix
  | HopZone prefix addr string | HopEmpty prefix | HopLinkLocal prefix addr
  | InObservation nat model_error

section \<open>Orders\<close>

definition compare_next_hops :: "next_hop \<Rightarrow> next_hop \<Rightarrow> int" where
  "compare_next_hops a b =
     cmp_or [addr_compare (nh_addr a) (nh_addr b), three_way (nh_iface a) (nh_iface b)]"

definition compare_attributes :: "attribute \<Rightarrow> attribute \<Rightarrow> int" where
  "compare_attributes a b =
     cmp_or [three_way (attr_key a) (attr_key b), three_way (attr_value a) (attr_value b)]"

definition compare_routes :: "route \<Rightarrow> route \<Rightarrow> int" where
  "compare_routes a b =
     cmp_or [three_way (prefix_string (r_prefix a)) (prefix_string (r_prefix b)),
             three_way (r_origin a) (r_origin b)]"

definition compare_neighbors :: "neighbor \<Rightarrow> neighbor \<Rightarrow> int" where
  "compare_neighbors a b =
     cmp_or [three_way (n_local a) (n_local b), three_way (n_node a) (n_node b),
             three_way (n_remote a) (n_remote b), addr_compare (n_addr a) (n_addr b),
             compare_func compare_attributes (n_attrs a) (n_attrs b)]"

definition compare_ifaces :: "interface \<Rightarrow> interface \<Rightarrow> int" where
  "compare_ifaces a b = three_way (i_name a) (i_name b)"

lemmas compare_key_addr = compare_preorder_key [OF addr_order.compare_preorder_axioms]

interpretation next_hop_order: compare_order compare_next_hops
  by (rule compare_order_keysI [where ds = "[\<lambda>a b. addr_compare (nh_addr a) (nh_addr b),
        \<lambda>a b. three_way (nh_iface a) (nh_iface b)]"])
    (auto simp: compare_next_hops_def addr_order.zero_iff simp del: cmp_or.simps
      intro: compare_key_three_way compare_key_addr)

interpretation attribute_order: compare_order compare_attributes
  by (rule compare_order_keysI [where ds = "[\<lambda>a b. three_way (attr_key a) (attr_key b),
        \<lambda>a b. three_way (attr_value a) (attr_value b)]"])
    (auto simp: compare_attributes_def simp del: cmp_or.simps intro: compare_key_three_way)

interpretation neighbor_order: compare_order compare_neighbors
  by (rule compare_order_keysI [where ds = "[\<lambda>a b. three_way (n_local a) (n_local b),
        \<lambda>a b. three_way (n_node a) (n_node b), \<lambda>a b. three_way (n_remote a) (n_remote b),
        \<lambda>a b. addr_compare (n_addr a) (n_addr b),
        \<lambda>a b. compare_func compare_attributes (n_attrs a) (n_attrs b)]"])
    (auto simp: compare_neighbors_def addr_order.zero_iff compare_func_zero [OF attribute_order.zero_iff]
      simp del: cmp_or.simps intro: compare_key_three_way compare_key_addr
      compare_preorder_key [OF compare_preorder_compare_func [OF attribute_order.compare_preorder_axioms]])

interpretation route_order: compare_preorder compare_routes
  by (rule compare_preorder_keysI [where ds = "[\<lambda>a b. three_way (prefix_string (r_prefix a)) (prefix_string (r_prefix b)),
        \<lambda>a b. three_way (r_origin a) (r_origin b)]"])
    (auto simp: compare_routes_def simp del: cmp_or.simps intro: compare_key_three_way)

interpretation iface_order: compare_preorder compare_ifaces
  by (rule compare_preorder_keysI [where ds = "[\<lambda>a b. three_way (i_name a) (i_name b)]"])
    (auto simp: compare_ifaces_def intro: compare_key_three_way)

section \<open>Validation and canonical order\<close>

fun valid_plane :: "plane \<Rightarrow> bool" where
  "valid_plane (OtherPlane s) = False"
| "valid_plane p = True"

text \<open>
  One address has one spelling per interface: the zone moves into the interface and the
  IPv4-mapped form goes away. \<open>None\<close> is a zone that names another interface.
\<close>

definition normalize_addr :: "addr \<Rightarrow> string \<Rightarrow> (addr \<times> string) option" where
  "normalize_addr a iface =
     (let z = addr_zone a
      in if z \<noteq> [] \<and> iface \<noteq> [] \<and> iface \<noteq> z then None
         else Some (plain_addr a, if z \<noteq> [] then z else iface))"

fun check_attributes :: "row_owner \<Rightarrow> attribute list \<Rightarrow> model_error option" where
  "check_attributes ow [] = None"
| "check_attributes ow (a # as) =
     (if trim_space (attr_key a) = [] then Some (AttrKeyEmpty ow)
      else if trim_space (attr_value a) = [] then Some (AttrValueEmpty ow (attr_key a))
      else check_attributes ow as)"

definition canonical_attributes :: "row_owner \<Rightarrow> attribute list \<Rightarrow> model_error + attribute list" where
  "canonical_attributes ow as =
     (case check_attributes ow as of
        Some e \<Rightarrow> Inl e
      | None \<Rightarrow> Inr (remdups_adj (sort_func compare_attributes as)))"

definition canonical_iface :: "string list \<Rightarrow> interface \<Rightarrow> model_error + interface" where
  "canonical_iface names i =
     (if i_name i = [] then Inl IfaceNameEmpty
      else if i_name i \<in> set names then Inl (IfaceTwice (i_name i))
      else if i_vlan_known i \<and> 4094 < i_vlan i then Inl (BadVlan (i_name i) (i_vlan i))
      else if \<exists>a\<in>set (i_addrs i). \<not> prefix_valid a then Inl (BadIfaceAddr (i_name i))
      else rbind (canonical_attributes (IfaceRow (i_name i)) (i_attrs i)) (\<lambda>as.
        Inr (i\<lparr>i_vlan := if i_vlan_known i then i_vlan i else 0,
               i_addrs := sort_func compare_prefix (i_addrs i), i_attrs := as\<rparr>)))"

fun canonical_ifaces :: "string list \<Rightarrow> interface list \<Rightarrow> model_error + interface list" where
  "canonical_ifaces names [] = Inr []"
| "canonical_ifaces names (i # is) =
     rbind (canonical_iface names i) (\<lambda>i'.
     rbind (canonical_ifaces (names @ [i_name i]) is) (\<lambda>is'. Inr (i' # is')))"

definition canonical_neighbor :: "neighbor \<Rightarrow> model_error + neighbor" where
  "canonical_neighbor n =
     (if n_local n = [] \<or> n_node n = [] then Inl NeighborIncomplete
      else case normalize_addr (n_addr n) (n_local n) of
        None \<Rightarrow> Inl (NeighborZone (n_node n) (n_addr n) (n_local n))
      | Some (a, _) \<Rightarrow> rbind (canonical_attributes (NeighborRow (n_node n) (n_local n)) (n_attrs n))
          (\<lambda>as. Inr (n\<lparr>n_addr := a, n_attrs := as\<rparr>)))"

definition canonical_hop :: "prefix \<Rightarrow> next_hop \<Rightarrow> model_error + next_hop" where
  "canonical_hop p nh =
     (case normalize_addr (nh_addr nh) (nh_iface nh) of
        None \<Rightarrow> Inl (HopZone p (nh_addr nh) (nh_iface nh))
      | Some (a, i) \<Rightarrow>
          if \<not> addr_valid a \<and> i = [] then Inl (HopEmpty p)
          else if addr_link_local a \<and> i = [] then Inl (HopLinkLocal p a)
          else Inr \<lparr>nh_addr = a, nh_iface = i\<rparr>)"

definition canonical_route :: "(prefix \<times> string) list \<Rightarrow> route \<Rightarrow> model_error + route" where
  "canonical_route seen r =
     (if \<not> prefix_valid (r_prefix r) \<or> masked (r_prefix r) \<noteq> r_prefix r then Inl (BadPrefix (r_prefix r))
      else if r_origin r = [] then Inl (NoOrigin (r_prefix r))
      else if (r_prefix r, r_origin r) \<in> set seen then Inl (RouteTwice (r_prefix r) (r_origin r))
      else if r_discard r \<and> r_hops r \<noteq> [] then Inl (DiscardWithHops (r_prefix r))
      else rbind (collect (canonical_hop (r_prefix r)) (r_hops r)) (\<lambda>hops.
        rbind (canonical_attributes (RouteRow (r_prefix r)) (r_attrs r)) (\<lambda>as.
          Inr (r\<lparr>r_hops := remdups_adj (sort_func compare_next_hops hops), r_attrs := as,
                 r_metric := if r_metric_known r then r_metric r else 0\<rparr>))))"

fun canonical_routes :: "(prefix \<times> string) list \<Rightarrow> route list \<Rightarrow> model_error + route list" where
  "canonical_routes seen [] = Inr []"
| "canonical_routes seen (r # rs) =
     rbind (canonical_route seen r) (\<lambda>r'.
     rbind (canonical_routes (seen @ [(r_prefix r, r_origin r)]) rs) (\<lambda>rs'. Inr (r' # rs')))"

definition canonical :: "observation \<Rightarrow> model_error + observation" where
  "canonical ob =
     (if source (o_prov ob) = [] then Inl SourceEmpty
      else if time_is_zero (collected_at (o_prov ob)) then Inl CollectedAtZero
      else if \<not> valid_plane (o_plane ob) then Inl (UnknownPlane (o_plane ob))
      else if o_node ob = [] then Inl NodeEmpty
      else if o_vrf ob = [] then Inl VrfEmpty
      else rbind (canonical_ifaces [] (o_ifaces ob)) (\<lambda>is.
        rbind (collect canonical_neighbor (o_neighbors ob)) (\<lambda>ns.
        rbind (canonical_routes [] (o_routes ob)) (\<lambda>rs.
          Inr (ob\<lparr>o_ifaces := sort_func compare_ifaces is,
                  o_neighbors := sort_func compare_neighbors ns,
                  o_routes := sort_func compare_routes rs\<rparr>)))))"

section \<open>The tie break: an observation in JSON\<close>

text \<open>
  \<^verbatim>\<open>compareObservations\<close> falls back to \<^verbatim>\<open>encoding/json\<close>. Strings are escaped the
  way \<^verbatim>\<open>json.Marshal\<close> does for valid UTF-8, with its HTML escapes.
\<close>

datatype json = JNull | JBool bool | JInt int | JStr string | JArr "json list" | JObj "(string \<times> json) list"

definition u_escape :: "int \<Rightarrow> string" where
  "u_escape n = [CHR 0x5C, CHR ''u''] @ (let h = int_hex n in replicate (4 - length h) (CHR ''0'') @ h)"

fun json_escape :: "string \<Rightarrow> string" where
  "json_escape [] = []"
| "json_escape (c # cs) =
     (if take 2 cs = [CHR 0x80, CHR 0xA8] \<and> c = CHR 0xE2 then u_escape 0x2028 @ json_escape (drop 2 cs)
      else if take 2 cs = [CHR 0x80, CHR 0xA9] \<and> c = CHR 0xE2 then u_escape 0x2029 @ json_escape (drop 2 cs)
      else (if c = CHR 0x22 \<or> c = CHR 0x5C then [CHR 0x5C, c]
            else if c = CHR 0x08 then [CHR 0x5C, CHR ''b'']
            else if c = CHR 0x0C then [CHR 0x5C, CHR ''f'']
            else if c = CHR 0x0A then [CHR 0x5C, CHR ''n'']
            else if c = CHR 0x0D then [CHR 0x5C, CHR ''r'']
            else if c = CHR 0x09 then [CHR 0x5C, CHR ''t'']
            else if of_char c < (32 :: int) \<or> c = CHR ''<'' \<or> c = CHR ''>'' \<or> c = CHR ''&''
              then u_escape (of_char c)
            else [c]) @ json_escape cs)"

definition json_string :: "string \<Rightarrow> string" where
  "json_string s = [CHR 0x22] @ json_escape s @ [CHR 0x22]"

fun marshal :: "json \<Rightarrow> string" where
  "marshal JNull = ''null''"
| "marshal (JBool b) = (if b then ''true'' else ''false'')"
| "marshal (JInt n) = int_dec n"
| "marshal (JStr s) = json_string s"
| "marshal (JArr js) = ''['' @ join (map marshal js) '','' @ '']''"
| "marshal (JObj fs) = ''{'' @ join (map (\<lambda>(k, j). json_string k @ '':'' @ marshal j) fs) '','' @ ''}''"

text \<open>A slice the canonical form leaves nil when it is empty.\<close>

definition json_slice :: "('a \<Rightarrow> json) \<Rightarrow> 'a list \<Rightarrow> json" where
  "json_slice f xs = (if xs = [] then JNull else JArr (map f xs))"

definition json_addr :: "addr \<Rightarrow> json" where
  "json_addr a = JStr (if addr_valid a then addr_string a else [])"

definition json_attribute :: "attribute \<Rightarrow> json" where
  "json_attribute a = JObj [(''Key'', JStr (attr_key a)), (''Value'', JStr (attr_value a))]"

definition json_iface :: "interface \<Rightarrow> json" where
  "json_iface i =
     JObj [(''Name'', JStr (i_name i)), (''VLANKnown'', JBool (i_vlan_known i)),
       (''VLAN'', JInt (uint (i_vlan i))),
       (''Addresses'', json_slice (\<lambda>p. JStr (prefix_string p)) (i_addrs i)),
       (''Attributes'', json_slice json_attribute (i_attrs i))]"

definition json_neighbor :: "neighbor \<Rightarrow> json" where
  "json_neighbor n =
     JObj [(''LocalInterface'', JStr (n_local n)), (''RemoteNode'', JStr (n_node n)),
       (''RemoteInterface'', JStr (n_remote n)), (''RemoteAddr'', json_addr (n_addr n)),
       (''Attributes'', json_slice json_attribute (n_attrs n))]"

definition json_route :: "route \<Rightarrow> json" where
  "json_route r =
     JObj [(''Prefix'', JStr (prefix_string (r_prefix r))), (''Origin'', JStr (r_origin r)),
       (''Metric'', JInt (uint (r_metric r))), (''MetricKnown'', JBool (r_metric_known r)),
       (''Discard'', JBool (r_discard r)),
       (''NextHops'', JArr (map (\<lambda>h. JObj [(''Addr'', json_addr (nh_addr h)), (''Interface'', JStr (nh_iface h))]) (r_hops r))),
       (''Attributes'', json_slice json_attribute (r_attrs r))]"

definition json_observation :: "observation \<Rightarrow> json" where
  "json_observation ob =
     JObj [(''Source'', JStr (source (o_prov ob))),
       (''CollectedAt'', JStr (rfc3339_nano (collected_at (o_prov ob)))),
       (''Plane'', JStr (plane_text (o_plane ob))), (''Node'', JStr (o_node ob)), (''VRF'', JStr (o_vrf ob)),
       (''RoutesComplete'', JBool (o_routes_complete ob)),
       (''NeighborsComplete'', JBool (o_neighbors_complete ob)),
       (''Interfaces'', json_slice json_iface (o_ifaces ob)),
       (''Neighbors'', json_slice json_neighbor (o_neighbors ob)),
       (''Routes'', json_slice json_route (o_routes ob))]"

definition compare_observations :: "observation \<Rightarrow> observation \<Rightarrow> int" where
  "compare_observations a b =
     cmp_or [three_way (plane_text (o_plane a)) (plane_text (o_plane b)),
             three_way (o_node a) (o_node b), three_way (o_vrf a) (o_vrf b),
             three_way (source (o_prov a)) (source (o_prov b)),
             time_compare (collected_at (o_prov a)) (collected_at (o_prov b)),
             three_way (marshal (json_observation a)) (marshal (json_observation b))]"

interpretation observation_order: compare_preorder compare_observations
  by (rule compare_preorder_keysI [where ds = "[\<lambda>a b. three_way (plane_text (o_plane a)) (plane_text (o_plane b)),
        \<lambda>a b. three_way (o_node a) (o_node b), \<lambda>a b. three_way (o_vrf a) (o_vrf b),
        \<lambda>a b. three_way (source (o_prov a)) (source (o_prov b)),
        \<lambda>a b. three_way (instant (collected_at (o_prov a))) (instant (collected_at (o_prov b))),
        \<lambda>a b. three_way (marshal (json_observation a)) (marshal (json_observation b))]"])
    (auto simp: compare_observations_def time_compare_def simp del: cmp_or.simps intro: compare_key_three_way)

text \<open>\<^verbatim>\<open>New\<close>: validate in the order given, then put in canonical order.\<close>

fun canonical_all :: "nat \<Rightarrow> observation list \<Rightarrow> model_error + observation list" where
  "canonical_all n [] = Inr []"
| "canonical_all n (ob # obs) =
     (case canonical ob of
        Inl e \<Rightarrow> Inl (InObservation n e)
      | Inr c \<Rightarrow> rbind (canonical_all (Suc n) obs) (\<lambda>cs. Inr (c # cs)))"

definition new_model :: "observation list \<Rightarrow> model_error + model" where
  "new_model obs = rbind (canonical_all 0 obs) (\<lambda>out. Inr (sort_func compare_observations out))"

section \<open>Lookup\<close>

definition forwards :: "route \<Rightarrow> bool" where
  "forwards r \<longleftrightarrow> r_discard r \<or> r_hops r \<noteq> []"

definition covers_hops :: "next_hop list \<Rightarrow> next_hop list \<Rightarrow> bool" where
  "covers_hops have_hops want =
     (\<forall>w\<in>set want. \<exists>h\<in>set have_hops. nh_addr w = nh_addr h \<and>
        (nh_iface w = [] \<or> nh_iface h = [] \<or> nh_iface w = nh_iface h))"

definition cover_each_other :: "next_hop list \<Rightarrow> next_hop list \<Rightarrow> bool" where
  "cover_each_other a b \<longleftrightarrow> covers_hops a b \<and> covers_hops b a"

definition disagree :: "route \<Rightarrow> route \<Rightarrow> bool" where
  "disagree a b =
     (if r_metric_known a \<and> r_metric_known b \<and> r_metric a \<noteq> r_metric b then True
      else if forwards a \<and> forwards b
        then r_discard a \<noteq> r_discard b \<or> \<not> cover_each_other (r_hops a) (r_hops b)
      else False)"

fun same_origin_disagrees :: "evidence list \<Rightarrow> bool" where
  "same_origin_disagrees [] = False"
| "same_origin_disagrees (e # es) =
     ((\<exists>f\<in>set es. r_origin (ev_route e) = r_origin (ev_route f) \<and> disagree (ev_route e) (ev_route f))
      \<or> same_origin_disagrees es)"

definition about :: "string \<Rightarrow> string \<Rightarrow> plane \<Rightarrow> observation \<Rightarrow> bool" where
  "about node vrf p ob \<longleftrightarrow> o_node ob = node \<and> o_vrf ob = vrf \<and> o_plane ob = p"

definition rows_of :: "prefix \<Rightarrow> observation \<Rightarrow> evidence list" where
  "rows_of p ob = map (\<lambda>r. \<lparr>ev_prov = o_prov ob, ev_route = r\<rparr>) (filter (\<lambda>r. r_prefix r = p) (o_routes ob))"

text \<open>The scan of \<^verbatim>\<open>Lookup\<close>: the rows that hold the prefix and who proves it absent.\<close>

fun lookup_scan :: "string \<Rightarrow> string \<Rightarrow> plane \<Rightarrow> prefix \<Rightarrow> observation list \<Rightarrow> evidence list \<times> provenance list" where
  "lookup_scan node vrf p pre [] = ([], [])"
| "lookup_scan node vrf p pre (ob # obs) =
     (let (rows, absent) = lookup_scan node vrf p pre obs
      in if \<not> about node vrf p ob then (rows, absent)
         else (rows_of pre ob @ rows,
               if rows_of pre ob = [] \<and> o_routes_complete ob then o_prov ob # absent else absent))"

definition lookup_route :: "model \<Rightarrow> string \<Rightarrow> string \<Rightarrow> plane \<Rightarrow> prefix \<Rightarrow> answer" where
  "lookup_route m node vrf p pre0 =
     (let pre = masked pre0
      in if \<not> prefix_valid pre then \<lparr>ans_state = Unknown, ans_evidence = [], ans_absent = []\<rparr>
         else let (rows, absent) = lookup_scan node vrf p pre m
              in if rows = [] \<and> absent \<noteq> [] then \<lparr>ans_state = Absent, ans_evidence = [], ans_absent = absent\<rparr>
                 else if rows = [] then \<lparr>ans_state = Unknown, ans_evidence = [], ans_absent = []\<rparr>
                 else if absent \<noteq> [] \<or> same_origin_disagrees rows
                   then \<lparr>ans_state = Conflicting, ans_evidence = rows, ans_absent = absent\<rparr>
                 else \<lparr>ans_state = Present, ans_evidence = rows, ans_absent = []\<rparr>)"

section \<open>Lemmas: agreement of routes\<close>

lemma covers_hops_refl [simp]: "covers_hops xs xs"
  by (auto simp: covers_hops_def)

lemma cover_each_other_sym: "cover_each_other a b = cover_each_other b a"
  by (auto simp: cover_each_other_def)

lemma cover_each_other_refl [simp]: "cover_each_other xs xs"
  by (simp add: cover_each_other_def)

lemma disagree_sym: "disagree a b = disagree b a"
  by (auto simp: disagree_def cover_each_other_sym [of "r_hops a"])

lemma disagree_irrefl [simp]: "\<not> disagree r r"
  by (simp add: disagree_def)

lemma same_origin_disagrees_iff:
  "same_origin_disagrees rows \<longleftrightarrow>
     (\<exists>e\<in>set rows. \<exists>f\<in>set rows. r_origin (ev_route e) = r_origin (ev_route f)
        \<and> disagree (ev_route e) (ev_route f))"
  by (induction rows) (auto simp: disagree_sym)

section \<open>Lemmas: what a lookup reads\<close>

definition states_prefix :: "model \<Rightarrow> string \<Rightarrow> string \<Rightarrow> plane \<Rightarrow> prefix \<Rightarrow> evidence \<Rightarrow> bool" where
  "states_prefix m node vrf p pre e \<longleftrightarrow>
     (\<exists>ob\<in>set m. about node vrf p ob \<and> ev_prov e = o_prov ob
        \<and> ev_route e \<in> set (o_routes ob) \<and> r_prefix (ev_route e) = pre)"

definition proves_absent :: "model \<Rightarrow> string \<Rightarrow> string \<Rightarrow> plane \<Rightarrow> prefix \<Rightarrow> provenance \<Rightarrow> bool" where
  "proves_absent m node vrf p pre v \<longleftrightarrow>
     (\<exists>ob\<in>set m. about node vrf p ob \<and> v = o_prov ob \<and> o_routes_complete ob
        \<and> (\<forall>r\<in>set (o_routes ob). r_prefix r \<noteq> pre))"

lemma rows_of_Nil_iff [simp]: "rows_of p ob = [] \<longleftrightarrow> (\<forall>r\<in>set (o_routes ob). r_prefix r \<noteq> p)"
  by (simp add: rows_of_def filter_empty_conv)

lemma set_rows_of:
  "e \<in> set (rows_of p ob) \<longleftrightarrow> ev_prov e = o_prov ob \<and> ev_route e \<in> set (o_routes ob) \<and> r_prefix (ev_route e) = p"
  by (cases e) (auto simp: rows_of_def)

lemma lookup_scan_rows:
  "e \<in> set (fst (lookup_scan node vrf p pre m)) \<longleftrightarrow> states_prefix m node vrf p pre e"
  by (induction m) (auto simp: states_prefix_def set_rows_of split: prod.splits)

lemma lookup_scan_absent:
  "v \<in> set (snd (lookup_scan node vrf p pre m)) \<longleftrightarrow> proves_absent m node vrf p pre v"
  by (induction m) (auto simp: proves_absent_def Let_def split: prod.splits)

lemma lookup_scan_Nil:
  "fst (lookup_scan node vrf p pre m) = [] \<longleftrightarrow> (\<forall>e. \<not> states_prefix m node vrf p pre e)"
  "snd (lookup_scan node vrf p pre m) = [] \<longleftrightarrow> (\<forall>v. \<not> proves_absent m node vrf p pre v)"
  by (metis lookup_scan_rows list.set_intros(1) neq_Nil_conv list.set(1) empty_iff)
    (metis lookup_scan_absent list.set_intros(1) neq_Nil_conv list.set(1) empty_iff)

lemma same_origin_scan:
  "same_origin_disagrees (fst (lookup_scan node vrf p pre m)) \<longleftrightarrow>
     (\<exists>e f. states_prefix m node vrf p pre e \<and> states_prefix m node vrf p pre f
        \<and> r_origin (ev_route e) = r_origin (ev_route f) \<and> disagree (ev_route e) (ev_route f))"
  by (auto simp: same_origin_disagrees_iff lookup_scan_rows Bex_def)

text \<open>The question depends on the prefix through its masked form only.\<close>

lemma lookup_masked: "lookup_route m node vrf p (masked pre) = lookup_route m node vrf p pre"
  by (simp add: lookup_route_def)

lemma lookup_invalid: "\<not> prefix_valid (masked pre) \<Longrightarrow> ans_state (lookup_route m node vrf p pre) = Unknown"
  by (simp add: lookup_route_def)

definition rows_clash :: "model \<Rightarrow> string \<Rightarrow> string \<Rightarrow> plane \<Rightarrow> prefix \<Rightarrow> bool" where
  "rows_clash m node vrf p pre \<longleftrightarrow>
     (\<exists>e f. states_prefix m node vrf p pre e \<and> states_prefix m node vrf p pre f
        \<and> r_origin (ev_route e) = r_origin (ev_route f) \<and> disagree (ev_route e) (ev_route f))"

text \<open>What the package promises of a lookup, over the observations as a set.\<close>

definition lookup_spec :: "model \<Rightarrow> string \<Rightarrow> string \<Rightarrow> plane \<Rightarrow> prefix \<Rightarrow> lookup_state" where
  "lookup_spec m node vrf p pre =
     (if \<forall>e. \<not> states_prefix m node vrf p pre e
      then if \<exists>v. proves_absent m node vrf p pre v then Absent else Unknown
      else if (\<exists>v. proves_absent m node vrf p pre v) \<or> rows_clash m node vrf p pre then Conflicting
      else Present)"

definition sample_table :: "route list \<Rightarrow> observation" where
  "sample_table rs =
     \<lparr>o_prov = \<lparr>source = ''a'', collected_at = Time 1 0\<rparr>, o_plane = FIB, o_node = ''r1'', o_vrf = ''v'',
      o_routes_complete = True, o_neighbors_complete = False, o_ifaces = [], o_neighbors = [], o_routes = rs\<rparr>"

definition sample_route :: "prefix \<Rightarrow> string \<Rightarrow> next_hop list \<Rightarrow> route" where
  "sample_route p origin hops =
     \<lparr>r_prefix = p, r_origin = origin, r_metric = 0, r_metric_known = False, r_discard = False,
      r_hops = hops, r_attrs = []\<rparr>"

lemma sample_prefix_valid: "prefix_valid (masked (Prefix (Addr4 0x0A000001) 9))"
  by code_simp

lemma lookup_state_spec:
  assumes "prefix_valid (masked pre)"
  shows "ans_state (lookup_route m node vrf p pre) = lookup_spec m node vrf p (masked pre)"
  using assms lookup_scan_Nil [of node vrf p "masked pre" m] same_origin_scan [of node vrf p "masked pre" m]
  by (auto simp: lookup_route_def lookup_spec_def rows_clash_def Let_def split: prod.splits)

text \<open>
  C17. The four answers of a lookup, decided by what the observations of that node, routing
  domain and plane hold: absent when a complete table lacks the prefix and nobody has it,
  unknown when nobody has it and no table is complete, conflicting when somebody has it and
  either a complete table lacks it or two rows of one origin state different values, and
  present otherwise.
\<close>

theorem lookup_four_answers:
  assumes "prefix_valid (masked pre)"
  shows "ans_state (lookup_route m node vrf p pre) = lookup_spec m node vrf p (masked pre)"
  using assms by (rule lookup_state_spec)

theorem lookup_four_answers_witness:
  "lookup_spec [sample_table []] ''r1'' ''v'' FIB (masked (Prefix (Addr4 0x0A000001) 9)) = Absent"
proof -
  have "ans_state (lookup_route [sample_table []] ''r1'' ''v'' FIB (Prefix (Addr4 0x0A000001) 9)) = Absent"
    by code_simp
  then show ?thesis
    using lookup_four_answers [OF sample_prefix_valid, of "[sample_table []]" "''r1''" "''v''" FIB] by simp
qed

lemma lookup_rows:
  assumes "prefix_valid (masked pre)"
  shows "e \<in> set (ans_evidence (lookup_route m node vrf p pre)) \<longleftrightarrow> states_prefix m node vrf p (masked pre) e"
    and "v \<in> set (ans_absent (lookup_route m node vrf p pre)) \<longleftrightarrow> proves_absent m node vrf p (masked pre) v"
  using assms lookup_scan_Nil [of node vrf p "masked pre" m]
    lookup_scan_rows [of e node vrf p "masked pre" m] lookup_scan_absent [of v node vrf p "masked pre" m]
  by (auto simp: lookup_route_def Let_def split: prod.splits if_splits)

text \<open>
  The evidence of an answer is complete and sound: its rows are exactly the routes that
  the observations of that node, routing domain and plane state for the masked prefix, and
  the names under absence are exactly the complete observations without it.
\<close>

theorem lookup_evidence_exact:
  assumes "prefix_valid (masked pre)"
  shows "(e \<in> set (ans_evidence (lookup_route m node vrf p pre)) \<longleftrightarrow> states_prefix m node vrf p (masked pre) e)
    \<and> (v \<in> set (ans_absent (lookup_route m node vrf p pre)) \<longleftrightarrow> proves_absent m node vrf p (masked pre) v)"
  using lookup_rows [OF assms] by blast

theorem lookup_evidence_exact_witness:
  "states_prefix [sample_table [sample_route (Prefix (Addr4 0x0A000000) 9) ''ospf'' []]] ''r1'' ''v'' FIB
     (masked (Prefix (Addr4 0x0A000001) 9))
     \<lparr>ev_prov = \<lparr>source = ''a'', collected_at = Time 1 0\<rparr>,
      ev_route = sample_route (Prefix (Addr4 0x0A000000) 9) ''ospf'' []\<rparr>"
proof -
  let ?r = "sample_route (Prefix (Addr4 0x0A000000) 9) ''ospf'' []"
  let ?e = "\<lparr>ev_prov = \<lparr>source = ''a'', collected_at = Time 1 0\<rparr>, ev_route = ?r\<rparr>"
  have "?e \<in> set (ans_evidence (lookup_route [sample_table [?r]] ''r1'' ''v'' FIB (Prefix (Addr4 0x0A000001) 9)))"
    by code_simp
  then show ?thesis
    using lookup_evidence_exact [OF sample_prefix_valid, of ?e "[sample_table [?r]]" "''r1''" "''v''" FIB undefined]
    by simp
qed

end
