(* ===== verification/Hop_Match.thy ===== *)
theory Hop_Match
  imports Netmodel
begin

text \<open>
  The comparison of two next-hop lists, \<^verbatim>\<open>sameHops\<close>, \<^verbatim>\<open>matchHops\<close> and
  \<^verbatim>\<open>augmentHop\<close> of \<^verbatim>\<open>internal/routepath/compare.go\<close>: Kuhn's augmenting-path
  search for a matching that pairs every wanted hop with a distinct compatible one. A hop of
  the explanation holds the text of its address; the model keeps the address, and the zero
  address where the text is empty.
\<close>

section \<open>The search\<close>

text \<open>
  The loop of \<^verbatim>\<open>augmentHop\<close> from position \<open>i\<close> on, with the two slices it writes:
  which positions were seen, and which wanted index owns each position (\<open>None\<close> for -1).
  \<open>c w i\<close> says the wanted index \<open>w\<close> and the position \<open>i\<close> are compatible. The
  loop runs over the positions of \<open>seen\<close>, which is as long as the other list.
\<close>

function augment_hop ::
  "(nat \<Rightarrow> nat \<Rightarrow> bool) \<Rightarrow> nat \<Rightarrow> nat \<Rightarrow> bool list \<Rightarrow> nat option list
     \<Rightarrow> bool \<times> bool list \<times> nat option list" where
  "augment_hop c w i seen owner =
     (if length seen \<le> i then (False, seen, owner)
      else if seen ! i \<or> \<not> c w i then augment_hop c w (Suc i) seen owner
      else case owner ! i of
        None \<Rightarrow> (True, seen[i := True], owner[i := Some w])
      | Some w' \<Rightarrow>
          (case augment_hop c w' 0 (seen[i := True]) owner of (ok, seen', owner') \<Rightarrow>
             if ok then (True, seen', owner'[i := Some w])
             else augment_hop c w (Suc i) seen' owner'))"
  by pat_completeness auto

text \<open>The set of positions a seen list marks, and what a call can change.\<close>

definition marks :: "bool list \<Rightarrow> nat set" where
  "marks seen = {j. j < length seen \<and> seen ! j}"

lemma marks_update: "i < length seen \<Longrightarrow> marks (seen[i := True]) = insert i (marks seen)"
  by (auto simp: marks_def nth_list_update)

lemma augment_hop_grows:
  assumes "augment_hop_dom (c, w, i, seen, owner)"
    and "augment_hop c w i seen owner = (ok, seen', owner')"
  shows "length seen' = length seen \<and> marks seen \<subseteq> marks seen'"
  using assms
proof (induction c w i seen owner arbitrary: ok seen' owner' rule: augment_hop.pinduct)
  case (1 c w i seen owner)
  note unfold = "1.prems"(1) [unfolded augment_hop.psimps [OF "1.hyps"]]
  show ?case
  proof (cases "length seen \<le> i \<or> seen ! i \<or> \<not> c w i")
    case True
    then show ?thesis
      using unfold "1.IH"(1) by (auto split: if_splits)
  next
    case False
    then have i: "\<not> length seen \<le> i" "\<not> (seen ! i \<or> \<not> c w i)" by auto
    have mark: "marks seen \<subseteq> marks (seen[i := True])"
      using i by (auto simp: marks_update)
    show ?thesis
    proof (cases "owner ! i")
      case None
      then show ?thesis using unfold i mark by auto
    next
      case (Some w')
      obtain ok1 seen1 owner1 where r: "augment_hop c w' 0 (seen[i := True]) owner = (ok1, seen1, owner1)"
        by (cases "augment_hop c w' 0 (seen[i := True]) owner") auto
      have s1: "length seen1 = length seen \<and> marks (seen[i := True]) \<subseteq> marks seen1"
        using "1.IH"(2) [OF i Some r] by simp
      show ?thesis
      proof (cases ok1)
        case True
        then show ?thesis using unfold i Some r s1 mark by auto
      next
        case False
        then have "augment_hop c w (Suc i) seen1 owner1 = (ok, seen', owner')"
          using unfold i Some r by simp
        then have "length seen' = length seen \<and> marks seen1 \<subseteq> marks seen'"
          using "1.IH"(3) [OF i Some r [symmetric] refl False] s1 by simp
        then show ?thesis using s1 mark by blast
      qed
    qed
  qed
qed

lemma marks_card:
  "card (marks seen) \<le> length seen"
  "i < length seen \<Longrightarrow> \<not> seen ! i \<Longrightarrow> length seen - card (marks (seen[i := True])) < length seen - card (marks seen)"
proof -
  have "marks zs \<subseteq> {..<length zs}" for zs by (auto simp: marks_def)
  then have fin: "finite (marks zs)" and le: "card (marks zs) \<le> length zs" for zs
    using finite_subset card_mono [of "{..<length zs}"] by (blast, fastforce)
  show "card (marks seen) \<le> length seen" by (rule le)
  assume i: "i < length seen" "\<not> seen ! i"
  then have "card (marks (seen[i := True])) = Suc (card (marks seen))"
    using fin by (simp add: marks_update) (simp add: marks_def)
  then show "length seen - card (marks (seen[i := True])) < length seen - card (marks seen)"
    using le [of "seen[i := True]"] by simp
qed

lemma marks_card_mono: "length s = length t \<Longrightarrow> marks s \<subseteq> marks t \<Longrightarrow> length t - card (marks t) \<le> length s - card (marks s)"
  by (metis card_mono diff_le_mono2 finite_Collect_conjI finite_Collect_less_nat marks_def)

lemma augment_hop_shrinks:
  assumes "(ok, s, b) = augment_hop c w 0 (seen[i := True]) owner"
    and "augment_hop_dom (c, w, 0, seen[i := True], owner)"
    and "\<not> length seen \<le> i" "\<not> seen ! i"
  shows "length s - card (marks s) < length seen - card (marks seen)"
proof -
  have "length s = length (seen[i := True]) \<and> marks (seen[i := True]) \<subseteq> marks s"
    by (rule augment_hop_grows [OF assms(2) assms(1) [symmetric]])
  then have "length s - card (marks s) \<le> length seen - card (marks (seen[i := True]))"
    using marks_card_mono [of "seen[i := True]" s] by simp
  then show ?thesis
    using marks_card(2) [of i seen] assms(3,4) by simp
qed

lemma augment_hop_all_dom: "All augment_hop_dom"
  by (relation "measures [\<lambda>(c, w, i, seen, owner). length seen - card (marks seen),
        \<lambda>(c, w, i, seen, owner). length seen - i]")
    (auto simp: marks_card dest: augment_hop_shrinks)

termination augment_hop
  by (rule augment_hop_all_dom)

declare augment_hop.simps [simp del]

text \<open>The loop of \<^verbatim>\<open>matchHops\<close> over the wanted hops, with fresh \<open>seen\<close> marks each time.\<close>

definition hop_compatible :: "next_hop \<Rightarrow> next_hop \<Rightarrow> bool" where
  "hop_compatible a b \<longleftrightarrow>
     nh_addr a = nh_addr b \<and> (nh_iface a = [] \<or> nh_iface b = [] \<or> nh_iface a = nh_iface b)"

fun match_loop :: "(nat \<Rightarrow> nat \<Rightarrow> bool) \<Rightarrow> nat \<Rightarrow> nat list \<Rightarrow> nat option list \<Rightarrow> bool" where
  "match_loop c n [] owner = True"
| "match_loop c n (w # ws) owner =
     (case augment_hop c w 0 (replicate n False) owner of
        (ok, _, owner') \<Rightarrow> if ok then match_loop c n ws owner' else False)"

definition match_hops :: "next_hop list \<Rightarrow> next_hop list \<Rightarrow> bool" where
  "match_hops want have_hops =
     match_loop (\<lambda>w i. hop_compatible (want ! w) (have_hops ! i)) (length have_hops)
       [0..<length want] (replicate (length have_hops) None)"

definition same_hops :: "next_hop list \<Rightarrow> next_hop list \<Rightarrow> bool" where
  "same_hops a b = (if length a \<noteq> length b then False else match_hops a b)"

section \<open>What a call does to the matching\<close>

lemma augment_hop_marks:
  "augment_hop c w i seen owner = (ok, seen', owner') \<Longrightarrow>
     length seen' = length seen \<and> marks seen \<subseteq> marks seen'"
  using augment_hop_grows augment_hop_all_dom by blast

text \<open>
  The owner slice as a map from positions to wanted indices. The positions a call may still
  use are the unmarked ones: on success they hold one more wanted index, each still at most
  once and at a compatible position, and the marked positions are left alone.
\<close>

definition own :: "nat option list \<Rightarrow> nat \<rightharpoonup> nat" where
  "own owner i = (if i < length owner then owner ! i else None)"

lemma own_update: "i < length owner \<Longrightarrow> own (owner[i := x]) = (own owner)(i := x)"
  by (auto simp: own_def fun_eq_iff)

definition held :: "(nat \<rightharpoonup> nat) \<Rightarrow> nat set \<Rightarrow> nat set" where
  "held m ps = {w. \<exists>i\<in>ps. m i = Some w}"

definition matching_on :: "(nat \<Rightarrow> nat \<Rightarrow> bool) \<Rightarrow> nat set \<Rightarrow> (nat \<rightharpoonup> nat) \<Rightarrow> bool" where
  "matching_on c ps m \<longleftrightarrow>
     (\<forall>i\<in>ps. \<forall>w. m i = Some w \<longrightarrow> c w i)
     \<and> (\<forall>i\<in>ps. \<forall>j\<in>ps. \<forall>w. m i = Some w \<longrightarrow> m j = Some w \<longrightarrow> i = j)"

definition free_of :: "bool list \<Rightarrow> nat set" where
  "free_of seen = {..<length seen} - marks seen"

definition grown :: "(nat \<Rightarrow> nat \<Rightarrow> bool) \<Rightarrow> nat \<Rightarrow> nat set \<Rightarrow> (nat \<rightharpoonup> nat) \<Rightarrow> (nat \<rightharpoonup> nat) \<Rightarrow> bool" where
  "grown c w ps m m' \<longleftrightarrow>
     (\<forall>i. i \<notin> ps \<longrightarrow> m' i = m i) \<and> matching_on c ps m' \<and> held m' ps = insert w (held m ps)"

lemma free_of_update: "i < length seen \<Longrightarrow> free_of (seen[i := True]) = free_of seen - {i}"
  by (auto simp: free_of_def marks_update)

lemma matching_on_mono: "matching_on c ps m \<Longrightarrow> qs \<subseteq> ps \<Longrightarrow> matching_on c qs m"
  unfolding matching_on_def by blast

lemma held_update: "i \<in> ps \<Longrightarrow> held (m(i \<mapsto> w)) ps = insert w (held m (ps - {i}))"
  by (auto simp: held_def split: if_splits)

lemma matching_on_update:
  "matching_on c (ps - {i}) m \<Longrightarrow> w \<notin> held m (ps - {i}) \<Longrightarrow> c w i \<Longrightarrow> matching_on c ps (m(i \<mapsto> w))"
  unfolding matching_on_def held_def by (auto split: if_splits)

lemma held_split: "i \<in> ps \<Longrightarrow> m i = Some w \<Longrightarrow> held m ps = insert w (held m (ps - {i}))"
  unfolding held_def by auto

lemma held_split_None: "m i = None \<Longrightarrow> held m ps = held m (ps - {i})"
  unfolding held_def by auto

lemma held_mono: "qs \<subseteq> ps \<Longrightarrow> held m qs \<subseteq> held m ps"
  unfolding held_def by auto

text \<open>A free compatible position takes the index; an owner that moved away leaves its place.\<close>

lemma grown_free:
  assumes m: "matching_on c ps m" and w: "w \<notin> held m ps" and i: "i \<in> ps" "m i = None" "c w i"
  shows "grown c w ps m (m(i \<mapsto> w))"
proof -
  have "w \<notin> held m (ps - {i})"
    using w held_mono [of "ps - {i}" ps m] by blast
  then show ?thesis
    using matching_on_update [of c ps i m w] matching_on_mono [OF m] held_update [of i ps m w]
      held_split_None [of m i ps] i
    by (auto simp: grown_def)
qed

lemma grown_replace:
  assumes m: "matching_on c ps m" and w: "w \<notin> held m ps" and i: "i \<in> ps" "m i = Some w'" "c w i"
    and g: "grown c w' (ps - {i}) m m'"
  shows "grown c w ps m (m'(i \<mapsto> w))"
proof -
  have h: "held m' (ps - {i}) = held m ps"
    using g held_split [of i ps m w'] i by (auto simp: grown_def)
  then have "matching_on c ps (m'(i \<mapsto> w))"
    using g w i by (intro matching_on_update) (auto simp: grown_def)
  then show ?thesis
    using g h held_update [of i ps m' w] i by (auto simp: grown_def)
qed

lemma grown_subset:
  assumes m: "matching_on c ps m" and w: "w \<notin> held m ps" and sub: "qs \<subseteq> ps"
    and g: "grown c w qs m m'"
  shows "grown c w ps m m'"
proof -
  have out: "\<And>j. j \<notin> qs \<Longrightarrow> m' j = m j"
    and m': "matching_on c qs m'" and h: "held m' qs = insert w (held m qs)"
    using g by (auto simp: grown_def)
  have inq: "i \<in> qs" if "i \<in> qs" "m' i = Some u" "j \<in> ps" "m' j = Some u" for i j u
    using that by blast
  have both: "j \<in> qs" if "i \<in> qs" "m' i = Some u" "j \<in> ps" "m' j = Some u" for i j u
  proof (rule ccontr)
    assume j: "j \<notin> qs"
    have "u \<in> held m' qs" using that by (auto simp: held_def)
    then consider "u = w" | "u \<in> held m qs" using h by blast
    moreover have mj: "m j = Some u" using out [OF j] that by simp
    ultimately show False
    proof cases
      case 1
      then show False using w mj that(3) by (auto simp: held_def)
    next
      case 2
      then obtain k where "k \<in> qs" "m k = Some u" by (auto simp: held_def)
      then show False using m mj that(3) sub j unfolding matching_on_def by blast
    qed
  qed
  have "matching_on c ps m'"
    unfolding matching_on_def
  proof (intro conjI ballI allI impI)
    fix i u
    assume "i \<in> ps" "m' i = Some u"
    then show "c u i"
      using m m' out [of i] by (cases "i \<in> qs") (auto simp: matching_on_def)
  next
    fix i j u
    assume ij: "i \<in> ps" "j \<in> ps" "m' i = Some u" "m' j = Some u"
    show "i = j"
    proof (cases "i \<in> qs")
      case True
      then show ?thesis
        using both [OF True ij(3,2,4)] m' ij(3,4) unfolding matching_on_def by blast
    next
      case False
      then have "j \<notin> qs" using both [OF _ ij(4,1,3)] by blast
      then show ?thesis
        using m ij out [OF False] out [of j] unfolding matching_on_def by auto
    qed
  qed
  moreover have "held m' ps = insert w (held m ps)"
  proof -
    have "held o' ps = held o' qs \<union> held o' (ps - qs)" for o'
      using sub by (auto simp: held_def)
    moreover have "held m' (ps - qs) = held m (ps - qs)"
      using out by (auto simp: held_def)
    ultimately show ?thesis using h by blast
  qed
  ultimately show ?thesis
    using out sub by (auto simp: grown_def)
qed

text \<open>A call that fails leaves the owners as they were.\<close>

lemma augment_hop_fail_owner: "augment_hop c w i seen owner = (False, seen', owner') \<Longrightarrow> owner' = owner"
proof (induction c w i seen owner arbitrary: seen' owner' rule: augment_hop.induct)
  case (1 c w i seen owner)
  note eq = "1.prems" [unfolded augment_hop.simps [of c w i seen owner]]
  show ?case
  proof (cases "length seen \<le> i \<or> seen ! i \<or> \<not> c w i")
    case True
    then show ?thesis using eq "1.IH"(1) by (auto split: if_splits)
  next
    case False
    then have i: "\<not> length seen \<le> i" "\<not> (seen ! i \<or> \<not> c w i)" by auto
    then obtain w' where own: "owner ! i = Some w'"
      using eq by (cases "owner ! i") auto
    obtain ok1 seen1 owner1 where r: "augment_hop c w' 0 (seen[i := True]) owner = (ok1, seen1, owner1)"
      by (cases "augment_hop c w' 0 (seen[i := True]) owner") auto
    with eq i own have "\<not> ok1" and r': "augment_hop c w (Suc i) seen1 owner1 = (False, seen', owner')"
      by (auto split: if_splits)
    then have "owner1 = owner" using "1.IH"(2) [OF i own] r by simp
    then show ?thesis
      using "1.IH"(3) [OF i own r [symmetric] refl \<open>\<not> ok1\<close> r'] by simp
  qed
qed

lemma augment_hop_success:
  assumes "augment_hop c w i seen owner = (True, seen', owner')"
    and "length owner = length seen"
    and "matching_on c (free_of seen) (own owner)" "w \<notin> held (own owner) (free_of seen)"
  shows "length owner' = length owner \<and> grown c w (free_of seen) (own owner) (own owner')"
  using assms
proof (induction c w i seen owner arbitrary: seen' owner' rule: augment_hop.induct)
  case (1 c w i seen owner)
  note eq = "1.prems"(1) [unfolded augment_hop.simps [of c w i seen owner]]
  show ?case
  proof (cases "length seen \<le> i \<or> seen ! i \<or> \<not> c w i")
    case True
    then show ?thesis using eq "1.IH"(1) "1.prems" by (auto split: if_splits)
  next
    case False
    then have i: "\<not> length seen \<le> i" "\<not> (seen ! i \<or> \<not> c w i)" by auto
    then have free: "i \<in> free_of seen" and len: "i < length owner"
      using "1.prems"(2) by (auto simp: free_of_def marks_def)
    show ?thesis
    proof (cases "owner ! i")
      case None
      then have o: "own owner i = None" "owner' = owner[i := Some w]"
        using eq i by (auto simp: own_def)
      have "grown c w (free_of seen) (own owner) ((own owner)(i \<mapsto> w))"
        using i by (intro grown_free "1.prems" free o) simp
      then show ?thesis
        unfolding o(2) own_update [OF len] by (simp only: length_list_update simp_thms)
    next
      case (Some w')
      obtain ok1 seen1 owner1 where r: "augment_hop c w' 0 (seen[i := True]) owner = (ok1, seen1, owner1)"
        by (cases "augment_hop c w' 0 (seen[i := True]) owner") auto
      have oi: "own owner i = Some w'" using Some len by (simp add: own_def)
      have fr: "free_of (seen[i := True]) = free_of seen - {i}"
        using i by (simp add: free_of_update)
      have m1: "matching_on c (free_of seen - {i}) (own owner)"
        by (rule matching_on_mono [OF "1.prems"(3)]) blast
      have w1: "w' \<notin> held (own owner) (free_of seen - {i})"
        using "1.prems"(3) oi free unfolding matching_on_def held_def by blast
      show ?thesis
      proof (cases ok1)
        case True
        then have o': "owner' = owner1[i := Some w]"
          using eq i Some r by auto
        have g: "length owner1 = length owner"
            "grown c w' (free_of seen - {i}) (own owner) (own owner1)"
          using "1.IH"(2) [OF i Some] r True "1.prems"(2) m1 w1 fr by simp_all
        have "c w i" using i by simp
        from grown_replace [OF "1.prems"(3,4) free oi this g(2)] show ?thesis
          unfolding o' using own_update [of i owner1] g(1) len
          by (simp only: length_list_update simp_thms)
      next
        case False
        have o1: "owner1 = owner"
          using augment_hop_fail_owner [of c w' 0 "seen[i := True]" owner seen1 owner1] r False by simp
        have s1: "length seen1 = length seen" "free_of seen1 \<subseteq> free_of seen"
          using augment_hop_marks [OF r] i by (auto simp: free_of_def marks_update)
        have "augment_hop c w (Suc i) seen1 owner1 = (True, seen', owner')"
          using eq i Some r False by simp
        then have "length owner' = length owner \<and> grown c w (free_of seen1) (own owner) (own owner')"
          using "1.IH"(3) [OF i Some r [symmetric] refl False] o1 s1 "1.prems"(2,4)
            matching_on_mono [OF "1.prems"(3) s1(2)] held_mono [OF s1(2), of "own owner"] by auto
        then show ?thesis
          using grown_subset [OF "1.prems"(3,4) s1(2)] by blast
      qed
    qed
  qed
qed

text \<open>
  A call that fails leaves a certificate: every position it marked is owned, every
  compatible position of each such owner is marked, and so is every compatible position of
  the index it was called for. Positions before \<open>i\<close> are the caller's business.
\<close>

lemma augment_hop_failure:
  assumes "augment_hop c w i seen owner = (False, seen', owner')"
    and "length owner = length seen"
  shows "(\<forall>j \<in> marks seen' - marks seen. \<exists>u. owner ! j = Some u
           \<and> (\<forall>k < length seen. c u k \<longrightarrow> k \<in> marks seen'))
         \<and> (\<forall>k < length seen. i \<le> k \<longrightarrow> c w k \<longrightarrow> k \<in> marks seen')"
  using assms
proof (induction c w i seen owner arbitrary: seen' owner' rule: augment_hop.induct)
  case (1 c w i seen owner)
  note eq = "1.prems"(1) [unfolded augment_hop.simps [of c w i seen owner]]
  have mono: "marks seen \<subseteq> marks seen'"
    using augment_hop_marks [OF "1.prems"(1)] by blast
  show ?case
  proof (cases "length seen \<le> i \<or> seen ! i \<or> \<not> c w i")
    case True
    show ?thesis
    proof (cases "length seen \<le> i")
      case True
      then show ?thesis using eq by auto
    next
      case False
      then have next_call: "augment_hop c w (Suc i) seen owner = (False, seen', owner')"
        using eq True by auto
      have "seen ! i \<Longrightarrow> i \<in> marks seen"
        using False by (simp add: marks_def)
      then have "seen ! i \<Longrightarrow> i \<in> marks seen'"
        using mono by blast
      then show ?thesis
        using "1.IH"(1) [OF False _ next_call "1.prems"(2)] True False
        by (metis not_less_eq_eq le_antisym)
    qed
  next
    case False
    then have i: "\<not> length seen \<le> i" "\<not> (seen ! i \<or> \<not> c w i)" by auto
    then obtain w' where own: "owner ! i = Some w'"
      using eq by (cases "owner ! i") auto
    obtain ok1 seen1 owner1 where r: "augment_hop c w' 0 (seen[i := True]) owner = (ok1, seen1, owner1)"
      by (cases "augment_hop c w' 0 (seen[i := True]) owner") auto
    with eq i own have nok: "\<not> ok1" and r': "augment_hop c w (Suc i) seen1 owner1 = (False, seen', owner')"
      by (auto split: if_splits)
    have o1: "owner1 = owner"
      using augment_hop_fail_owner [of c w' 0 "seen[i := True]" owner seen1 owner1] r nok by simp
    have l1: "length seen1 = length seen" and i1: "insert i (marks seen) \<subseteq> marks seen1"
      using augment_hop_marks [OF r] i by (auto simp: marks_update)
    have m1: "marks seen1 \<subseteq> marks seen'"
      using augment_hop_marks [OF r'] by blast
    have first: "(\<forall>j \<in> marks seen1 - insert i (marks seen). \<exists>u. owner ! j = Some u
           \<and> (\<forall>k < length seen. c u k \<longrightarrow> k \<in> marks seen1))
         \<and> (\<forall>k < length seen. c w' k \<longrightarrow> k \<in> marks seen1)"
      using "1.IH"(2) [OF i own, of seen1 owner1] r nok "1.prems"(2) i by (simp add: marks_update)
    have second: "(\<forall>j \<in> marks seen' - marks seen1. \<exists>u. owner ! j = Some u
           \<and> (\<forall>k < length seen. c u k \<longrightarrow> k \<in> marks seen'))
         \<and> (\<forall>k < length seen. Suc i \<le> k \<longrightarrow> c w k \<longrightarrow> k \<in> marks seen')"
      using "1.IH"(3) [OF i own r [symmetric] refl nok r'] o1 l1 "1.prems"(2) by simp
    show ?thesis
    proof (intro conjI ballI allI impI)
      fix j
      assume j: "j \<in> marks seen' - marks seen"
      consider "j = i" | "j \<in> marks seen1 - insert i (marks seen)" | "j \<in> marks seen' - marks seen1"
        using j by blast
      then show "\<exists>u. owner ! j = Some u \<and> (\<forall>k < length seen. c u k \<longrightarrow> k \<in> marks seen')"
      proof cases
        case 1
        then show ?thesis using own conjunct2 [OF first] m1 by auto
      next
        case 2
        then show ?thesis using bspec [OF conjunct1 [OF first] 2] m1 by auto
      next
        case 3
        then show ?thesis using bspec [OF conjunct1 [OF second] 3] by auto
      qed
    next
      fix k
      assume k: "k < length seen" "i \<le> k" "c w k"
      then show "k \<in> marks seen'"
        using second i1 m1 by (cases "k = i") auto
    qed
  qed
qed

section \<open>The search finds a matching exactly when there is one\<close>

definition pairing :: "(nat \<Rightarrow> nat \<Rightarrow> bool) \<Rightarrow> nat \<Rightarrow> nat \<Rightarrow> (nat \<Rightarrow> nat) \<Rightarrow> bool" where
  "pairing c a b f \<longleftrightarrow> inj_on f {..<a} \<and> (\<forall>w<a. f w < b \<and> c w (f w))"

lemma marks_replicate [simp]: "marks (replicate n False) = {}" "free_of (replicate n False) = {..<n}"
  by (auto simp: marks_def free_of_def)

text \<open>The certificate of a failed call is a violated marriage condition.\<close>

lemma augment_hop_no_pairing:
  assumes fail: "augment_hop c w 0 (replicate n False) owner = (False, seen', owner')"
    and len: "length owner = n" and m: "matching_on c {..<n} (own owner)"
    and w: "w \<notin> held (own owner) {..<n}" "w < a" and h: "held (own owner) {..<n} \<subseteq> {..<a}"
  shows "\<not> pairing c a n f"
proof
  assume f: "pairing c a n f"
  let ?S = "marks seen'"
  have S: "?S \<subseteq> {..<n}"
    using augment_hop_marks [OF fail] by (auto simp: marks_def)
  then have fin: "finite ?S" by (rule finite_subset) simp
  have cert: "\<exists>u. own owner j = Some u \<and> (\<forall>k<n. c u k \<longrightarrow> k \<in> ?S)" if "j \<in> ?S" for j
    using augment_hop_failure [OF fail] len that S by (auto simp: own_def)
  have cw: "\<forall>k<n. c w k \<longrightarrow> k \<in> ?S"
    using augment_hop_failure [OF fail] len by simp
  define W where "W = held (own owner) ?S"
  have "inj_on (\<lambda>j. the (own owner j)) ?S"
    using m S cert unfolding inj_on_def matching_on_def by (metis option.sel subsetD)
  moreover have "W = (\<lambda>j. the (own owner j)) ` ?S"
    using cert by (force simp: W_def held_def)
  ultimately have card: "card W = card ?S"
    by (simp add: card_image)
  have wW: "w \<notin> W"
    using w(1) held_mono [OF S, of "own owner"] by (auto simp: W_def)
  have sub: "insert w W \<subseteq> {..<a}"
    using w(2) h held_mono [OF S, of "own owner"] by (auto simp: W_def)
  have "f ` insert w W \<subseteq> ?S"
  proof
    fix k
    assume "k \<in> f ` insert w W"
    then obtain u where u: "u \<in> insert w W" "k = f u" by blast
    then have "k < n" "c u k"
      using f sub by (auto simp: pairing_def)
    then show "k \<in> ?S"
    proof (cases "u = w")
      case False
      then obtain j where j: "j \<in> ?S" "own owner j = Some u"
        using u by (auto simp: W_def held_def)
      then show ?thesis using cert [OF j(1)] \<open>k < n\<close> \<open>c u k\<close> by auto
    qed (use cw in auto)
  qed
  moreover have "inj_on f (insert w W)"
    using f sub inj_on_subset unfolding pairing_def by blast
  ultimately have "card (insert w W) \<le> card ?S"
    using card_inj_on_le fin by blast
  moreover have "card (insert w W) = Suc (card ?S)"
    using wW card finite_subset [OF sub] by (metis card_insert_disjoint finite_insert finite_lessThan)
  ultimately show False by simp
qed

lemma match_loop_iff:
  assumes "length owner = n" "matching_on c {..<n} (own owner)"
    and "held (own owner) {..<n} = {..<k}" "k \<le> a"
  shows "match_loop c n [k..<a] owner \<longleftrightarrow> (\<exists>f. pairing c a n f)"
  using assms
proof (induction "a - k" arbitrary: k owner)
  case 0
  then have "k = a" by simp
  have "\<exists>i<n. own owner i = Some w" if "w < a" for w
  proof -
    have "w \<in> held (own owner) {..<n}"
      using 0 that \<open>k = a\<close> by simp
    then show ?thesis by (auto simp: held_def)
  qed
  then obtain f where f: "\<And>w. w < a \<Longrightarrow> f w < n \<and> own owner (f w) = Some w"
    by metis
  then have "pairing c a n f"
    using 0 unfolding pairing_def inj_on_def matching_on_def by (metis lessThan_iff option.inject)
  then show ?case using \<open>k = a\<close> by auto
next
  case (Suc d)
  then have k: "k < a" "[k..<a] = k # [Suc k..<a]"
    by (auto simp: upt_conv_Cons)
  obtain ok seen' owner' where r: "augment_hop c k 0 (replicate n False) owner = (ok, seen', owner')"
    by (cases "augment_hop c k 0 (replicate n False) owner") auto
  show ?case
  proof (cases ok)
    case True
    then have "length owner' = n \<and> grown c k {..<n} (own owner) (own owner')"
      using augment_hop_success [of c k 0 "replicate n False" owner seen' owner'] r Suc.prems by simp
    then have "match_loop c n [Suc k..<a] owner' \<longleftrightarrow> (\<exists>f. pairing c a n f)"
      using Suc.hyps(2) Suc.prems k by (intro Suc.hyps(1)) (auto simp: grown_def lessThan_Suc)
    then show ?thesis using r True k by simp
  next
    case False
    then have "\<not> pairing c a n f" for f
      using augment_hop_no_pairing [of c k n owner seen' owner' a f] r Suc.prems k by auto
    then show ?thesis using r False k by simp
  qed
qed

lemma match_hops_iff:
  "match_hops want have_hops \<longleftrightarrow>
     (\<exists>f. pairing (\<lambda>w i. hop_compatible (want ! w) (have_hops ! i)) (length want) (length have_hops) f)"
  unfolding match_hops_def
  by (rule match_loop_iff) (auto simp: matching_on_def held_def own_def)

lemma same_hops_iff:
  "same_hops a b \<longleftrightarrow>
     length a = length b
     \<and> (\<exists>f. bij_betw f {..<length a} {..<length b} \<and> (\<forall>i<length a. hop_compatible (a ! i) (b ! f i)))"
proof (cases "length a = length b")
  case True
  have "pairing c n n f \<longleftrightarrow> bij_betw f {..<n} {..<n} \<and> (\<forall>i<n. c i (f i))" for c n f
  proof
    assume p: "pairing c n n f"
    then have "f ` {..<n} \<subseteq> {..<n}" "inj_on f {..<n}"
      by (auto simp: pairing_def)
    then show "bij_betw f {..<n} {..<n} \<and> (\<forall>i<n. c i (f i))"
      using p by (simp add: bij_betw_def endo_inj_surj pairing_def)
  next
    assume "bij_betw f {..<n} {..<n} \<and> (\<forall>i<n. c i (f i))"
    then show "pairing c n n f"
      by (auto simp: pairing_def bij_betw_def)
  qed
  then show ?thesis
    using True by (simp add: same_hops_def match_hops_iff)
qed (simp add: same_hops_def)

text \<open>
  C20. The augmenting-path search decides the question it is for: two next-hop lists name the
  same forwarding exactly when they have the same length and some bijection between their
  positions pairs every hop with a compatible one. A search that gives up therefore proves
  that no pairing exists, so a wide set of equal-cost alternatives never reads as a
  disagreement when some pairing exists, nor as an agreement when none does.
\<close>

theorem same_hops_bijection:
  "same_hops a b \<longleftrightarrow>
     length a = length b
     \<and> (\<exists>f. bij_betw f {..<length a} {..<length b} \<and> (\<forall>i<length a. hop_compatible (a ! i) (b ! f i)))"
  by (rule same_hops_iff)

definition sample_open_hops :: "next_hop list" where
  "sample_open_hops = [\<lparr>nh_addr = Addr4 1, nh_iface = []\<rparr>, \<lparr>nh_addr = Addr4 1, nh_iface = ''e0''\<rparr>]"

definition sample_named_hops :: "next_hop list" where
  "sample_named_hops = [\<lparr>nh_addr = Addr4 1, nh_iface = ''e0''\<rparr>, \<lparr>nh_addr = Addr4 1, nh_iface = ''e1''\<rparr>]"

theorem same_hops_bijection_witness:
  "\<exists>f. bij_betw f {..<length sample_open_hops} {..<length sample_named_hops}
     \<and> (\<forall>i<length sample_open_hops. hop_compatible (sample_open_hops ! i) (sample_named_hops ! f i))"
proof -
  have "same_hops sample_open_hops sample_named_hops" by code_simp
  then show ?thesis unfolding same_hops_bijection by (rule conjunct2)
qed

section \<open>Agreement of forwarding as an interface\<close>

text \<open>
  What the walks rely on when they compare next-hop lists: agreement is reflexive and
  symmetric and never hides a difference in the number of alternatives. It is not
  transitive, because an omitted interface agrees with every interface.
\<close>

locale hop_agreement =
  fixes same :: "next_hop list \<Rightarrow> next_hop list \<Rightarrow> bool"
  assumes same_refl: "same xs xs"
    and same_sym: "same xs ys \<Longrightarrow> same ys xs"
    and same_width: "same xs ys \<Longrightarrow> length xs = length ys"
begin

lemma same_commute: "same xs ys = same ys xs"
  using same_sym by blast

lemma width_differs: "length xs \<noteq> length ys \<Longrightarrow> \<not> same xs ys"
  using same_width by blast

lemma same_Nil: "same [] ys \<longleftrightarrow> ys = []"
  using same_refl same_width [of "[]" ys] by auto

end

lemma hop_compatible_refl [simp]: "hop_compatible h h"
  by (simp add: hop_compatible_def)

lemma hop_compatible_sym: "hop_compatible a b = hop_compatible b a"
  by (auto simp: hop_compatible_def)

interpretation hops: hop_agreement same_hops
proof
  fix xs ys :: "next_hop list"
  have "bij_betw id {..<length xs} {..<length xs} \<and> (\<forall>i<length xs. hop_compatible (xs ! i) (xs ! id i))"
    by (simp add: bij_betw_def)
  then show "same_hops xs xs"
    unfolding same_hops_iff by blast
  show "same_hops xs ys \<Longrightarrow> length xs = length ys"
    by (simp add: same_hops_def split: if_splits)
  assume "same_hops xs ys"
  then obtain f where f: "bij_betw f {..<length xs} {..<length ys}"
    and c: "\<forall>i<length xs. hop_compatible (xs ! i) (ys ! f i)" and len: "length xs = length ys"
    unfolding same_hops_iff by blast
  let ?g = "the_inv_into {..<length xs} f"
  have "bij_betw ?g {..<length ys} {..<length xs}"
    using f by (rule bij_betw_the_inv_into)
  moreover have "hop_compatible (ys ! j) (xs ! ?g j)" if "j < length ys" for j
  proof -
    have "?g j < length xs" "f (?g j) = j"
      using calculation that f by (auto simp: bij_betw_def f_the_inv_into_f)
    then show ?thesis
      using c hop_compatible_sym by metis
  qed
  ultimately show "same_hops ys xs"
    unfolding same_hops_iff using len by auto
qed

text \<open>A pairing covers each list by the other: agreement is stronger than \<open>covers_hops\<close>.\<close>

lemma same_hops_covers:
  assumes "same_hops a b"
  shows "covers_hops b a"
proof -
  obtain f where "bij_betw f {..<length a} {..<length b}" and c: "\<forall>i<length a. hop_compatible (a ! i) (b ! f i)"
    using assms unfolding same_hops_iff by blast
  then have "\<forall>i<length a. f i < length b"
    by (auto simp: bij_betw_def)
  with c show ?thesis
    unfolding covers_hops_def hop_compatible_def by (metis in_set_conv_nth nth_mem)
qed

text \<open>
  Two lists that name the same forwarding cover each other in the sense of the model's
  lookup, so rows that agree hop by hop never count as conflicting there.
\<close>

theorem same_hops_cover_each_other: "same_hops a b \<Longrightarrow> cover_each_other a b"
  using same_hops_covers [of a b] same_hops_covers [of b a] hops.same_sym [of a b]
  by (simp add: cover_each_other_def)

theorem same_hops_cover_each_other_witness:
  "cover_each_other
     [\<lparr>nh_addr = Addr4 1, nh_iface = []\<rparr>, \<lparr>nh_addr = Addr4 1, nh_iface = ''e0''\<rparr>]
     [\<lparr>nh_addr = Addr4 1, nh_iface = ''e0''\<rparr>, \<lparr>nh_addr = Addr4 1, nh_iface = ''e1''\<rparr>]"
  by (rule same_hops_cover_each_other) code_simp

end
