(* ===== verification/Routepath.thy ===== *)
theory Routepath
  imports Hop_Match
begin

text \<open>
  The data of \<^verbatim>\<open>internal/routepath\<close>: the decoded file, decisions, segments and walk
  trees of \<^verbatim>\<open>routepath.go\<close>, the failure of \<^verbatim>\<open>failure.go\<close>, and the walker of
  \<^verbatim>\<open>walk.go\<close> with what it reads out of the observations. The text of an address, a
  prefix or a parsed next hop is the value it is the text of (the zero address or no prefix
  for an empty text), a reason is a constructor with the values its text prints, and the
  place of a walk (\<^verbatim>\<open>state\<close>) and of a source (\<^verbatim>\<open>Start\<close>) are one record.
\<close>

section \<open>Places, segments and decisions\<close>

record state =
  s_node :: string
  s_vrf :: string

abbreviation at :: "string \<Rightarrow> string \<Rightarrow> state" where
  "at node vrf \<equiv> \<lparr>s_node = node, s_vrf = vrf\<rparr>"

datatype kind =
    KindForward | KindLocal | KindDiscard | KindNoRoute | KindUnknown | KindConflicting
  | KindLoop | KindTruncated | KindUnresolved | KindAmbiguous | KindOnLink | KindFailed

datatype outcome =
  OutcomeNone | OutcomePass | OutcomeFail | OutcomeConflicting | OutcomeUnattributed

datatype agreement = AgreementUnset | AgreementAgrees | AgreementDisagrees | AgreementUnknown

datatype finding_kind =
    FindingControlNotInFIB | FindingFIBDiffers | FindingForwardingFailed | FindingConflict | FindingLoop

datatype check_result = CheckPass | CheckFail

record support =
  sup_source :: string
  sup_at :: string
  sup_origin :: string
  sup_absent :: bool

record segment =
  seg_from :: string
  seg_vrf :: string
  seg_iface :: string
  seg_hop :: addr
  seg_outcome :: outcome
  seg_checks :: "support list"

text \<open>An interface of one node in one routing domain, \<^verbatim>\<open>endpoint\<close> of \<^verbatim>\<open>asymmetry.go\<close>.\<close>

record endpoint =
  e_node :: string
  e_vrf :: string
  e_iface :: string

text \<open>
  A failure names one element. Its next hop is user text, kept as what
  \<^verbatim>\<open>netip.ParseAddr\<close> reads in it.
\<close>

datatype hop_text = NoHop | NotAddr string | HopAddr addr

record policy_selector =
  pol_node :: string
  pol_vrf :: string
  pol_direction :: string
  pol_peer :: string
  pol_name :: string

record failure =
  f_node :: string
  f_iface :: string
  f_vrf :: string
  f_ospf :: string
  f_hop :: hop_text
  f_policy :: "policy_selector option"

section \<open>Reasons\<close>

datatype claim = ClaimedBy string | NoClaim

text \<open>Why the ends of a segment's link are not named, \<^verbatim>\<open>segmentEnds\<close>.\<close>

datatype end_reason =
    NoEgressName state
  | NoSubnet endpoint addr
  | NoSingleIface state addr
  | NoSharedSubnet endpoint addr "prefix list" endpoint "prefix list"

text \<open>Why the records do not prove the transit dependency of a link, \<^verbatim>\<open>adjacency\<close>.\<close>

datatype adj_reason =
    NoSingleAddress endpoint string
  | StateMissing endpoint
  | SeveralStates endpoint "string list"
  | StateNotFull endpoint string
  | SeveralRemotes endpoint "string list"
  | NoNetworkType endpoint
  | SeveralTypes endpoint "string list"
  | NotPointToPoint endpoint string
  | OtherNeighbors endpoint "string list"

datatype reason =
    NoReason
  | ReturnsToPath
  | BoundReached
  | PolicyUnproven string
  | LocalAddress
  | CompleteTableLacks plane addr
  | NothingKnown
  | OriginsDisagree plane prefix
  | PartialFib
  | NoHopNoDiscard
  | RowsDisagree plane prefix
  | EvidenceUnresolved
  | OnLinkThrough string
  | NoOwner addr claim
  | SeveralOwners addr "state list"
  | CrossesFailure failure
  | NamesNoIface state addr string
  | EndsUnknown end_reason string
  | NoIfaceForLostHop state addr string
  | LostHopItself addr state
  | ByBgpRoute state
  | ByOrigin state "string list"
  | LinkUnproven adj_reason
  | NotNeighborAddress addr string addr
  | NotRecordedNeighbor string string string
  | HeldDown state addr string
  | HeldSeveral state addr "string list" string
  | RidesTunnel endpoint
  | Multipoint endpoint addr state addr state
  | UnderlayNested endpoint state addr endpoint
  | UnderlayMeets endpoint state addr "segment option"
  | UnderlayLost endpoint state addr segment reason
  | UnderlayUnproven endpoint state addr
  | UnderlayBgp endpoint state addr "prefix option" state "support list"
  | MayLeaveBy state addr endpoint reason
  | IfTunnelCrossed reason reason

section \<open>Walk trees\<close>

record decision =
  d_kind :: kind
  d_basis :: "plane option"
  d_prefix :: "prefix option"
  d_proven :: bool
  d_shadowed :: "prefix list"
  d_hops :: "next_hop list"
  d_evidence :: "support list"
  d_agreement :: agreement
  d_reason :: reason

definition leaf_decision :: "kind \<Rightarrow> reason \<Rightarrow> decision" where
  "leaf_decision k why =
     \<lparr>d_kind = k, d_basis = None, d_prefix = None, d_proven = False, d_shadowed = [], d_hops = [],
      d_evidence = [], d_agreement = AgreementUnset, d_reason = why\<rparr>"

text \<open>A hop names its node and routing domain, which a stopped leaf leaves empty.\<close>

datatype hop = Hop (h_at: state) (h_via: "segment option") (h_decision: decision) (h_next: "hop list")

abbreviation nowhere :: state where
  "nowhere \<equiv> at [] []"

abbreviation h_kind :: "hop \<Rightarrow> kind" where
  "h_kind h \<equiv> d_kind (h_decision h)"

text \<open>\<^verbatim>\<open>walkHops\<close>: every hop of a tree, parents before children, in tree order.\<close>

fun walk_hops :: "hop \<Rightarrow> hop list" where
  "walk_hops (Hop s via d next) = Hop s via d next # concat (map walk_hops next)"

section \<open>The file and the walker\<close>

record check =
  c_prov :: provenance
  c_node :: string
  c_vrf :: string
  c_iface :: string
  c_dest :: addr
  c_hop :: addr
  c_result :: check_result

datatype boundary_kind = StatefulFirewall | NAT | TunnelBoundary

record boundary =
  b_prov :: provenance
  b_node :: string
  b_vrf :: string
  b_kind :: boundary_kind

record tunnel =
  t_prov :: provenance
  t_node :: string
  t_vrf :: string
  t_iface :: string
  t_remote :: addr
  t_under_vrf :: string

record topology =
  fl_source :: state
  fl_source_addr :: addr
  fl_model :: model
  fl_checks :: "check list"
  fl_boundaries :: "boundary list"
  fl_tunnels :: "tunnel list"

record adjacency =
  adj_addr :: addr
  adj_remote :: string
  adj_why :: "adj_reason option"
  adj_evidence :: "support list"

text \<open>The records prove the dependency exactly when they leave no reason why not.\<close>

definition adj_proven :: "adjacency \<Rightarrow> bool" where
  "adj_proven adj \<longleftrightarrow> adj_why adj = None"

record gateway =
  gw_owners :: "state list"
  gw_evidence :: "support list"
  gw_addr :: addr

text \<open>The part of \<^verbatim>\<open>PolicyEvaluation\<close> a walk and a simulation read.\<close>

record policy_evaluation =
  pe_selector :: policy_selector
  pe_considered :: int
  pe_unchanged :: int
  pe_unrecorded_after :: string
  pe_evidence :: "provenance list"

record owning =
  own_plane :: plane
  own_sup :: support

text \<open>
  What a walk reads. The two maps of the walker are the rows they are built from, in the
  order of the observations; \<open>owners\<close> and \<open>owned\<close> look a key up in them. The fields a walk
  writes are the \<open>trace\<close> below.
\<close>

record walker =
  w_model :: model
  w_obs :: "observation list"
  w_rows :: "(addr \<times> state \<times> owning) list"
  w_checks :: "check list"
  w_tunnels :: "tunnel list"
  w_dest :: addr
  w_fail :: "failure option"
  w_adj :: "adjacency option"
  w_gw :: "gateway option"
  w_policy :: "policy_evaluation option"
  w_underlay :: bool

definition expected_planes :: "plane list" where
  "expected_planes = [Control, Configured]"

definition forwarding_planes :: "plane list" where
  "forwarding_planes = [FIB]"

definition intended_planes :: "plane list" where
  "intended_planes = [Intended, FIB]"

definition read_planes :: "plane list" where
  "read_planes = [Control, Configured, FIB]"

definition row_support :: "provenance \<Rightarrow> support" where
  "row_support v = \<lparr>sup_source = source v, sup_at = utc_text (collected_at v), sup_origin = [], sup_absent = False\<rparr>"

definition address_rows :: "observation list \<Rightarrow> (addr \<times> state \<times> owning) list" where
  "address_rows obs =
     [(plain_addr (prefix_addr p), at (o_node ob) (o_vrf ob),
       \<lparr>own_plane = o_plane ob, own_sup = row_support (o_prov ob)\<rparr>).
      ob \<leftarrow> obs, o_plane ob \<in> set read_planes, i \<leftarrow> o_ifaces ob, p \<leftarrow> i_addrs i]"

definition new_walker :: "topology \<Rightarrow> addr \<Rightarrow> walker" where
  "new_walker f dest =
     (let obs = filter (\<lambda>ob. o_plane ob \<in> set read_planes \<or> o_plane ob = Intended) (fl_model f)
      in \<lparr>w_model = fl_model f, w_obs = obs, w_rows = address_rows obs, w_checks = fl_checks f,
          w_tunnels = fl_tunnels f, w_dest = dest, w_fail = None, w_adj = None, w_gw = None,
          w_policy = None, w_underlay = False\<rparr>)"

definition owners :: "walker \<Rightarrow> addr \<Rightarrow> state list" where
  "owners w a = foldl append_new [] [s. (k, s, _) \<leftarrow> w_rows w, k = a]"

definition owned :: "walker \<Rightarrow> addr \<Rightarrow> state \<Rightarrow> owning list" where
  "owned w a s = foldl append_new [] [row. (k, t, row) \<leftarrow> w_rows w, k = a \<and> t = s]"

definition owners_of :: "topology \<Rightarrow> addr \<Rightarrow> state list" where
  "owners_of f a = owners (new_walker f (plain_addr a)) (plain_addr a)"

definition target_of :: "walker \<Rightarrow> next_hop \<Rightarrow> addr" where
  "target_of w n = (if addr_valid (nh_addr n) then nh_addr n else w_dest w)"

section \<open>Evidence\<close>

definition compare_supports :: "support \<Rightarrow> support \<Rightarrow> int" where
  "compare_supports a b = cmp_or [three_way (sup_source a) (sup_source b), three_way (sup_at a) (sup_at b)]"

definition sort_supports :: "support list \<Rightarrow> support list" where
  "sort_supports = sort_func compare_supports"

definition key_addr :: "addr \<Rightarrow> addr" where
  "key_addr a = (if addr_valid a then plain_addr a else ZeroAddr)"

definition checks_for :: "walker \<Rightarrow> state \<Rightarrow> string \<Rightarrow> addr \<Rightarrow> check list" where
  "checks_for w s iface nh =
     filter (\<lambda>c. c_node c = s_node s \<and> c_vrf c = s_vrf s \<and> c_iface c = iface
       \<and> plain_addr (c_dest c) = w_dest w \<and> key_addr (c_hop c) = nh) (w_checks w)"

definition supports_of :: "check list \<Rightarrow> support list" where
  "supports_of cs = sort_supports (map (\<lambda>c. row_support (c_prov c)) cs)"

definition result_of :: "check list \<Rightarrow> outcome \<times> support list" where
  "result_of cs =
     (let pass = (\<exists>c\<in>set cs. c_result c = CheckPass); fail = (\<exists>c\<in>set cs. c_result c = CheckFail)
      in (if pass \<and> fail then OutcomeConflicting else if fail then OutcomeFail else OutcomePass,
          supports_of cs))"

text \<open>\<open>shared\<close> is how many next hops of the decision leave by the interface.\<close>

definition outcome_of :: "walker \<Rightarrow> state \<Rightarrow> next_hop \<Rightarrow> nat \<Rightarrow> outcome \<times> support list" where
  "outcome_of w s n shared =
     (let nh = key_addr (nh_addr n);
          named = (if nh \<noteq> ZeroAddr then checks_for w s (nh_iface n) nh else []);
          unnamed = checks_for w s (nh_iface n) ZeroAddr;
          everything = named @ unnamed
      in if 1 < shared \<and> unnamed \<noteq> [] then
           if named \<noteq> [] \<and> fst (result_of named) \<in> {OutcomeFail, OutcomeConflicting} then result_of named
           else (OutcomeUnattributed, supports_of unnamed)
         else if everything = [] then (OutcomeNone, [])
         else result_of everything)"

definition answer_supports :: "answer \<Rightarrow> support list" where
  "answer_supports ans =
     map (\<lambda>e. (row_support (ev_prov e))\<lparr>sup_origin := r_origin (ev_route e)\<rparr>) (ans_evidence ans)
     @ map (\<lambda>v. (row_support v)\<lparr>sup_absent := True\<rparr>) (ans_absent ans)"

section \<open>Decisions\<close>

definition row_at :: "state \<Rightarrow> plane \<Rightarrow> observation \<Rightarrow> bool" where
  "row_at s p ob \<longleftrightarrow> o_node ob = s_node s \<and> o_vrf ob = s_vrf s \<and> o_plane ob = p"

definition candidates :: "walker \<Rightarrow> state \<Rightarrow> plane \<Rightarrow> prefix list" where
  "candidates w s p =
     sort_func (\<lambda>a b. three_way (prefix_bits b) (prefix_bits a))
       (foldl append_new []
         [r_prefix r. ob \<leftarrow> w_obs w, row_at s p ob, r \<leftarrow> o_routes ob, prefix_contains (r_prefix r) (w_dest w)])"

definition complete :: "walker \<Rightarrow> state \<Rightarrow> plane \<Rightarrow> bool" where
  "complete w s p = (\<exists>ob\<in>set (w_obs w). row_at s p ob \<and> o_routes_complete ob)"

definition absence :: "walker \<Rightarrow> state \<Rightarrow> plane \<Rightarrow> support list" where
  "absence w s p =
     sort_supports [(row_support (o_prov ob))\<lparr>sup_absent := True\<rparr>. ob \<leftarrow> w_obs w, row_at s p ob \<and> o_routes_complete ob]"

definition same_forwarding :: "route \<Rightarrow> route \<Rightarrow> bool" where
  "same_forwarding a b \<longleftrightarrow> r_discard a = r_discard b \<and> same_hops (r_hops a) (r_hops b)"

fun agree_on_forwarding :: "evidence list \<Rightarrow> bool" where
  "agree_on_forwarding [] = True"
| "agree_on_forwarding (e # es) =
     ((\<forall>f\<in>set es. same_forwarding (ev_route e) (ev_route f)) \<and> agree_on_forwarding es)"

definition named_hops :: "evidence \<Rightarrow> nat" where
  "named_hops e = length (filter (\<lambda>h. nh_iface h \<noteq> []) (r_hops (ev_route e)))"

text \<open>\<^verbatim>\<open>slices.MaxFunc\<close> keeps the first maximum; a present answer has a row.\<close>

definition most_named :: "evidence list \<Rightarrow> route" where
  "most_named es = ev_route (foldl (\<lambda>b e. if named_hops b < named_hops e then e else b) (hd es) (tl es))"

definition choose_route :: "walker \<Rightarrow> state \<Rightarrow> plane \<Rightarrow> prefix list \<Rightarrow> decision \<times> next_hop list" where
  "choose_route w s p cands =
     (let ans = lookup_route (w_model w) (s_node s) (s_vrf s) p (hd cands);
          d = \<lparr>d_kind = KindUnknown, d_basis = Some p, d_prefix = Some (hd cands), d_proven = complete w s p,
               d_shadowed = tl cands, d_hops = [], d_evidence = answer_supports ans,
               d_agreement = AgreementUnset, d_reason = NoReason\<rparr>
      in case ans_state ans of
           Present \<Rightarrow>
             (if \<not> agree_on_forwarding (ans_evidence ans)
                then (d\<lparr>d_kind := KindConflicting, d_reason := OriginsDisagree p (hd cands)\<rparr>, [])
              else let best = most_named (ans_evidence ans)
              in if p = FIB \<and> \<not> d_proven d then (d\<lparr>d_reason := PartialFib\<rparr>, [])
                 else if r_discard best then (d\<lparr>d_kind := KindDiscard\<rparr>, [])
                 else if r_hops best = [] then (d\<lparr>d_reason := NoHopNoDiscard\<rparr>, [])
                 else (d\<lparr>d_kind := KindForward, d_hops := r_hops best\<rparr>, r_hops best))
         | Conflicting \<Rightarrow> (d\<lparr>d_kind := KindConflicting, d_reason := RowsDisagree p (hd cands)\<rparr>, [])
         | _ \<Rightarrow> (d\<lparr>d_reason := EvidenceUnresolved\<rparr>, []))"

fun decide_in :: "walker \<Rightarrow> state \<Rightarrow> plane \<Rightarrow> plane list \<Rightarrow> decision \<times> next_hop list" where
  "decide_in w s first [] = ((leaf_decision KindUnknown NothingKnown)\<lparr>d_basis := Some first\<rparr>, [])"
| "decide_in w s first (p # ps) =
     (let cands = candidates w s p
      in if cands \<noteq> [] then choose_route w s p cands
         else if complete w s p then
           ((leaf_decision KindNoRoute (CompleteTableLacks p (w_dest w)))
              \<lparr>d_basis := Some p, d_proven := True, d_evidence := absence w s p\<rparr>, [])
         else decide_in w s first ps)"

definition decide :: "walker \<Rightarrow> plane list \<Rightarrow> state \<Rightarrow> decision \<times> next_hop list" where
  "decide w planes s = decide_in w s (hd planes) planes"

definition on_link_only :: "decision \<Rightarrow> next_hop list \<Rightarrow> bool" where
  "on_link_only d hops \<longleftrightarrow> d_kind d = KindForward \<and> (\<forall>n\<in>set hops. \<not> addr_valid (nh_addr n))"

definition neighbor_claim :: "walker \<Rightarrow> state \<Rightarrow> next_hop \<Rightarrow> claim" where
  "neighbor_claim w s n =
     (case [nb. ob \<leftarrow> w_obs w, o_node ob = s_node s \<and> o_vrf ob = s_vrf s \<and> o_plane ob \<in> set read_planes,
               nb \<leftarrow> o_neighbors ob,
               (nh_iface n = [] \<or> n_local nb = nh_iface n) \<and> n_addr nb = nh_addr n] of
        [] \<Rightarrow> NoClaim
      | nb # _ \<Rightarrow> ClaimedBy (n_node nb))"

section \<open>Local ownership\<close>

datatype walk_note =
    Unchecked state "support list" decision
  | OtherOwner state state addr "support list" "support list"

definition own_supports :: "owning list \<Rightarrow> support list" where
  "own_supports rows = sort_supports (map own_sup rows)"

fun first_plane :: "plane list \<Rightarrow> owning list \<Rightarrow> plane option" where
  "first_plane [] rows = None"
| "first_plane (p # ps) rows = (if \<exists>o1\<in>set rows. own_plane o1 = p then Some p else first_plane ps rows)"

definition note_unchecked :: "walker \<Rightarrow> plane list \<Rightarrow> state \<Rightarrow> support list \<Rightarrow> walk_note list" where
  "note_unchecked w planes s ev =
     (let (d, hops) = decide w planes s
      in if d_kind d = KindNoRoute \<or> (d_kind d = KindUnknown \<and> d_prefix d = None) \<or> on_link_only d hops
         then [] else [Unchecked s ev d])"

definition local_decision :: "walker \<Rightarrow> plane list \<Rightarrow> state \<Rightarrow> owning list \<Rightarrow> decision \<times> walk_note list" where
  "local_decision w planes s rows =
     (let p = first_plane (planes @ read_planes) rows;
          ev = sort_supports (map own_sup (filter (\<lambda>o1. Some (own_plane o1) = p) rows))
      in ((leaf_decision KindLocal LocalAddress)\<lparr>d_basis := p, d_evidence := ev\<rparr>,
          note_unchecked w planes s ev))"

definition note_other_owners :: "walker \<Rightarrow> state \<Rightarrow> owning list \<Rightarrow> walk_note list" where
  "note_other_owners w s rows =
     [OtherOwner s t (w_dest w) (own_supports rows) (own_supports (owned w (w_dest w) t)).
      t \<leftarrow> owners w (w_dest w), t \<noteq> s]"

section \<open>A small network\<close>

text \<open>
  Two routers on the link 192.0.2.0/24: r1 forwards 10.0.0.0/8 to r2, which holds 10.0.0.5
  and routes 192.0.2.0/24 back on its link. The witnesses of the theorems walk it.
\<close>

definition sample_prov :: provenance where
  "sample_prov = \<lparr>source = ''lab'', collected_at = Time 1 0\<rparr>"

definition sample_iface :: "string \<Rightarrow> prefix \<Rightarrow> interface" where
  "sample_iface name p = \<lparr>i_name = name, i_vlan_known = False, i_vlan = 0, i_addrs = [p], i_attrs = []\<rparr>"

definition sample_fib :: "string \<Rightarrow> interface list \<Rightarrow> route list \<Rightarrow> observation" where
  "sample_fib node is rs =
     \<lparr>o_prov = sample_prov, o_plane = FIB, o_node = node, o_vrf = ''default'', o_routes_complete = True,
      o_neighbors_complete = False, o_ifaces = is, o_neighbors = [], o_routes = rs\<rparr>"

definition sample_model :: model where
  "sample_model =
     [sample_fib ''r1'' [sample_iface ''e0'' (Prefix (Addr4 0xC0000201) 25)]
        [sample_route (Prefix (Addr4 0x0A000000) 9) ''static'' [\<lparr>nh_addr = Addr4 0xC0000202, nh_iface = ''e0''\<rparr>]],
      sample_fib ''r2'' [sample_iface ''e1'' (Prefix (Addr4 0xC0000202) 25),
                         sample_iface ''lo'' (Prefix (Addr4 0x0A000005) 33)]
        [sample_route (Prefix (Addr4 0xC0000200) 25) ''connected'' [\<lparr>nh_addr = ZeroAddr, nh_iface = ''e1''\<rparr>]]]"

definition sample_topology :: topology where
  "sample_topology =
     \<lparr>fl_source = at ''r1'' ''default'', fl_source_addr = Addr4 0xC0000201, fl_model = sample_model,
      fl_checks = [], fl_boundaries = [], fl_tunnels = []\<rparr>"

abbreviation sample_dest :: addr where
  "sample_dest \<equiv> Addr4 0x0A000005"

lemma sample_model_accepted: "new_model sample_model = Inr sample_model"
  by code_simp

end
