(* ===== verification/Model_Laws.thy ===== *)
theory Model_Laws
  imports Netmodel
begin

text \<open>
  What validation guarantees: the well-formedness \<open>wf_observation\<close> of every observation a
  model holds, that canonical observations are exactly the fixed points of \<open>canonical\<close>, and
  that a model does not depend on the order its observations are given in.
\<close>

section \<open>Attributes and addresses\<close>

definition wf_attrs :: "attribute list \<Rightarrow> bool" where
  "wf_attrs as \<longleftrightarrow> (\<forall>a\<in>set as. trim_space (attr_key a) \<noteq> [] \<and> trim_space (attr_value a) \<noteq> [])
     \<and> sorted_func compare_attributes as \<and> distinct as"

lemma check_attributes_None:
  "check_attributes ow as = None \<longleftrightarrow>
     (\<forall>a\<in>set as. trim_space (attr_key a) \<noteq> [] \<and> trim_space (attr_value a) \<noteq> [])"
  by (induction as) auto

lemma canonical_attributes_wf: "canonical_attributes ow as = Inr as' \<Longrightarrow> wf_attrs as'"
  by (auto simp: canonical_attributes_def wf_attrs_def check_attributes_None split: option.splits
      intro: attribute_order.sorted_remdups_adj attribute_order.distinct_compact attribute_order.sorted_sort_func)

lemma canonical_attributes_id: "wf_attrs as \<Longrightarrow> canonical_attributes ow as = Inr as"
  by (auto simp: canonical_attributes_def wf_attrs_def sort_func_sorted remdups_adj_distinct
      check_attributes_None [of ow, symmetric] split: option.splits)

lemma canonical_attributes_values:
  "canonical_attributes ow as = Inr as' \<Longrightarrow> set as' = set as"
  by (auto simp: canonical_attributes_def split: option.splits)

lemma normalize_addr_plain: "normalize_addr a i = Some (b, j) \<Longrightarrow> plain_addr b = b"
  by (auto simp: normalize_addr_def Let_def split: if_splits)

lemma normalize_addr_id: "plain_addr a = a \<Longrightarrow> normalize_addr a i = Some (a, i)"
  using plain_addr_zone [of a] by (simp add: normalize_addr_def)

section \<open>Rows\<close>

definition wf_iface :: "interface \<Rightarrow> bool" where
  "wf_iface i \<longleftrightarrow> i_name i \<noteq> [] \<and> (i_vlan_known i \<longrightarrow> i_vlan i \<le> 4094) \<and> (\<not> i_vlan_known i \<longrightarrow> i_vlan i = 0)
     \<and> (\<forall>a\<in>set (i_addrs i). prefix_valid a) \<and> sorted_func compare_prefix (i_addrs i) \<and> wf_attrs (i_attrs i)"

definition wf_neighbor :: "neighbor \<Rightarrow> bool" where
  "wf_neighbor n \<longleftrightarrow> n_local n \<noteq> [] \<and> n_node n \<noteq> [] \<and> plain_addr (n_addr n) = n_addr n \<and> wf_attrs (n_attrs n)"

definition wf_hop :: "next_hop \<Rightarrow> bool" where
  "wf_hop h \<longleftrightarrow> plain_addr (nh_addr h) = nh_addr h \<and> (addr_valid (nh_addr h) \<or> nh_iface h \<noteq> [])
     \<and> (addr_link_local (nh_addr h) \<longrightarrow> nh_iface h \<noteq> [])"

definition wf_route :: "route \<Rightarrow> bool" where
  "wf_route r \<longleftrightarrow> prefix_valid (r_prefix r) \<and> masked (r_prefix r) = r_prefix r \<and> r_origin r \<noteq> []
     \<and> \<not> (r_discard r \<and> r_hops r \<noteq> []) \<and> (\<forall>h\<in>set (r_hops r). wf_hop h)
     \<and> sorted_func compare_next_hops (r_hops r) \<and> distinct (r_hops r) \<and> wf_attrs (r_attrs r)
     \<and> (\<not> r_metric_known r \<longrightarrow> r_metric r = 0)"

lemma canonical_iface_wf:
  "canonical_iface names i = Inr i' \<Longrightarrow> wf_iface i' \<and> i_name i' = i_name i \<and> i_name i \<notin> set names"
  by (auto simp: canonical_iface_def wf_iface_def prefix_order.sorted_sort_func
      dest!: canonical_attributes_wf split: if_splits)

lemma canonical_iface_id: "wf_iface i \<Longrightarrow> i_name i \<notin> set names \<Longrightarrow> canonical_iface names i = Inr i"
  by (auto simp: canonical_iface_def wf_iface_def canonical_attributes_id sort_func_sorted)

lemma canonical_ifaces_wf:
  "canonical_ifaces names is = Inr is' \<Longrightarrow>
     (\<forall>i\<in>set is'. wf_iface i) \<and> map i_name is' = map i_name is \<and> distinct (map i_name is)
     \<and> set (map i_name is) \<inter> set names = {}"
proof (induction names "is" arbitrary: is' rule: canonical_ifaces.induct)
  case (2 names i "is")
  then obtain i' js where i: "canonical_iface names i = Inr i'"
    and js: "canonical_ifaces (names @ [i_name i]) is = Inr js" and eq: "is' = i' # js"
    by auto
  show ?case
    using canonical_iface_wf [OF i] "2.IH" [OF js] eq by auto
qed simp

lemma canonical_ifaces_id:
  "\<forall>i\<in>set is. wf_iface i \<Longrightarrow> distinct (map i_name is) \<Longrightarrow> set (map i_name is) \<inter> set names = {} \<Longrightarrow>
     canonical_ifaces names is = Inr is"
  by (induction "is" arbitrary: names) (auto simp: canonical_iface_id)

lemma canonical_neighbor_wf: "canonical_neighbor n = Inr n' \<Longrightarrow> wf_neighbor n'"
  by (auto simp: canonical_neighbor_def wf_neighbor_def normalize_addr_plain
      dest!: canonical_attributes_wf split: if_splits option.splits)

lemma canonical_neighbor_id: "wf_neighbor n \<Longrightarrow> canonical_neighbor n = Inr n"
  by (auto simp: canonical_neighbor_def wf_neighbor_def normalize_addr_id canonical_attributes_id)

lemma canonical_hop_wf: "canonical_hop p h = Inr h' \<Longrightarrow> wf_hop h'"
  by (auto simp: canonical_hop_def wf_hop_def normalize_addr_plain split: if_splits option.splits)

lemma canonical_hop_id: "wf_hop h \<Longrightarrow> canonical_hop p h = Inr h"
  by (auto simp: canonical_hop_def wf_hop_def normalize_addr_id)

lemma collect_canonical_hop: "collect (canonical_hop p) hs = Inr hs' \<Longrightarrow> h \<in> set hs' \<Longrightarrow> wf_hop h"
  by (meson canonical_hop_wf collect_set)

lemma canonical_route_wf:
  assumes "canonical_route seen r = Inr r'"
  shows "wf_route r'" and "r_prefix r' = r_prefix r" and "r_origin r' = r_origin r"
    and "(r_prefix r, r_origin r) \<notin> set seen"
  using assms
  by (auto simp: canonical_route_def wf_route_def next_hop_order.sorted_sort_func
      next_hop_order.sorted_remdups_adj next_hop_order.distinct_compact
      intro: collect_canonical_hop dest!: canonical_attributes_wf split: if_splits)

lemma canonical_route_id:
  "wf_route r \<Longrightarrow> (r_prefix r, r_origin r) \<notin> set seen \<Longrightarrow> canonical_route seen r = Inr r"
  by (auto simp: canonical_route_def wf_route_def canonical_attributes_id sort_func_sorted
      remdups_adj_distinct collect_id canonical_hop_id)

abbreviation route_key :: "route \<Rightarrow> prefix \<times> string" where
  "route_key r \<equiv> (r_prefix r, r_origin r)"

lemma canonical_routes_wf:
  "canonical_routes seen rs = Inr rs' \<Longrightarrow>
     (\<forall>r\<in>set rs'. wf_route r) \<and> map route_key rs' = map route_key rs \<and> distinct (map route_key rs)
     \<and> set (map route_key rs) \<inter> set seen = {}"
proof (induction seen rs arbitrary: rs' rule: canonical_routes.induct)
  case (2 seen r rs)
  then obtain r' rs'' where r: "canonical_route seen r = Inr r'"
    and rs: "canonical_routes (seen @ [route_key r]) rs = Inr rs''" and eq: "rs' = r' # rs''"
    by auto
  show ?case
    using canonical_route_wf [OF r] "2.IH" [OF rs] eq by auto
qed simp

lemma canonical_routes_id:
  "\<forall>r\<in>set rs. wf_route r \<Longrightarrow> distinct (map route_key rs) \<Longrightarrow> set (map route_key rs) \<inter> set seen = {} \<Longrightarrow>
     canonical_routes seen rs = Inr rs"
  by (induction rs arbitrary: seen) (auto simp: canonical_route_id)

section \<open>Observations\<close>

definition wf_observation :: "observation \<Rightarrow> bool" where
  "wf_observation ob \<longleftrightarrow>
     source (o_prov ob) \<noteq> [] \<and> \<not> time_is_zero (collected_at (o_prov ob)) \<and> valid_plane (o_plane ob)
     \<and> o_node ob \<noteq> [] \<and> o_vrf ob \<noteq> []
     \<and> (\<forall>i\<in>set (o_ifaces ob). wf_iface i) \<and> distinct (map i_name (o_ifaces ob))
     \<and> sorted_func compare_ifaces (o_ifaces ob)
     \<and> (\<forall>n\<in>set (o_neighbors ob). wf_neighbor n) \<and> sorted_func compare_neighbors (o_neighbors ob)
     \<and> (\<forall>r\<in>set (o_routes ob). wf_route r) \<and> distinct (map route_key (o_routes ob))
     \<and> sorted_func compare_routes (o_routes ob)"

lemma distinct_map_sort_func [simp]: "distinct (map f (sort_func c xs)) = distinct (map f xs)"
  by (metis mset_map mset_sort_func mset_eq_imp_distinct_iff)

lemma canonical_wf:
  assumes "canonical ob = Inr ob'"
  shows "wf_observation ob'"
proof -
  obtain is' ns' rs' where "canonical_ifaces [] (o_ifaces ob) = Inr is'"
    and ns: "collect canonical_neighbor (o_neighbors ob) = Inr ns'"
    and "canonical_routes [] (o_routes ob) = Inr rs'"
    and eq: "ob' = ob\<lparr>o_ifaces := sort_func compare_ifaces is',
                  o_neighbors := sort_func compare_neighbors ns', o_routes := sort_func compare_routes rs'\<rparr>"
    and head: "source (o_prov ob) \<noteq> []" "\<not> time_is_zero (collected_at (o_prov ob))"
      "valid_plane (o_plane ob)" "o_node ob \<noteq> []" "o_vrf ob \<noteq> []"
    using assms by (auto simp: canonical_def split: if_splits)
  moreover have "\<forall>n\<in>set ns'. wf_neighbor n"
    using ns by (meson canonical_neighbor_wf collect_set)
  moreover have "(\<forall>i\<in>set is'. wf_iface i) \<and> distinct (map i_name is')"
    using canonical_ifaces_wf calculation(1) by metis
  moreover have "(\<forall>r\<in>set rs'. wf_route r) \<and> distinct (map route_key rs')"
    using canonical_routes_wf calculation(3) by metis
  ultimately show ?thesis
    by (simp add: wf_observation_def iface_order.sorted_sort_func neighbor_order.sorted_sort_func
        route_order.sorted_sort_func)
qed

lemma canonical_id: "wf_observation ob \<Longrightarrow> canonical ob = Inr ob"
  by (auto simp: canonical_def wf_observation_def sort_func_sorted canonical_ifaces_id canonical_routes_id
      canonical_neighbor_id collect_id)

lemma canonical_all_wf: "canonical_all n obs = Inr cs \<Longrightarrow> ob \<in> set cs \<Longrightarrow> wf_observation ob"
  by (induction n obs arbitrary: cs rule: canonical_all.induct) (auto split: sum.splits dest: canonical_wf)

lemma canonical_all_id: "\<forall>ob\<in>set obs. wf_observation ob \<Longrightarrow> canonical_all n obs = Inr obs"
  by (induction n obs rule: canonical_all.induct) (auto simp: canonical_id)

lemma canonical_all_collect:
  "canonical_all n obs = Inr cs \<longleftrightarrow> collect canonical obs = Inr cs"
  by (induction n obs arbitrary: cs rule: canonical_all.induct) (auto split: sum.splits)

text \<open>The invariant of a model: well-formed observations in canonical order.\<close>

definition wf_model :: "model \<Rightarrow> bool" where
  "wf_model m \<longleftrightarrow> (\<forall>ob\<in>set m. wf_observation ob) \<and> sorted_func compare_observations m"

lemma new_model_sound: "new_model obs = Inr m \<Longrightarrow> wf_model m"
  by (auto simp: new_model_def wf_model_def observation_order.sorted_sort_func dest: canonical_all_wf)

text \<open>
  C18. Validation is sound: every model it builds holds well-formed observations only, in
  canonical order. So a model has no empty name, no address in two spellings, no route with
  host bits, no prefix twice from one origin, no discard with next hops, and no next hop
  that names neither an address nor an interface.
\<close>

theorem new_model_wf:
  assumes "new_model obs = Inr m"
  shows "wf_model m"
  using assms by (rule new_model_sound)

theorem new_model_wf_witness: "wf_model [sample_table [sample_route (Prefix (Addr4 0x0A000000) 9) ''ospf'' []]]"
proof -
  have "new_model [sample_table [sample_route (Prefix (Addr4 0x0A000000) 9) ''ospf'' []]]
      = Inr [sample_table [sample_route (Prefix (Addr4 0x0A000000) 9) ''ospf'' []]]"
    by code_simp
  then show ?thesis by (rule new_model_wf)
qed

text \<open>
  C19. Validation is idempotent: the observations of a model are accepted unchanged, so
  reading a model's observations back and building a model from them gives the same model.
\<close>

theorem new_model_roundtrip:
  assumes "new_model obs = Inr m"
  shows "new_model m = Inr m"
proof -
  have "\<forall>ob\<in>set m. wf_observation ob" "sorted_func compare_observations m"
    using assms
    by (auto simp: new_model_def observation_order.sorted_sort_func dest: canonical_all_wf)
  then show ?thesis
    by (simp add: new_model_def canonical_all_id sort_func_sorted)
qed

theorem new_model_roundtrip_witness:
  "new_model [sample_table [sample_route (Prefix (Addr4 0x0A000000) 9) ''ospf'' []]]
     = Inr [sample_table [sample_route (Prefix (Addr4 0x0A000000) 9) ''ospf'' []]]"
  by (rule new_model_roundtrip [of "[sample_table [sample_route (Prefix (Addr4 0x0A000000) 9) ''ospf'' []]]"]) code_simp

text \<open>
  A model does not depend on the order its observations are given in: when one order is
  accepted, so is every permutation of it, with the same model, provided the canonical
  order tells the accepted observations apart.
\<close>

theorem new_model_order:
  assumes "new_model obs = Inr m" "mset obs' = mset obs"
    and "\<And>a b. a \<in> set m \<Longrightarrow> b \<in> set m \<Longrightarrow> compare_observations a b = 0 \<Longrightarrow> a = b"
  shows "new_model obs' = Inr m"
proof -
  obtain cs where cs: "collect canonical obs = Inr cs" and m: "m = sort_func compare_observations cs"
    using assms(1) by (auto simp: new_model_def canonical_all_collect)
  obtain cs' where cs': "collect canonical obs' = Inr cs'" and mset: "mset cs' = mset cs"
    using collect_mset [OF assms(2) [symmetric] cs] by blast
  have "sort_func compare_observations cs' = m"
    unfolding m
  proof (rule observation_order.sort_func_unique [OF mset])
    fix x y
    assume "x \<in> set cs'" "y \<in> set cs'" "compare_observations x y = 0"
    moreover have "set cs' = set m"
      using mset m by (metis set_mset_mset set_sort_func)
    ultimately show "x = y" using assms(3) by simp
  qed
  then show ?thesis
    using cs' by (simp add: new_model_def canonical_all_collect)
qed

theorem new_model_order_witness:
  "new_model [sample_table [], (sample_table [])\<lparr>o_node := ''r2''\<rparr>]
     = Inr [sample_table [], (sample_table [])\<lparr>o_node := ''r2''\<rparr>]"
proof (rule new_model_order [of "[(sample_table [])\<lparr>o_node := ''r2''\<rparr>, sample_table []]"])
  show "new_model [(sample_table [])\<lparr>o_node := ''r2''\<rparr>, sample_table []]
      = Inr [sample_table [], (sample_table [])\<lparr>o_node := ''r2''\<rparr>]"
    by code_simp
  have "compare_observations (sample_table []) ((sample_table [])\<lparr>o_node := ''r2''\<rparr>) \<noteq> 0"
    "compare_observations ((sample_table [])\<lparr>o_node := ''r2''\<rparr>) (sample_table []) \<noteq> 0"
    by code_simp+
  then show "\<And>a b. a \<in> set [sample_table [], (sample_table [])\<lparr>o_node := ''r2''\<rparr>] \<Longrightarrow>
      b \<in> set [sample_table [], (sample_table [])\<lparr>o_node := ''r2''\<rparr>] \<Longrightarrow> compare_observations a b = 0 \<Longrightarrow> a = b"
    by auto
qed simp

end
