(* ===== verification/Decide.thy ===== *)
theory Decide
  imports Routepath Model_Laws
begin

text \<open>
  What a decision of \<^verbatim>\<open>walk.go\<close> rests on: the candidates of one plane, the order in which
  planes are asked, and the rows behind a forwarding decision.
\<close>

section \<open>The walker reads what the observations say\<close>

definition read_obs :: "model \<Rightarrow> observation list" where
  "read_obs m = filter (\<lambda>ob. o_plane ob \<in> set read_planes \<or> o_plane ob = Intended) m"

text \<open>The invariant of a walker: its rows are those of its model.\<close>

definition wf_walker :: "walker \<Rightarrow> bool" where
  "wf_walker w \<longleftrightarrow> w_obs w = read_obs (w_model w) \<and> w_rows w = address_rows (w_obs w)"

lemma wf_new_walker [simp]: "wf_walker (new_walker f dest)"
  by (simp add: wf_walker_def new_walker_def read_obs_def Let_def)

definition lists_address :: "model \<Rightarrow> addr \<Rightarrow> state \<Rightarrow> bool" where
  "lists_address m a s \<longleftrightarrow>
     (\<exists>ob\<in>set m. o_plane ob \<in> set read_planes \<and> s = at (o_node ob) (o_vrf ob)
        \<and> (\<exists>i\<in>set (o_ifaces ob). \<exists>p\<in>set (i_addrs i). plain_addr (prefix_addr p) = a))"

lemma set_owners:
  assumes "wf_walker w"
  shows "s \<in> set (owners w a) \<longleftrightarrow> lists_address (w_model w) a s"
  using assms
  by (fastforce simp: owners_def wf_walker_def address_rows_def read_obs_def lists_address_def
      split: if_splits prod.splits)

lemma distinct_owners [simp]: "distinct (owners w a)"
  by (simp add: owners_def)

lemma set_owned: "row \<in> set (owned w a s) \<longleftrightarrow> (a, s, row) \<in> set (w_rows w)"
  by (force simp: owned_def split: if_splits prod.splits)

lemma set_owners_rows: "s \<in> set (owners w a) \<longleftrightarrow> (\<exists>row. (a, s, row) \<in> set (w_rows w))"
  by (force simp: owners_def split: if_splits prod.splits)

lemma owned_Nil_iff: "owned w a s = [] \<longleftrightarrow> s \<notin> set (owners w a)"
  using set_owned [of _ w a s] set_owners_rows [of s w a]
  by (metis list.set_intros(1) neq_Nil_conv list.set(1) empty_iff)

section \<open>Candidates\<close>

interpretation longest_first: compare_preorder "\<lambda>a b. three_way (prefix_bits b) (prefix_bits a)"
  by unfold_locales (auto simp: cmp_simps)

definition has_route :: "walker \<Rightarrow> state \<Rightarrow> plane \<Rightarrow> prefix \<Rightarrow> bool" where
  "has_route w s q p \<longleftrightarrow> (\<exists>ob\<in>set (w_obs w). row_at s q ob \<and> (\<exists>r\<in>set (o_routes ob). r_prefix r = p))"

lemma set_candidates:
  "p \<in> set (candidates w s q) \<longleftrightarrow> has_route w s q p \<and> prefix_contains p (w_dest w)"
  by (fastforce simp: candidates_def has_route_def)

lemma distinct_candidates [simp]: "distinct (candidates w s q)"
  by (simp add: candidates_def)

lemma candidates_longest_first:
  "sorted_wrt (\<lambda>a b. prefix_bits b \<le> prefix_bits a) (candidates w s q)"
  using longest_first.sorted_sort_func
  unfolding candidates_def sorted_func_def
  by (rule sorted_wrt_mono_rel [rotated]) (simp add: three_way_def split: if_splits)

section \<open>The planes are asked in order\<close>

definition silent :: "walker \<Rightarrow> state \<Rightarrow> plane \<Rightarrow> bool" where
  "silent w s q \<longleftrightarrow>
     \<not> complete w s q \<and> (\<forall>p. has_route w s q p \<longrightarrow> \<not> prefix_contains p (w_dest w))"

lemma candidates_Nil_iff:
  "candidates w s q = [] \<longleftrightarrow> (\<forall>p. has_route w s q p \<longrightarrow> \<not> prefix_contains p (w_dest w))"
  using set_candidates [of _ w s q] by (metis list.set_intros(1) neq_Nil_conv list.set(1) empty_iff)

lemma silent_iff: "silent w s q \<longleftrightarrow> \<not> complete w s q \<and> candidates w s q = []"
  by (simp add: silent_def candidates_Nil_iff)

lemma decide_in_first:
  "decide_in w s first ps =
     (case dropWhile (silent w s) ps of
        [] \<Rightarrow> ((leaf_decision KindUnknown NothingKnown)\<lparr>d_basis := Some first\<rparr>, [])
      | q # _ \<Rightarrow>
          if candidates w s q \<noteq> [] then choose_route w s q (candidates w s q)
          else ((leaf_decision KindNoRoute (CompleteTableLacks q (w_dest w)))
              \<lparr>d_basis := Some q, d_proven := True, d_evidence := absence w s q\<rparr>, []))"
  by (induction ps) (auto simp: silent_iff Let_def)

lemma choose_route_fields:
  assumes "choose_route w s q cands = (d, hops)"
  shows "d_basis d = Some q" "d_prefix d = Some (hd cands)" "d_shadowed d = tl cands"
    "d_proven d = complete w s q" "d_kind d \<noteq> KindNoRoute" "d_hops d = hops"
    "hops \<noteq> [] \<longleftrightarrow> d_kind d = KindForward"
    "d_kind d \<in> {KindForward, KindDiscard, KindUnknown, KindConflicting}"
  using assms by (auto simp: choose_route_def Let_def split: lookup_state.splits if_splits)

lemma dropWhile_eq_ConsD:
  "dropWhile P xs = y # ys \<Longrightarrow> \<not> P y \<and> xs = takeWhile P xs @ y # ys"
  by (metis dropWhile_eq_Cons_conv hd_dropWhile list.discI list.sel(1) takeWhile_dropWhile_id)

text \<open>A decision comes from no plane, from the absence of a route, or from a row.\<close>

lemma decide_cases:
  assumes "decide w planes s = (d, hops)"
  obtains (silent) "\<forall>q\<in>set planes. silent w s q" "hops = []"
      "d = (leaf_decision KindUnknown NothingKnown)\<lparr>d_basis := Some (hd planes)\<rparr>"
  | (absent) q before_q after_q where "planes = before_q @ q # after_q" "\<forall>q'\<in>set before_q. silent w s q'"
      "complete w s q" "candidates w s q = []" "hops = []"
      "d = (leaf_decision KindNoRoute (CompleteTableLacks q (w_dest w)))
         \<lparr>d_basis := Some q, d_proven := True, d_evidence := absence w s q\<rparr>"
  | (chosen) q before_q after_q where "planes = before_q @ q # after_q" "\<forall>q'\<in>set before_q. silent w s q'"
      "candidates w s q \<noteq> []" "choose_route w s q (candidates w s q) = (d, hops)"
proof (cases "dropWhile (silent w s) planes")
  case Nil
  then have "\<forall>q\<in>set planes. silent w s q"
    by simp
  then show thesis
    using assms Nil by (intro silent) (auto simp: decide_def decide_in_first)
next
  case (Cons q qs)
  have split: "planes = takeWhile (silent w s) planes @ q # qs" "\<not> silent w s q"
    using dropWhile_eq_ConsD [OF Cons] by auto
  have before: "\<forall>q'\<in>set (takeWhile (silent w s) planes). silent w s q'"
    by (auto dest: set_takeWhileD)
  show thesis
  proof (cases "candidates w s q = []")
    case True
    then show thesis
      using assms Cons split silent_iff by (intro absent [OF split(1) before]) (auto simp: decide_def decide_in_first)
  next
    case False
    then show thesis
      using assms Cons by (intro chosen [OF split(1) before]) (auto simp: decide_def decide_in_first)
  qed
qed

lemma decide_chosen:
  assumes "decide w planes s = (d, hops)" "d_prefix d = Some p"
  obtains q before_q after_q where "planes = before_q @ q # after_q" "\<forall>q'\<in>set before_q. silent w s q'"
      "candidates w s q = p # d_shadowed d" "choose_route w s q (p # d_shadowed d) = (d, hops)"
  using assms(1)
proof (cases rule: decide_cases)
  case (chosen q bs as)
  then have "candidates w s q = p # d_shadowed d"
    using choose_route_fields(2,3) [OF chosen(4)] assms(2) by (cases "candidates w s q") auto
  with chosen show thesis using that by metis
qed (use assms in \<open>auto simp: leaf_decision_def\<close>)

lemma decide_hops:
  assumes "decide w planes s = (d, hops)"
  shows "d_hops d = hops" "hops \<noteq> [] \<longleftrightarrow> d_kind d = KindForward"
    "d_kind d \<in> {KindForward, KindDiscard, KindNoRoute, KindUnknown, KindConflicting}"
  using assms
  by (cases rule: decide_cases; auto simp: leaf_decision_def dest: choose_route_fields)+

text \<open>
  C21. A decision uses the longest match of the first plane that says anything. When a
  decision at a place names a prefix, some plane of the walk holds a route for it there, the
  prefix contains the destination, every other prefix of that plane that contains the
  destination is listed as shadowed and is no longer, the planes asked before it hold no
  route to the destination and no complete table, and the decision counts as proven exactly
  when a complete table backs it.
\<close>

theorem decide_longest_match:
  assumes "decide w planes s = (d, hops)" "d_prefix d = Some p"
  shows "\<exists>q before_q after_q. planes = before_q @ q # after_q \<and> (\<forall>q'\<in>set before_q. silent w s q')
    \<and> d_basis d = Some q \<and> d_proven d = complete w s q
    \<and> has_route w s q p \<and> prefix_contains p (w_dest w)
    \<and> (\<forall>p'. p' \<in> insert p (set (d_shadowed d)) \<longleftrightarrow> has_route w s q p' \<and> prefix_contains p' (w_dest w))
    \<and> (\<forall>p'\<in>set (d_shadowed d). p' \<noteq> p \<and> prefix_bits p' \<le> prefix_bits p)"
  using assms
proof (cases rule: decide_chosen)
  case (1 q bs as)
  have "set (candidates w s q) = insert p (set (d_shadowed d))"
    using 1(3) by simp
  moreover have "\<forall>p'\<in>set (d_shadowed d). p' \<noteq> p \<and> prefix_bits p' \<le> prefix_bits p"
    using candidates_longest_first [of w s q] distinct_candidates [of w s q] 1(3) by auto
  ultimately show ?thesis
    using 1(1,2) choose_route_fields(1,4) [OF 1(4)] set_candidates [of _ w s q] by blast
qed

theorem decide_longest_match_witness:
  "\<exists>q before_q after_q. forwarding_planes = before_q @ q # after_q
    \<and> has_route (new_walker sample_topology sample_dest) (at ''r1'' ''default'') q (Prefix (Addr4 0x0A000000) 9)"
proof -
  let ?w = "new_walker sample_topology sample_dest"
  obtain d hops where dh: "decide ?w forwarding_planes (at ''r1'' ''default'') = (d, hops)" by fastforce
  have "d_prefix (fst (decide ?w forwarding_planes (at ''r1'' ''default''))) = Some (Prefix (Addr4 0x0A000000) 9)"
    by code_simp
  with decide_longest_match [OF dh, of "Prefix (Addr4 0x0A000000) 9"] dh show ?thesis
    by auto
qed

text \<open>
  C22. A walk reports that there is no route exactly when the evidence proves it: some plane it
  asks has a complete table at the place, no observation of that plane there holds a route to
  the destination, and every plane asked before it says nothing at all. Silence is unknown.
\<close>

theorem decide_no_route_iff:
  "d_kind (fst (decide w planes s)) = KindNoRoute \<longleftrightarrow>
     (\<exists>q before_q after_q. planes = before_q @ q # after_q \<and> (\<forall>q'\<in>set before_q. silent w s q')
        \<and> complete w s q \<and> (\<forall>p. has_route w s q p \<longrightarrow> \<not> prefix_contains p (w_dest w)))"
proof -
  obtain d hops where dh: "decide w planes s = (d, hops)" by fastforce
  from dh show ?thesis
  proof (cases rule: decide_cases)
    case silent
    then show ?thesis
      using dh silent_iff by (auto simp: leaf_decision_def)
  next
    case (absent q bs as)
    then show ?thesis
      using dh candidates_Nil_iff [of w s q] by (auto simp: leaf_decision_def)
  next
    case (chosen q bs as)
    have "\<not> (complete w s q' \<and> candidates w s q' = [])"
      if "planes = bs' @ q' # as'" "\<forall>x\<in>set bs'. silent w s x" for q' bs' as'
      using that chosen(1-3) unfolding silent_iff
      by (fastforce simp: append_eq_append_conv2 Cons_eq_append_conv append_eq_Cons_conv)
    then show ?thesis
      using dh choose_route_fields(5) [OF chosen(4)] candidates_Nil_iff by simp blast
  qed
qed

theorem decide_no_route_iff_witness:
  "\<exists>q before_q after_q. forwarding_planes = before_q @ q # after_q
     \<and> complete (new_walker sample_topology (Addr4 0x0B000001)) (at ''r1'' ''default'') q"
proof -
  have "d_kind (fst (decide (new_walker sample_topology (Addr4 0x0B000001)) forwarding_planes (at ''r1'' ''default'')))
      = KindNoRoute"
    by code_simp
  then show ?thesis
    unfolding decide_no_route_iff by blast
qed

section \<open>The rows behind a forwarding decision\<close>

lemma agree_on_forwarding_iff:
  "agree_on_forwarding es \<longleftrightarrow> (\<forall>e\<in>set es. \<forall>f\<in>set es. same_forwarding (ev_route e) (ev_route f))"
  by (induction es) (auto simp: same_forwarding_def hops.same_commute hops.same_refl)

lemma foldl_pick: "foldl (\<lambda>b e. if P b e then e else b) x es \<in> insert x (set es)"
proof (induction es arbitrary: x)
  case (Cons e es)
  then show ?case using Cons [of e] Cons [of x] by auto
qed simp

lemma most_named_in: "es \<noteq> [] \<Longrightarrow> \<exists>e\<in>set es. most_named es = ev_route e"
  unfolding most_named_def
  using foldl_pick [of "\<lambda>b e. named_hops b < named_hops e" "hd es" "tl es"]
  by (cases es) auto

lemma lookup_present:
  assumes "ans_state (lookup_route m node vrf p pre) = Present" "prefix_valid (masked pre)"
  shows "ans_evidence (lookup_route m node vrf p pre) \<noteq> []"
    "\<not> proves_absent m node vrf p (masked pre) v"
  using lookup_state_spec [OF assms(2), of m node vrf p] assms(1) lookup_rows(1) [OF assms(2), of _ m node vrf p]
  by (auto simp: lookup_spec_def split: if_splits)

lemma choose_route_forward:
  assumes "choose_route w s q cands = (d, hops)" "d_kind d = KindForward"
  defines "ans \<equiv> lookup_route (w_model w) (s_node s) (s_vrf s) q (hd cands)"
  shows "ans_state ans = Present" "agree_on_forwarding (ans_evidence ans)"
    "\<not> r_discard (most_named (ans_evidence ans))" "hops = r_hops (most_named (ans_evidence ans))"
    "q = FIB \<Longrightarrow> complete w s q"
  using assms(1,2)
  by (auto simp: choose_route_def ans_def Let_def split: lookup_state.splits if_splits)

lemma has_route_masked:
  assumes "wf_walker w" "wf_model (w_model w)" "has_route w s q p"
  shows "masked p = p" "prefix_valid p"
proof -
  obtain ob r where r: "ob \<in> set (w_model w)" "r \<in> set (o_routes ob)" "r_prefix r = p"
    using assms(1,3) by (auto simp: wf_walker_def read_obs_def has_route_def)
  then have "wf_route r"
    using assms(2) unfolding wf_model_def wf_observation_def by blast
  then show "masked p = p" "prefix_valid p"
    using r(3) by (simp_all add: wf_route_def)
qed

text \<open>
  C23. The forwarding walk follows only what the forwarding tables prove. When its decision
  at a place is to forward, some complete forwarding table of that place backs it, and every
  forwarding table of the place that says anything about the chosen prefix agrees: no
  complete table lacks the prefix, no row for it discards, and every row names the same
  number of alternatives, which cover the followed ones and are covered by them.
\<close>

theorem fib_forward_proven:
  assumes "wf_walker w" "wf_model (w_model w)"
    and "decide w forwarding_planes s = (d, hops)" "d_kind d = KindForward"
  shows "\<exists>p. d_prefix d = Some p \<and> prefix_contains p (w_dest w) \<and> complete w s FIB
    \<and> hops \<noteq> [] \<and> d_hops d = hops
    \<and> (\<forall>ob\<in>set (w_model w). row_at s FIB ob \<longrightarrow>
         (o_routes_complete ob \<longrightarrow> (\<exists>r\<in>set (o_routes ob). r_prefix r = p))
         \<and> (\<forall>r\<in>set (o_routes ob). r_prefix r = p \<longrightarrow>
              \<not> r_discard r \<and> length (r_hops r) = length hops \<and> cover_each_other (r_hops r) hops))"
  using assms(3)
proof (cases rule: decide_cases)
  case (chosen q bs as)
  have q: "q = FIB"
    using chosen(1) by (auto simp: forwarding_planes_def Cons_eq_append_conv)
  obtain p ps where c: "candidates w s FIB = p # ps"
    using chosen(3) q by (cases "candidates w s FIB") auto
  let ?ans = "lookup_route (w_model w) (s_node s) (s_vrf s) FIB p"
  have p: "has_route w s FIB p" "prefix_contains p (w_dest w)"
    using set_candidates [of p w s FIB] c by auto
  have m: "masked p = p" "prefix_valid (masked p)"
    using has_route_masked [OF assms(1,2) p(1)] by auto
  note f = choose_route_forward [OF chosen(4) assms(4), unfolded q c list.sel]
  obtain e where e: "e \<in> set (ans_evidence ?ans)" "hops = r_hops (ev_route e)" "\<not> r_discard (ev_route e)"
    using most_named_in [OF lookup_present(1) [OF f(1) m(2)]] f(3,4) by metis
  have rows: "\<not> r_discard r \<and> length (r_hops r) = length hops \<and> cover_each_other (r_hops r) hops"
    if "ob \<in> set (w_model w)" "row_at s FIB ob" "r \<in> set (o_routes ob)" "r_prefix r = p" for ob r
  proof -
    have "\<lparr>ev_prov = o_prov ob, ev_route = r\<rparr> \<in> set (ans_evidence ?ans)"
      using lookup_rows(1) [OF m(2)] that m(1) by (auto simp: states_prefix_def about_def row_at_def)
    then have "same_forwarding r (ev_route e)"
      using f(2) e(1) unfolding agree_on_forwarding_iff by force
    then show ?thesis
      using e(2,3) hops.same_width same_hops_covers [of "r_hops r"] same_hops_covers [of hops "r_hops r"] hops.same_sym
      by (auto simp: same_forwarding_def cover_each_other_def)
  qed
  have "\<exists>r\<in>set (o_routes ob). r_prefix r = p"
    if "ob \<in> set (w_model w)" "row_at s FIB ob" "o_routes_complete ob" for ob
    using lookup_present(2) [OF f(1) m(2), of "o_prov ob"] that m(1)
    by (auto simp: proves_absent_def about_def row_at_def)
  with rows show ?thesis
    using p(2) f(5) choose_route_fields(2,6,7) [OF chosen(4)] assms(4) q c by auto
qed (use assms(4) in \<open>auto simp: leaf_decision_def\<close>)

theorem fib_forward_proven_witness:
  "complete (new_walker sample_topology sample_dest) (at ''r1'' ''default'') FIB"
proof -
  let ?w = "new_walker sample_topology sample_dest"
  obtain d hops where dh: "decide ?w forwarding_planes (at ''r1'' ''default'') = (d, hops)" by fastforce
  have "d_kind (fst (decide ?w forwarding_planes (at ''r1'' ''default''))) = KindForward"
    by code_simp
  moreover have "wf_model (w_model ?w)"
    using new_model_sound [OF sample_model_accepted] by (simp add: new_walker_def sample_topology_def Let_def)
  ultimately show ?thesis
    using fib_forward_proven [OF wf_new_walker _ dh] dh by auto
qed

end
