(* ===== verification/Sever.thy ===== *)
theory Sever
  imports Decide
begin

text \<open>
  What a simulated failure does to one segment: \<^verbatim>\<open>segmentEnds\<close> of
  \<^verbatim>\<open>asymmetry.go\<close>, the reach of a walk of \<^verbatim>\<open>drift.go\<close>, and the cuts, the tunnel
  risks and the held addresses of \<^verbatim>\<open>failure.go\<close>. A walk writes its trace: the node
  budget, whether a bound stopped it, its notes, and what it met of the failure.
\<close>

record trace =
  tr_budget :: nat
  tr_truncated :: bool
  tr_notes :: "walk_note list"
  tr_touched :: bool
  tr_lost :: "hop option"
  tr_nested :: "endpoint option"

definition touch :: "trace \<Rightarrow> trace" where
  "touch tr = tr\<lparr>tr_touched := True\<rparr>"

section \<open>The ends of a segment\<close>

record step =
  st_at :: state
  st_iface :: string
  st_hop :: addr
  st_outcome :: outcome

definition subnets_of :: "walker \<Rightarrow> endpoint \<Rightarrow> addr \<Rightarrow> prefix list" where
  "subnets_of w e target =
     foldl append_new [] [masked p. ob \<leftarrow> w_obs w,
       o_node ob = e_node e \<and> o_vrf ob = e_vrf e \<and> o_plane ob \<in> set read_planes,
       i \<leftarrow> o_ifaces ob, i_name i = e_iface e, p \<leftarrow> i_addrs i, prefix_contains p target]"

definition owner_ifaces :: "walker \<Rightarrow> state \<Rightarrow> addr \<Rightarrow> string list" where
  "owner_ifaces w s target =
     sort_func three_way (foldl append_new [] [i_name i. ob \<leftarrow> w_obs w,
       o_node ob = s_node s \<and> o_vrf ob = s_vrf s \<and> o_plane ob \<in> set read_planes,
       i \<leftarrow> o_ifaces ob, p \<leftarrow> i_addrs i, plain_addr (prefix_addr p) = target])"

definition owner_iface :: "walker \<Rightarrow> state \<Rightarrow> addr \<Rightarrow> string option" where
  "owner_iface w s target = (case owner_ifaces w s target of [name] \<Rightarrow> Some name | _ \<Rightarrow> None)"

definition endpoint_at :: "state \<Rightarrow> string \<Rightarrow> endpoint" where
  "endpoint_at s iface = \<lparr>e_node = s_node s, e_vrf = s_vrf s, e_iface = iface\<rparr>"

definition segment_ends :: "walker \<Rightarrow> step \<Rightarrow> step \<Rightarrow> addr \<Rightarrow> end_reason + endpoint \<times> endpoint" where
  "segment_ends w s next dest =
     (if st_iface s = [] then Inl (NoEgressName (st_at s))
      else let target = (if st_hop s \<noteq> ZeroAddr then plain_addr (st_hop s) else dest);
               near = endpoint_at (st_at s) (st_iface s);
               near_nets = subnets_of w near target
      in if near_nets = [] then Inl (NoSubnet near target)
         else case owner_iface w (st_at next) target of
           None \<Rightarrow> Inl (NoSingleIface (st_at next) target)
         | Some iface \<Rightarrow>
             (let far = endpoint_at (st_at next) iface; far_nets = subnets_of w far target
              in if set far_nets \<inter> set near_nets = {}
                 then Inl (NoSharedSubnet far target far_nets near near_nets)
                 else Inr (near, far)))"

definition bare_step :: "state \<Rightarrow> string \<Rightarrow> addr \<Rightarrow> step" where
  "bare_step s iface nh = \<lparr>st_at = s, st_iface = iface, st_hop = nh, st_outcome = OutcomeNone\<rparr>"

section \<open>Reach\<close>

datatype reach = ReachOK | ReachUnknown | ReachFailed

fun reach_rank :: "reach \<Rightarrow> nat" where
  "reach_rank ReachOK = 0"
| "reach_rank ReachUnknown = 1"
| "reach_rank ReachFailed = 2"

lemma reach_rank_inject: "reach_rank a = reach_rank b \<longleftrightarrow> a = b"
  by (cases a; cases b) auto

instantiation reach :: linorder
begin
definition less_eq_reach :: "reach \<Rightarrow> reach \<Rightarrow> bool" where
  "less_eq_reach a b \<longleftrightarrow> reach_rank a \<le> reach_rank b"
definition less_reach :: "reach \<Rightarrow> reach \<Rightarrow> bool" where
  "less_reach a b \<longleftrightarrow> reach_rank a < reach_rank b"
instance
  by standard (auto simp: less_eq_reach_def less_reach_def reach_rank_inject)
end

definition via_outcome :: "hop \<Rightarrow> outcome" where
  "via_outcome h = (case h_via h of None \<Rightarrow> OutcomeNone | Some seg \<Rightarrow> seg_outcome seg)"

definition own_reach :: "decision \<Rightarrow> reach" where
  "own_reach d =
     (if d_kind d = KindLocal then ReachOK
      else if d_kind d = KindForward then (if d_proven d then ReachOK else ReachUnknown)
      else if d_kind d \<in> {KindNoRoute, KindDiscard, KindLoop, KindFailed} then ReachFailed
      else ReachUnknown)"

definition leg_reach :: "hop \<Rightarrow> reach \<Rightarrow> reach" where
  "leg_reach c r = (if via_outcome c \<noteq> OutcomeNone \<and> via_outcome c \<noteq> OutcomePass then max r ReachUnknown else r)"

text \<open>One hop of \<^verbatim>\<open>reachOf\<close>, from the reach of each leg under it.\<close>

definition reach_step :: "decision \<Rightarrow> (hop \<times> reach) list \<Rightarrow> reach" where
  "reach_step d legs =
     (let cut_short = length legs < length (d_hops d);
          r = (if cut_short then max (own_reach d) ReachUnknown else own_reach d);
          live = (\<exists>(c, _)\<in>set legs. h_kind c \<noteq> KindFailed)
      in if \<not> live \<and> legs \<noteq> [] \<and> (d_shadowed d \<noteq> [] \<or> cut_short) then ReachUnknown
         else foldl (\<lambda>r (c, cr). if live \<and> h_kind c = KindFailed then r else max r (leg_reach c cr)) r legs)"

fun reach_of :: "hop \<Rightarrow> reach" where
  "reach_of (Hop s via d next) = reach_step d (map (\<lambda>c. (c, reach_of c)) next)"

definition reach_below :: "(state \<Rightarrow> reach) \<Rightarrow> hop \<Rightarrow> reach" where
  "reach_below below h =
     reach_step (h_decision h)
       (map (\<lambda>c. (c, if s_node (h_at c) \<noteq> [] then below (h_at c) else reach_of c)) (h_next h))"

text \<open>The first hop whose selected route has BGP rows, and those rows.\<close>

definition bgp_rows :: "hop \<Rightarrow> support list" where
  "bgp_rows h =
     (if h_kind h = KindForward then filter (\<lambda>e. sup_origin e = origin_bgp) (d_evidence (h_decision h)) else [])"

definition bgp_forwarding :: "hop \<Rightarrow> (hop \<times> support list) option" where
  "bgp_forwarding h =
     (case filter (\<lambda>x. bgp_rows x \<noteq> []) (walk_hops h) of [] \<Rightarrow> None | x # _ \<Rightarrow> Some (x, bgp_rows x))"

section \<open>Cuts\<close>

definition unknown_leaf :: "segment \<Rightarrow> reason \<Rightarrow> support list \<Rightarrow> hop" where
  "unknown_leaf seg why ev = Hop nowhere (Some seg) ((leaf_decision KindUnknown why)\<lparr>d_evidence := ev\<rparr>) []"

definition failed_leaf :: "segment \<Rightarrow> failure \<Rightarrow> hop" where
  "failed_leaf seg f = Hop nowhere (Some seg) (leaf_decision KindFailed (CrossesFailure f)) []"

definition cut_leaf :: "segment \<Rightarrow> failure \<Rightarrow> reason option \<Rightarrow> hop" where
  "cut_leaf seg f why = (case why of Some r \<Rightarrow> unknown_leaf seg r [] | None \<Rightarrow> failed_leaf seg f)"

text \<open>
  Each cut is in two parts: \<open>None\<close> when the segment does not cross the failure, \<open>Some None\<close>
  when it does, and \<open>Some (Some why)\<close> when the evidence cannot decide.
\<close>

definition gateway_cut :: "walker \<Rightarrow> failure \<Rightarrow> gateway \<Rightarrow> state \<Rightarrow> next_hop \<Rightarrow> reason option option" where
  "gateway_cut w f gw s n =
     (let target = target_of w n
      in if s \<noteq> at (f_node f) (f_vrf f) \<or> target \<noteq> gw_addr gw then None
         else if f_iface f \<noteq> [] \<and> nh_iface n \<noteq> [] \<and> nh_iface n \<noteq> f_iface f then None
         else if f_iface f \<noteq> [] \<and> nh_iface n = [] then Some (Some (NoIfaceForLostHop s target (f_iface f)))
         else if \<not> addr_valid (nh_addr n) then Some (Some (LostHopItself target s))
         else Some None)"

definition arrival_cut :: "walker \<Rightarrow> failure \<Rightarrow> state \<Rightarrow> next_hop \<Rightarrow> state \<Rightarrow> reason option option" where
  "arrival_cut w f s n far =
     (case segment_ends w (bare_step s (nh_iface n) (nh_addr n)) (bare_step far [] ZeroAddr) (w_dest w) of
        Inl why \<Rightarrow> Some (Some (EndsUnknown why (f_iface f)))
      | Inr (_, e) \<Rightarrow> if e_iface e \<noteq> f_iface f then None else Some None)"

definition element_cut :: "walker \<Rightarrow> failure \<Rightarrow> state \<Rightarrow> next_hop \<Rightarrow> reason option option" where
  "element_cut w f s n =
     (let to = (case owners w (target_of w n) of [s'] \<Rightarrow> Some s' | _ \<Rightarrow> None)
      in if f_iface f = [] then (case to of Some s' \<Rightarrow> if s_node s' = f_node f then Some None else None | None \<Rightarrow> None)
         else if s_node s = f_node f \<and> nh_iface n = f_iface f then Some None
         else if s_node s = f_node f \<and> nh_iface n = [] then Some (Some (NamesNoIface s (nh_addr n) (f_iface f)))
         else if s_node s = f_node f then None
         else case to of
           None \<Rightarrow> None
         | Some s' \<Rightarrow> if s_node s' \<noteq> f_node f then None else arrival_cut w f s n s')"

definition evidence_origins :: "support list \<Rightarrow> string list" where
  "evidence_origins ev =
     sort_func three_way (foldl append_new [] (map sup_origin (filter (\<lambda>e. \<not> sup_absent e) ev)))"

definition link_cut :: "walker \<Rightarrow> failure \<Rightarrow> state \<Rightarrow> next_hop \<Rightarrow> reason option option" where
  "link_cut w f s n =
     (let leaves = (s = at (f_node f) (f_vrf f))
      in if leaves \<and> nh_iface n = f_iface f then Some None
         else if leaves \<and> nh_iface n = [] then Some (Some (NamesNoIface s (nh_addr n) (f_iface f)))
         else if leaves then None
         else if owners w (target_of w n) \<noteq> [at (f_node f) (f_vrf f)] then None
         else arrival_cut w f s n (at (f_node f) (f_vrf f)))"

definition adjacency_cut ::
  "walker \<Rightarrow> failure \<Rightarrow> adjacency \<Rightarrow> state \<Rightarrow> next_hop \<Rightarrow> support list \<Rightarrow> reason option option" where
  "adjacency_cut w f adj s n ev =
     (let origins = evidence_origins ev; leaves = (s = at (f_node f) (f_vrf f))
      in if origin_bgp \<in> set origins then Some (Some (ByBgpRoute s))
         else case link_cut w f s n of
           None \<Rightarrow> None
         | Some why \<Rightarrow>
             (if \<forall>or\<in>set origins. or = origin_connected \<or> or = origin_static then None
              else case why of
                Some r \<Rightarrow> Some (Some r)
              | None \<Rightarrow>
                  (if origins \<noteq> [origin_ospf] then Some (Some (ByOrigin s origins))
                   else case adj_why adj of
                     Some r \<Rightarrow> Some (Some (LinkUnproven r))
                   | None \<Rightarrow>
                       if leaves \<and> nh_addr n \<noteq> adj_addr adj
                         then Some (Some (NotNeighborAddress (nh_addr n) (f_iface f) (adj_addr adj)))
                       else if \<not> leaves \<and> s_node s \<noteq> f_ospf f
                         then Some (Some (NotRecordedNeighbor (f_iface f) (s_node s) (f_ospf f)))
                       else Some None)))"

definition sever ::
  "walker \<Rightarrow> failure \<Rightarrow> trace \<Rightarrow> state \<Rightarrow> next_hop \<Rightarrow> segment \<Rightarrow> support list \<Rightarrow> trace \<times> hop option" where
  "sever w f tr s n seg ev =
     (case (case w_gw w of
              Some gw \<Rightarrow> gateway_cut w f gw s n
            | None \<Rightarrow> (case w_adj w of Some adj \<Rightarrow> adjacency_cut w f adj s n ev | None \<Rightarrow> element_cut w f s n)) of
        None \<Rightarrow> (tr, None)
      | Some why \<Rightarrow>
          (let h = cut_leaf seg f why;
               lost' = (if w_gw w = None \<and> w_adj w \<noteq> None \<and> why \<noteq> None \<and> tr_lost tr = None then Some h else tr_lost tr)
           in ((touch tr)\<lparr>tr_lost := lost'\<rparr>, Some h)))"

section \<open>Held addresses and tunnels\<close>

definition held_on_failure :: "walker \<Rightarrow> state \<Rightarrow> reason option" where
  "held_on_failure w s =
     (case w_fail w of
        None \<Rightarrow> None
      | Some f \<Rightarrow>
          (let names = owner_ifaces w s (w_dest w)
           in if w_adj w \<noteq> None \<or> w_gw w \<noteq> None \<or> f_iface f = [] \<or> f_node f \<noteq> s_node s then None
              else if f_iface f \<notin> set names then None
              else if 1 < length names then Some (HeldSeveral s (w_dest w) names (f_iface f))
              else Some (HeldDown s (w_dest w) (f_iface f))))"

definition beyond_tunnel :: "walker \<Rightarrow> tunnel \<Rightarrow> next_hop \<Rightarrow> (reason \<times> support list) option" where
  "beyond_tunnel w t n =
     (case (owners w (target_of w n), owners w (t_remote t)) of
        ([peer], [remote]) \<Rightarrow>
          (if w_dest w = t_remote t \<or> s_node peer \<noteq> s_node remote then None
           else case held_on_failure w peer of
             None \<Rightarrow> None
           | Some why \<Rightarrow> Some (why, own_supports (owned w (w_dest w) peer)))
      | _ \<Rightarrow> None)"

definition tunnel_end :: "tunnel \<Rightarrow> endpoint" where
  "tunnel_end t = \<lparr>e_node = t_node t, e_vrf = t_vrf t, e_iface = t_iface t\<rparr>"

definition failed_via :: "hop \<Rightarrow> segment option" where
  "failed_via h =
     (case filter (\<lambda>x. h_kind x = KindFailed) (walk_hops h) of [] \<Rightarrow> None | x # _ \<Rightarrow> h_via x)"

text \<open>
  The underlay of a tunnel is walked by \<open>sub\<close>, which gets the tunnel and the trace; the
  walk spends the budget and can be truncated, and the rest of the trace is restored.
\<close>

definition underlay_risk ::
  "(tunnel \<Rightarrow> trace \<Rightarrow> trace \<times> hop) \<Rightarrow> walker \<Rightarrow> trace \<Rightarrow> tunnel \<Rightarrow> trace \<times> reason option" where
  "underlay_risk sub w tr t =
     (case sub t (tr\<lparr>tr_touched := False, tr_lost := None, tr_nested := None\<rparr>) of (tr1, h) \<Rightarrow>
       (tr\<lparr>tr_budget := tr_budget tr1, tr_truncated := tr_truncated tr1, tr_nested := None\<rparr>,
        let e = tunnel_end t; start = at (t_node t) (t_under_vrf t); cut = failed_via h
        in case tr_nested tr1 of
             Some inner \<Rightarrow> Some (UnderlayNested e start (t_remote t) inner)
           | None \<Rightarrow>
               if tr_touched tr1 then
                 (case (cut, w_adj w, tr_lost tr1) of
                    (None, Some _, Some (Hop _ (Some seg) d _)) \<Rightarrow>
                      Some (UnderlayLost e start (t_remote t) seg (d_reason d))
                  | _ \<Rightarrow> Some (UnderlayMeets e start (t_remote t) cut))
               else if reach_of h \<noteq> ReachOK then Some (UnderlayUnproven e start (t_remote t))
               else if w_gw w = None \<and> w_adj w = None then
                 (case bgp_forwarding h of
                    Some (x, rows) \<Rightarrow>
                      Some (UnderlayBgp e start (t_remote t) (d_prefix (h_decision x)) (h_at x) rows)
                  | None \<Rightarrow> None)
               else None))"

definition rides_tunnel :: "state \<Rightarrow> next_hop \<Rightarrow> tunnel \<Rightarrow> bool" where
  "rides_tunnel s n t \<longleftrightarrow>
     t_node t = s_node s \<and> t_vrf t = s_vrf s \<and> (nh_iface n = [] \<or> nh_iface n = t_iface t)"

definition tunnel_why ::
  "(tunnel \<Rightarrow> trace \<Rightarrow> trace \<times> hop) \<Rightarrow> walker \<Rightarrow> trace \<Rightarrow> next_hop \<Rightarrow> tunnel \<Rightarrow> trace \<times> reason option" where
  "tunnel_why sub w tr n t =
     (let target = target_of w n;
          other = (case (owners w target, owners w (t_remote t)) of
                     ([peer], [remote]) \<Rightarrow>
                       if s_node peer \<noteq> s_node remote then Some (peer, remote) else None
                   | _ \<Rightarrow> None)
      in if other \<noteq> None \<and> nh_iface n = [] then (tr, None)
         else if w_underlay w then
           (tr\<lparr>tr_nested := (case tr_nested tr of None \<Rightarrow> Some (tunnel_end t) | e \<Rightarrow> e)\<rparr>,
            Some (RidesTunnel (tunnel_end t)))
         else case other of
           Some (peer, remote) \<Rightarrow> (tr, Some (Multipoint (tunnel_end t) target peer (t_remote t) remote))
         | None \<Rightarrow> underlay_risk sub w tr t)"

fun tunnel_risk ::
  "(tunnel \<Rightarrow> trace \<Rightarrow> trace \<times> hop) \<Rightarrow> walker \<Rightarrow> trace \<Rightarrow> state \<Rightarrow> next_hop \<Rightarrow> tunnel list
     \<Rightarrow> trace \<times> (tunnel \<times> reason) option" where
  "tunnel_risk sub w tr s n [] = (tr, None)"
| "tunnel_risk sub w tr s n (t # ts) =
     (if \<not> rides_tunnel s n t then tunnel_risk sub w tr s n ts
      else case tunnel_why sub w tr n t of
        (tr1, None) \<Rightarrow> tunnel_risk sub w tr1 s n ts
      | (tr1, Some why) \<Rightarrow>
          (tr1, Some (t, if nh_iface n = [] then MayLeaveBy s (nh_addr n) (tunnel_end t) why else why)))"

end
