(* ===== verification/Walk.thy ===== *)
theory Walk
  imports Sever
begin

text \<open>
  The walk of \<^verbatim>\<open>walk.go\<close>: \<open>arrive\<close> is what it does at one place before it follows
  next hops, \<open>resolve_step\<close> where one next hop leads, and \<open>walk\<close> with \<open>walk_legs\<close> the
  recursion. The laws are its bounds, and what a tree says of the path to each hop.
\<close>

section \<open>One place\<close>

definition max_depth :: nat where "max_depth = 32"
definition max_states :: nat where "max_states = 512"
definition max_fanout :: nat where "max_fanout = 64"

text \<open>The evaluated policy makes forwarding unknown at the place it applies to.\<close>

definition policy_unproven :: "policy_evaluation \<Rightarrow> state \<Rightarrow> bool" where
  "policy_unproven p s \<longleftrightarrow>
     s_node s = pol_node (pe_selector p) \<and> s_vrf s = pol_vrf (pe_selector p)
     \<and> (pol_direction (pe_selector p) = ''export'' \<or> pe_considered p \<noteq> pe_unchanged p
        \<or> pe_unrecorded_after p = ''unknown'')"

definition policy_supports :: "policy_evaluation \<Rightarrow> support list" where
  "policy_supports p = map row_support (pe_evidence p)"

definition follow_decision :: "walker \<Rightarrow> plane list \<Rightarrow> trace \<Rightarrow> state \<Rightarrow> trace \<times> decision \<times> next_hop list" where
  "follow_decision w planes tr s =
     (case decide w planes s of (d, hops) \<Rightarrow>
        if d_kind d \<noteq> KindForward then (tr, d, [])
        else (tr\<lparr>tr_truncated := tr_truncated tr \<or> max_fanout < length hops\<rparr>, d, hops))"

definition arrive ::
  "walker \<Rightarrow> plane list \<Rightarrow> trace \<Rightarrow> state \<Rightarrow> state list \<Rightarrow> trace \<times> decision \<times> next_hop list" where
  "arrive w planes tr s path =
     (if s \<in> set path then (tr, leaf_decision KindLoop ReturnsToPath, [])
      else if max_depth \<le> length path \<or> tr_budget tr = 0
        then (tr\<lparr>tr_truncated := True\<rparr>, leaf_decision KindTruncated BoundReached, [])
      else
        (let tr1 = tr\<lparr>tr_budget := tr_budget tr - 1\<rparr>; rows = owned w (w_dest w) s
         in if rows \<noteq> [] then
              (case held_on_failure w s of
                 Some why \<Rightarrow> (touch tr1, leaf_decision KindUnknown why, [])
               | None \<Rightarrow>
                   (case local_decision w planes s rows of (d, ns) \<Rightarrow>
                      (tr1\<lparr>tr_notes := tr_notes tr @ ns @ note_other_owners w s rows\<rparr>, d, [])))
            else case w_policy w of
              Some p \<Rightarrow>
                if policy_unproven p s
                  then (touch tr1, (leaf_decision KindUnknown (PolicyUnproven (pol_name (pe_selector p))))
                          \<lparr>d_evidence := policy_supports p\<rparr>, [])
                  else follow_decision w planes tr1 s
            | None \<Rightarrow> follow_decision w planes tr1 s))"

section \<open>One next hop\<close>

type_synonym risk = "trace \<Rightarrow> state \<Rightarrow> next_hop \<Rightarrow> trace \<times> (tunnel \<times> reason) option"

definition settle :: "walker \<Rightarrow> state \<Rightarrow> next_hop \<Rightarrow> segment \<Rightarrow> hop + state" where
  "settle w s n seg =
     (case owners w (target_of w n) of
        [s'] \<Rightarrow> Inr s'
      | [] \<Rightarrow>
          if \<not> addr_valid (nh_addr n)
            then Inl (Hop nowhere (Some seg) (leaf_decision KindOnLink (OnLinkThrough (nh_iface n))) [])
            else Inl (Hop nowhere (Some seg) (leaf_decision KindUnresolved (NoOwner (nh_addr n) (neighbor_claim w s n))) [])
      | ss \<Rightarrow> Inl (Hop nowhere (Some seg) (leaf_decision KindAmbiguous (SeveralOwners (target_of w n) ss)) []))"

definition tunnel_leaf :: "walker \<Rightarrow> segment \<Rightarrow> next_hop \<Rightarrow> tunnel \<Rightarrow> reason \<Rightarrow> hop" where
  "tunnel_leaf w seg n t why =
     (case beyond_tunnel w t n of
        None \<Rightarrow> unknown_leaf seg why (sort_supports [row_support (t_prov t)])
      | Some (beyond, rows) \<Rightarrow>
          unknown_leaf seg (IfTunnelCrossed why beyond) (sort_supports (row_support (t_prov t) # rows)))"

definition resolve_step ::
  "risk \<Rightarrow> walker \<Rightarrow> trace \<Rightarrow> state \<Rightarrow> next_hop \<Rightarrow> segment \<Rightarrow> support list \<Rightarrow> trace \<times> (hop + state)" where
  "resolve_step risk w tr s n seg ev =
     (case w_fail w of
        None \<Rightarrow> (tr, settle w s n seg)
      | Some f \<Rightarrow>
          (case sever w f tr s n seg ev of
             (tr1, Some leaf) \<Rightarrow> (tr1, Inl leaf)
           | (tr1, None) \<Rightarrow>
               (case risk tr1 s n of
                  (tr2, Some (t, why)) \<Rightarrow> (touch tr2, Inl (tunnel_leaf w seg n t why))
                | (tr2, None) \<Rightarrow> (tr2, settle w s n seg))))"

definition segment_of :: "walker \<Rightarrow> state \<Rightarrow> next_hop list \<Rightarrow> next_hop \<Rightarrow> segment" where
  "segment_of w s hops n =
     (case outcome_of w s n (length (filter (\<lambda>m. nh_iface m = nh_iface n) hops)) of (out, cs) \<Rightarrow>
        \<lparr>seg_from = s_node s, seg_vrf = s_vrf s, seg_iface = nh_iface n, seg_hop = nh_addr n,
         seg_outcome = out, seg_checks = cs\<rparr>)"

section \<open>The walk\<close>

lemma arrive_hops:
  "arrive w planes tr s path = (tr1, d, hops) \<Longrightarrow> hops \<noteq> [] \<Longrightarrow> length path < max_depth"
  by (auto simp: arrive_def split: if_splits)

text \<open>
  \<open>walk_legs\<close> is the loop over the next hops of one place: \<open>hops\<close> are all of them, and the
  last argument those it still follows, at most \<open>max_fanout\<close>.
\<close>

function (sequential) walk ::
  "risk \<Rightarrow> walker \<Rightarrow> plane list \<Rightarrow> trace \<Rightarrow> state \<Rightarrow> segment option \<Rightarrow> state list \<Rightarrow> trace \<times> hop"
  and walk_legs ::
  "risk \<Rightarrow> walker \<Rightarrow> plane list \<Rightarrow> trace \<Rightarrow> state \<Rightarrow> support list \<Rightarrow> next_hop list \<Rightarrow> state list
     \<Rightarrow> next_hop list \<Rightarrow> trace \<times> hop list" where
  "walk risk w planes tr s via path =
     (case arrive w planes tr s path of (tr1, d, hops) \<Rightarrow>
        if hops = [] then (tr1, Hop s via d [])
        else case walk_legs risk w planes tr1 s (d_evidence d) hops (path @ [s]) (take max_fanout hops) of
          (tr2, next) \<Rightarrow> (tr2, Hop s via d next))"
| "walk_legs risk w planes tr s ev hops branch [] = (tr, [])"
| "walk_legs risk w planes tr s ev hops branch (n # ns) =
     (case resolve_step risk w tr s n (segment_of w s hops n) ev of
        (tr1, Inl h) \<Rightarrow>
          (case walk_legs risk w planes tr1 s ev hops branch ns of (tr3, hs) \<Rightarrow> (tr3, h # hs))
      | (tr1, Inr s') \<Rightarrow>
          (case walk risk w planes tr1 s' (Some (segment_of w s hops n)) branch of (tr2, h) \<Rightarrow>
             (case walk_legs risk w planes tr2 s ev hops branch ns of (tr3, hs) \<Rightarrow> (tr3, h # hs))))"
  by pat_completeness auto
termination
  by (relation "measures
       [\<lambda>x. case x of Inl (_, _, _, _, _, _, path) \<Rightarrow> 33 - length path
          | Inr (_, _, _, _, _, _, _, branch, _) \<Rightarrow> 33 - length branch,
        \<lambda>x. case x of Inl _ \<Rightarrow> 0 | Inr (_, _, _, _, _, _, _, _, ns) \<Rightarrow> Suc (length ns)]")
    (auto dest!: arrive_hops [OF sym] simp: max_depth_def)

declare walk.simps [simp del]

section \<open>Underlays, and a run from a source\<close>

definition risk_in :: "(tunnel \<Rightarrow> trace \<Rightarrow> trace \<times> hop) \<Rightarrow> walker \<Rightarrow> risk" where
  "risk_in sub w = (\<lambda>tr s n. tunnel_risk sub w tr s n (w_tunnels w))"

text \<open>A tunnel met during an underlay walk is not followed, so its walk is never asked for.\<close>

definition not_followed :: "tunnel \<Rightarrow> trace \<Rightarrow> trace \<times> hop" where
  "not_followed t tr = (tr, Hop nowhere None (leaf_decision KindUnknown NoReason) [])"

definition underlay_walker :: "walker \<Rightarrow> tunnel \<Rightarrow> walker" where
  "underlay_walker w t = w\<lparr>w_dest := t_remote t, w_underlay := True\<rparr>"

definition walk_under :: "walker \<Rightarrow> tunnel \<Rightarrow> trace \<Rightarrow> trace \<times> hop" where
  "walk_under w t tr =
     (let w' = underlay_walker w t
      in walk (risk_in not_followed w') w' forwarding_planes tr (at (t_node t) (t_under_vrf t)) None [])"

definition walk_from :: "walker \<Rightarrow> plane list \<Rightarrow> trace \<Rightarrow> state \<Rightarrow> trace \<times> hop" where
  "walk_from w planes tr s = walk (risk_in (walk_under w) w) w planes tr s None []"

definition run :: "walker \<Rightarrow> plane list \<Rightarrow> trace \<Rightarrow> state \<Rightarrow> trace \<times> hop" where
  "run w planes tr s =
     walk_from w planes (tr\<lparr>tr_budget := max_states, tr_truncated := False, tr_notes := []\<rparr>) s"

lemma underlay_not_followed:
  "w_underlay w \<Longrightarrow> tunnel_risk sub w tr s n ts = tunnel_risk sub' w tr s n ts"
proof (induction sub w tr s n ts rule: tunnel_risk.induct)
  case (2 sub w tr s n t ts)
  have "tunnel_why sub w tr n t = tunnel_why sub' w tr n t"
    using "2.prems" by (simp add: tunnel_why_def Let_def)
  with 2 show ?case
    by (auto split: prod.splits option.splits)
qed simp

definition start_trace :: trace where
  "start_trace = \<lparr>tr_budget = 0, tr_truncated = False, tr_notes = [], tr_touched = False,
     tr_lost = None, tr_nested = None\<rparr>"

end
