(* ===== verification/Walk_Laws.thy ===== *)
theory Walk_Laws
  imports Walk
begin

text \<open>
  The laws of a walk. \<open>walk_tree\<close> is the walk as a relation between a place, the path above
  it and the tree below it, without the trace; every walk is one, and the shape of the trees
  follows by rule induction. The bounds on the node visits follow from the recursion itself.
\<close>

section \<open>The walk as a relation\<close>

inductive walk_tree :: "walker \<Rightarrow> plane list \<Rightarrow> state list \<Rightarrow> hop \<Rightarrow> bool"
  and walk_leg :: "walker \<Rightarrow> plane list \<Rightarrow> state list \<Rightarrow> state \<Rightarrow> support list \<Rightarrow> next_hop list \<Rightarrow> next_hop \<Rightarrow> hop \<Rightarrow> bool"
  for w planes where
  node: "arrive w planes tr s path = (tr1, d, hops) \<Longrightarrow>
    list_all2 (walk_leg w planes (path @ [s]) s (d_evidence d) hops) (take max_fanout hops) next \<Longrightarrow>
    walk_tree w planes path (Hop s via d next)"
| go: "settle w s n (segment_of w s hops n) = Inr s' \<Longrightarrow> walk_tree w planes branch c \<Longrightarrow> h_at c = s' \<Longrightarrow>
    h_via c = Some (segment_of w s hops n) \<Longrightarrow> walk_leg w planes branch s ev hops n c"
| stop: "resolve_step risk w tr s n (segment_of w s hops n) ev = (tr1, Inl c) \<Longrightarrow>
    walk_leg w planes branch s ev hops n c"

lemma resolve_step_Inr: "resolve_step risk w tr s n seg ev = (tr1, Inr s') \<Longrightarrow> settle w s n seg = Inr s'"
  by (auto simp: resolve_step_def split: option.splits prod.splits)

lemma walk_is_tree:
  "walk risk w planes tr s via path = (tr', h) \<Longrightarrow> walk_tree w planes path h \<and> h_at h = s \<and> h_via h = via"
  "walk_legs risk w planes tr s ev hops branch ns = (tr', cs) \<Longrightarrow>
     list_all2 (walk_leg w planes branch s ev hops) ns cs"
proof (induction risk w planes tr s via path and risk w planes tr s ev hops branch ns
    arbitrary: tr' h and tr' cs rule: walk_walk_legs.induct)
  case (1 risk w planes tr s via path)
  obtain tr1 d hops where a: "arrive w planes tr s path = (tr1, d, hops)"
    by (metis prod_cases3)
  show ?case
  proof (cases "hops = []")
    case True
    then show ?thesis
      using 1(2) a by (auto simp: walk.simps intro: node)
  next
    case False
    then obtain tr2 "next" where l: "walk_legs risk w planes tr1 s (d_evidence d) hops (path @ [s]) (take max_fanout hops) = (tr2, next)"
      by fastforce
    with 1 a False show ?thesis
      by (auto simp: walk.simps intro: node)
  qed
next
  case (2 risk w planes tr s ev hops branch)
  then show ?case by simp
next
  case (3 risk w planes tr s ev hops branch n ns)
  then show ?case
    by (auto split: prod.splits sum.splits intro: stop go dest: resolve_step_Inr)
qed

inductive_cases walk_treeE: "walk_tree w planes path (Hop s via d next)"
inductive_cases walk_legE: "walk_leg w planes branch s ev hops n c"

lemma run_is_tree:
  assumes "run w planes tr s = (tr', h)"
  shows "walk_tree w planes [] h" "h_at h = s" "h_via h = None"
  using assms walk_is_tree(1) unfolding run_def walk_from_def by blast+

section \<open>Places and leaves\<close>

lemma arrive_cases:
  assumes "arrive w planes tr s path = (tr1, d, hops)"
  obtains (loop) "s \<in> set path" "d = leaf_decision KindLoop ReturnsToPath" "hops = []" "tr1 = tr"
  | (bound) "s \<notin> set path" "max_depth \<le> length path \<or> tr_budget tr = 0"
      "d = leaf_decision KindTruncated BoundReached" "hops = []" "tr1 = tr\<lparr>tr_truncated := True\<rparr>"
  | (held) why where "s \<notin> set path" "owned w (w_dest w) s \<noteq> []" "held_on_failure w s = Some why"
      "d = leaf_decision KindUnknown why" "hops = []" "tr_touched tr1"
      "tr_truncated tr1 = tr_truncated tr" "tr_budget tr1 + 1 = tr_budget tr"
  | (local) "s \<notin> set path" "owned w (w_dest w) s \<noteq> []" "held_on_failure w s = None"
      "d = fst (local_decision w planes s (owned w (w_dest w) s))" "hops = []"
      "tr_truncated tr1 = tr_truncated tr" "tr_touched tr1 = tr_touched tr" "tr_budget tr1 + 1 = tr_budget tr"
  | (policy) p where "s \<notin> set path" "w_policy w = Some p" "policy_unproven p s" "d_kind d = KindUnknown" "hops = []"
      "tr_truncated tr1 = tr_truncated tr" "tr_touched tr1" "tr_budget tr1 + 1 = tr_budget tr" "d_hops d = []"
  | (decided) "s \<notin> set path" "owned w (w_dest w) s = []" "length path < max_depth"
      "d = fst (decide w planes s)" "hops = d_hops d" "hops \<noteq> [] \<longleftrightarrow> d_kind d = KindForward"
      "tr_truncated tr1 \<longleftrightarrow> tr_truncated tr \<or> max_fanout < length hops"
      "tr_touched tr1 = tr_touched tr" "tr_budget tr1 + 1 = tr_budget tr"
proof -
  note eq = assms [unfolded arrive_def]
  show thesis
  proof (cases "s \<in> set path \<or> max_depth \<le> length path \<or> tr_budget tr = 0")
    case True
    then show thesis using eq loop bound by (auto split: if_splits)
  next
    case False
    then have in_bounds: "s \<notin> set path" "length path < max_depth" "0 < tr_budget tr" by auto
    show thesis
    proof (cases "owned w (w_dest w) s = []")
      case owns: False
      show thesis
        using eq in_bounds owns held local
        by (auto simp: Let_def touch_def split: option.splits prod.splits)
    next
      case none: True
      obtain dd hh where dh: "decide w planes s = (dd, hh)" by fastforce
      note h = decide_hops [OF dh]
      have follow: "d = fst (decide w planes s) \<and> hops = d_hops d \<and> (hops \<noteq> [] \<longleftrightarrow> d_kind d = KindForward)
          \<and> (tr_truncated tr1 \<longleftrightarrow> tr_truncated tr \<or> max_fanout < length hops)
          \<and> tr_touched tr1 = tr_touched tr \<and> tr_budget tr1 + 1 = tr_budget tr"
        if "follow_decision w planes (tr\<lparr>tr_budget := tr_budget tr - 1\<rparr>) s = (tr1, d, hops)"
        using that dh h in_bounds by (auto simp: follow_decision_def split: if_splits)
      show thesis
      proof (cases "\<exists>p. w_policy w = Some p \<and> policy_unproven p s")
        case True
        then show thesis
          using eq in_bounds none policy by (auto simp: Let_def touch_def leaf_decision_def)
      next
        case False
        then have "follow_decision w planes (tr\<lparr>tr_budget := tr_budget tr - 1\<rparr>) s = (tr1, d, hops)"
          using eq in_bounds none by (auto simp: Let_def split: option.splits if_splits)
        from follow [OF this] show thesis
          using decided [OF in_bounds(1) none in_bounds(2)] by blast
      qed
    qed
  qed
qed

definition stop_kinds :: "kind set" where
  "stop_kinds = {KindFailed, KindUnknown, KindOnLink, KindUnresolved, KindAmbiguous}"

lemma settle_Inl:
  "settle w s n seg = Inl c \<Longrightarrow> h_at c = nowhere \<and> h_via c = Some seg \<and> h_next c = []
    \<and> h_kind c \<in> {KindOnLink, KindUnresolved, KindAmbiguous} \<and> d_hops (h_decision c) = []"
  by (auto simp: settle_def leaf_decision_def split: list.splits if_splits)

lemma settle_Inr: "settle w s n seg = Inr s' \<longleftrightarrow> owners w (target_of w n) = [s']"
  by (auto simp: settle_def split: list.splits)

lemma cut_leaf_shape:
  "h_at (cut_leaf seg f why) = nowhere" "h_via (cut_leaf seg f why) = Some seg" "h_next (cut_leaf seg f why) = []"
  "h_kind (cut_leaf seg f why) = (if why = None then KindFailed else KindUnknown)"
  "d_hops (h_decision (cut_leaf seg f why)) = []"
  by (auto simp: cut_leaf_def failed_leaf_def unknown_leaf_def leaf_decision_def split: option.splits)

lemma sever_leaf:
  assumes "sever w f tr s n seg ev = (tr1, Some c)"
  obtains why where "c = cut_leaf seg f why" "tr_touched tr1" "tr_truncated tr1 = tr_truncated tr"
    "tr_budget tr1 = tr_budget tr"
  using assms by (auto simp: sever_def Let_def touch_def split: option.splits)

lemma tunnel_leaf_shape:
  "h_at (tunnel_leaf w seg n t why) = nowhere" "h_via (tunnel_leaf w seg n t why) = Some seg"
  "h_next (tunnel_leaf w seg n t why) = []" "h_kind (tunnel_leaf w seg n t why) = KindUnknown"
  "d_hops (h_decision (tunnel_leaf w seg n t why)) = []"
  by (auto simp: tunnel_leaf_def unknown_leaf_def leaf_decision_def split: option.splits prod.splits)

lemma resolve_step_Inl:
  assumes "resolve_step risk w tr s n seg ev = (tr1, Inl c)"
  shows "h_at c = nowhere" "h_via c = Some seg" "h_next c = []" "h_kind c \<in> stop_kinds"
    "d_hops (h_decision c) = []" "h_kind c = KindFailed \<Longrightarrow> w_fail w \<noteq> None"
  using assms
  by (auto simp: resolve_step_def cut_leaf_shape tunnel_leaf_shape stop_kinds_def
      dest!: settle_Inl elim!: sever_leaf split: option.splits prod.splits if_splits)

section \<open>Branches\<close>

lemma list_all2_rightD: "list_all2 P xs ys \<Longrightarrow> y \<in> set ys \<Longrightarrow> \<exists>x\<in>set xs. P x y"
  by (induction xs ys rule: list_all2_induct) auto

text \<open>Every branch of a tree, from its root down to each of its hops.\<close>

fun branches :: "hop \<Rightarrow> hop list list" where
  "branches (Hop s via d next) =
     [Hop s via d next] # map (\<lambda>b. Hop s via d next # b) (concat (map branches next))"

lemma branches_not_Nil [simp]: "[] \<notin> set (branches h)"
  by (cases h) auto

lemma branches_last: "x \<in> set (walk_hops h) \<longleftrightarrow> (\<exists>b\<in>set (branches h). last b = x)"
proof (induction h rule: walk_hops.induct)
  case (1 s via d "next")
  have nonempty: "c \<in> set next \<Longrightarrow> b \<in> set (branches c) \<Longrightarrow> b \<noteq> []" for b c
    using branches_not_Nil by metis
  show ?case
    using 1 nonempty by (auto 4 4)
qed

lemma branches_leaf: "h_next c = [] \<Longrightarrow> branches c = [[c]]"
  by (cases c) auto

text \<open>What holds of one branch below a path.\<close>

definition branch_ok :: "state list \<Rightarrow> hop list \<Rightarrow> bool" where
  "branch_ok path b \<longleftrightarrow>
     distinct (path @ map h_at (butlast b)) \<and> length path + length (butlast b) \<le> max_depth
     \<and> (h_kind (last b) = KindLoop \<longrightarrow> h_at (last b) \<in> set (path @ map h_at (butlast b)))
     \<and> (h_kind (last b) \<noteq> KindLoop \<longrightarrow> h_at (last b) \<noteq> nowhere \<longrightarrow>
          h_at (last b) \<notin> set (path @ map h_at (butlast b)))"

lemma local_decision_kind [simp]:
  "d_kind (fst (local_decision w planes s rows)) = KindLocal"
  "d_hops (fst (local_decision w planes s rows)) = []"
  by (auto simp: local_decision_def Let_def leaf_decision_def)

lemma decide_kind_not_loop: "d_kind (fst (decide w planes s)) \<in> {KindForward, KindDiscard, KindNoRoute, KindUnknown, KindConflicting}"
  using decide_hops(3) [of w planes s] by (metis surj_pair fst_conv)

lemma arrive_loop_iff:
  assumes "arrive w planes tr s path = (tr1, d, hops)"
  shows "d_kind d = KindLoop \<longleftrightarrow> s \<in> set path"
  using assms decide_kind_not_loop [of w planes s]
  by (cases rule: arrive_cases) (auto simp: leaf_decision_def)

lemma tree_branches:
  "walk_tree w planes path h \<Longrightarrow> distinct path \<Longrightarrow> length path \<le> max_depth \<Longrightarrow> b \<in> set (branches h) \<Longrightarrow> branch_ok path b"
  "walk_leg w planes branch s ev hops n c \<Longrightarrow> distinct branch \<Longrightarrow> length branch \<le> max_depth \<Longrightarrow>
     b \<in> set (branches c) \<Longrightarrow> branch_ok branch b"
proof (induction arbitrary: b and b rule: walk_tree_walk_leg.inducts)
  case (node tr s path tr1 d hops "next" via)
  show ?case
  proof (cases "b = [Hop s via d next]")
    case True
    then show ?thesis
      using node arrive_loop_iff [OF node(1)] by (auto simp: branch_ok_def)
  next
    case False
    then obtain c b' where b: "b = Hop s via d next # b'" "c \<in> set next" "b' \<in> set (branches c)"
      using node.prems(3) by auto
    then obtain n where n: "n \<in> set (take max_fanout hops)"
      and leg: "distinct (path @ [s]) \<longrightarrow> length (path @ [s]) \<le> max_depth \<longrightarrow>
        (\<forall>x. x \<in> set (branches c) \<longrightarrow> branch_ok (path @ [s]) x)"
      using list_all2_rightD [OF node(2)] by blast
    then have "hops \<noteq> []" by auto
    then have path: "length path < max_depth" "s \<notin> set path"
      using node(1) arrive_hops [OF node(1)] by (auto simp: arrive_def split: if_splits)
    have "branch_ok (path @ [s]) b'"
      using leg b(3) path node.prems by auto
    moreover have "b' \<noteq> []" using b(3) branches_not_Nil by metis
    ultimately show ?thesis
      using b(1) by (auto simp: branch_ok_def)
  qed
next
  case (stop risk tr s n hops ev tr1 c branch)
  note leaf = resolve_step_Inl [OF stop(1)]
  then have "b = [c]" using stop.prems branches_leaf by simp
  then show ?case
    using leaf stop.prems by (auto simp: branch_ok_def stop_kinds_def)
qed auto

section \<open>Bounds\<close>

definition visited :: "hop \<Rightarrow> bool" where
  "visited x \<longleftrightarrow> h_at x \<noteq> nowhere \<and> h_kind x \<noteq> KindLoop \<and> h_kind x \<noteq> KindTruncated"

definition visits :: "hop \<Rightarrow> nat" where
  "visits h = length (filter visited (walk_hops h))"

text \<open>Every hop was followed in full: no bound cut the tree.\<close>

definition followed :: "hop \<Rightarrow> bool" where
  "followed x \<longleftrightarrow> h_kind x \<noteq> KindTruncated \<and> length (h_next x) = length (d_hops (h_decision x))"

definition spends :: "trace \<Rightarrow> trace \<Rightarrow> bool" where
  "spends tr tr' \<longleftrightarrow> tr_budget tr' \<le> tr_budget tr \<and> (tr_truncated tr \<longrightarrow> tr_truncated tr')
     \<and> (tr_touched tr \<longrightarrow> tr_touched tr')"

lemma spends_refl [simp]: "spends tr tr"
  by (simp add: spends_def)

lemma spends_trans: "spends a b \<Longrightarrow> spends b c \<Longrightarrow> spends a c"
  by (auto simp: spends_def)

definition risk_spends :: "risk \<Rightarrow> bool" where
  "risk_spends risk \<longleftrightarrow> (\<forall>tr s n. spends tr (fst (risk tr s n)))"

lemma arrive_spends:
  assumes "arrive w planes tr s path = (tr1, d, hops)"
  shows "spends tr tr1" "d_hops d = hops" "\<not> tr_truncated tr1 \<Longrightarrow> d_kind d \<noteq> KindTruncated \<and> length hops \<le> max_fanout"
    "tr_budget tr1 + (if d_kind d = KindLoop \<or> d_kind d = KindTruncated then 0 else 1) \<le> tr_budget tr"
  using assms decide_kind_not_loop [of w planes s]
  by (cases rule: arrive_cases; auto simp: spends_def leaf_decision_def)+

lemma resolve_step_spends:
  assumes "risk_spends risk" "resolve_step risk w tr s n seg ev = (tr1, r)"
  shows "spends tr tr1"
proof -
  have sever: "spends tr (fst (sever w f tr s n seg ev))" for f
    by (auto simp: sever_def Let_def touch_def spends_def split: option.splits)
  show ?thesis
  proof (cases "w_fail w")
    case None
    then show ?thesis using assms(2) by (simp add: resolve_step_def)
  next
    case (Some f)
    obtain tr2 cut where s: "sever w f tr s n seg ev = (tr2, cut)" by fastforce
    obtain tr3 rk where k: "risk tr2 s n = (tr3, rk)" by fastforce
    have "spends tr tr2" "spends tr2 tr3"
      using sever [of f] s assms(1) k unfolding risk_spends_def by (metis fst_conv)+
    then show ?thesis
      using assms(2) Some s k
      by (auto simp: resolve_step_def spends_def touch_def split: option.splits)
  qed
qed

lemma visits_simps [simp]:
  "visits (Hop s via d next) = (if visited (Hop s via d next) then 1 else 0) + sum_list (map visits next)"
proof -
  have "length (filter visited (concat (map walk_hops next))) = sum_list (map visits next)"
    by (induction "next") (auto simp: visits_def)
  then show ?thesis by (simp add: visits_def)
qed

lemma walk_bounds:
  "walk risk w planes tr s via path = (tr', h) \<Longrightarrow> risk_spends risk \<Longrightarrow>
     spends tr tr' \<and> visits h + tr_budget tr' \<le> tr_budget tr
     \<and> (\<not> tr_truncated tr' \<longrightarrow> (\<forall>x\<in>set (walk_hops h). followed x))"
  "walk_legs risk w planes tr s ev hops branch ns = (tr', cs) \<Longrightarrow> risk_spends risk \<Longrightarrow>
     spends tr tr' \<and> sum_list (map visits cs) + tr_budget tr' \<le> tr_budget tr \<and> length cs = length ns
     \<and> (\<not> tr_truncated tr' \<longrightarrow> (\<forall>c\<in>set cs. \<forall>x\<in>set (walk_hops c). followed x))"
proof (induction risk w planes tr s via path and risk w planes tr s ev hops branch ns
    arbitrary: tr' h and tr' cs rule: walk_walk_legs.induct)
  case (1 risk w planes tr s via path)
  obtain tr1 d hops where a: "arrive w planes tr s path = (tr1, d, hops)"
    by (metis prod_cases3)
  note ar = arrive_spends [OF a]
  show ?case
  proof (cases "hops = []")
    case True
    then show ?thesis
      using 1(2) a ar by (auto simp: walk.simps followed_def visited_def)
  next
    case False
    obtain tr2 "next" where l: "walk_legs risk w planes tr1 s (d_evidence d) hops (path @ [s]) (take max_fanout hops) = (tr2, next)"
      by fastforce
    have h: "tr' = tr2" "h = Hop s via d next"
      using 1(2) a False l by (auto simp: walk.simps)
    have ih: "spends tr1 tr2" "sum_list (map visits next) + tr_budget tr2 \<le> tr_budget tr1"
      "length next = length (take max_fanout hops)"
      "\<not> tr_truncated tr2 \<longrightarrow> (\<forall>c\<in>set next. \<forall>x\<in>set (walk_hops c). followed x)"
      using 1(1) [OF a [symmetric] refl False l 1(3)] by auto
    have "visits h + tr_budget tr' \<le> tr_budget tr"
      using h ih(2) ar(4) by (auto simp: visited_def)
    moreover have "\<not> tr_truncated tr' \<longrightarrow> (\<forall>x\<in>set (walk_hops h). followed x)"
      using h ih ar by (auto simp: followed_def spends_def)
    ultimately show ?thesis
      using spends_trans [OF ar(1) ih(1)] h(1) by simp
  qed
next
  case (2 risk w planes tr s ev hops branch)
  then show ?case by simp
next
  case (3 risk w planes tr s ev hops branch n ns)
  obtain tr1 r where r: "resolve_step risk w tr s n (segment_of w s hops n) ev = (tr1, r)"
    by fastforce
  have sp: "spends tr tr1"
    by (rule resolve_step_spends [OF 3(5) r])
  show ?case
  proof (cases r)
    case (Inl c)
    obtain tr3 hs where l: "walk_legs risk w planes tr1 s ev hops branch ns = (tr3, hs)" by fastforce
    note leaf = resolve_step_Inl [OF r [unfolded Inl]]
    have "visits c = 0" "followed c" "walk_hops c = [c]"
      using leaf by (cases c; auto simp: visited_def followed_def stop_kinds_def)+
    moreover have "tr' = tr3" "cs = c # hs"
      using 3(4) r Inl l by auto
    ultimately show ?thesis
      using 3(1) [OF r [symmetric] Inl l 3(5)] sp spends_trans [OF sp]
      by (auto simp: spends_def)
  next
    case (Inr s')
    obtain tr2 c where c: "walk risk w planes tr1 s' (Some (segment_of w s hops n)) branch = (tr2, c)" by fastforce
    obtain tr3 hs where l: "walk_legs risk w planes tr2 s ev hops branch ns = (tr3, hs)" by fastforce
    have "tr' = tr3" "cs = c # hs"
      using 3(4) r Inr c l by auto
    then show ?thesis
      using 3(2) [OF r [symmetric] Inr c 3(5)] 3(3) [OF r [symmetric] Inr c [symmetric] l 3(5)] sp
      by (auto simp: spends_def)
  qed
qed

section \<open>Tunnels spend too\<close>

definition sub_spends :: "(tunnel \<Rightarrow> trace \<Rightarrow> trace \<times> hop) \<Rightarrow> bool" where
  "sub_spends sub \<longleftrightarrow> (\<forall>t tr. spends tr (fst (sub t tr)))"

lemma underlay_risk_spends:
  assumes "sub_spends sub"
  shows "spends tr (fst (underlay_risk sub w tr t))"
proof -
  obtain tr1 h where s: "sub t (tr\<lparr>tr_touched := False, tr_lost := None, tr_nested := None\<rparr>) = (tr1, h)"
    by fastforce
  then have "spends (tr\<lparr>tr_touched := False, tr_lost := None, tr_nested := None\<rparr>) tr1"
    using assms unfolding sub_spends_def by (metis fst_conv)
  then show ?thesis
    using s by (simp add: underlay_risk_def spends_def)
qed

lemma tunnel_why_spends:
  "sub_spends sub \<Longrightarrow> spends tr (fst (tunnel_why sub w tr n t))"
  using underlay_risk_spends [of sub tr w t]
  by (auto simp: tunnel_why_def Let_def spends_def split: option.splits prod.splits)

lemma tunnel_risk_spends:
  "sub_spends sub \<Longrightarrow> spends tr (fst (tunnel_risk sub w tr s n ts))"
proof (induction sub w tr s n ts rule: tunnel_risk.induct)
  case (2 sub w tr s n t ts)
  obtain tr1 r where r: "tunnel_why sub w tr n t = (tr1, r)" by fastforce
  have "spends tr tr1"
    using tunnel_why_spends [OF 2(3), of tr w n t] r by simp
  then show ?case
    using 2 r by (auto split: option.splits intro: spends_trans)
qed simp

lemma risk_in_spends: "sub_spends sub \<Longrightarrow> risk_spends (risk_in sub w)"
  by (simp add: risk_spends_def risk_in_def tunnel_risk_spends)

lemma walk_under_spends [simp]: "sub_spends (walk_under w)"
proof -
  have "sub_spends not_followed"
    by (simp add: sub_spends_def not_followed_def)
  then have risk: "risk_spends (risk_in not_followed (underlay_walker w t))" for t
    by (rule risk_in_spends)
  show ?thesis
    unfolding sub_spends_def walk_under_def Let_def
    using walk_bounds(1) [OF _ risk] by (metis prod.collapse)
qed

lemma run_bounds:
  assumes "run w planes tr s = (tr', h)"
  shows "visits h + tr_budget tr' \<le> max_states"
    "\<not> tr_truncated tr' \<Longrightarrow> x \<in> set (walk_hops h) \<Longrightarrow> followed x"
    "tr_touched tr \<Longrightarrow> tr_touched tr'"
  using walk_bounds(1) [OF assms [unfolded run_def walk_from_def] risk_in_spends [OF walk_under_spends]]
  by (auto simp: spends_def)

text \<open>
  C24. A walk never goes round. The places on every branch above its end are different, at
  most 32 of them; a branch that comes back to one of its own places ends there, marked as a
  loop, and nothing else is ever marked as a loop.
\<close>

theorem walk_loop_free:
  assumes "run w planes tr s = (tr', h)" "b \<in> set (branches h)"
  shows "distinct (map h_at (butlast b)) \<and> length (butlast b) \<le> max_depth
    \<and> (h_kind (last b) = KindLoop \<longrightarrow> h_at (last b) \<in> set (map h_at (butlast b)))
    \<and> (h_kind (last b) \<noteq> KindLoop \<and> h_at (last b) \<noteq> nowhere \<longrightarrow> h_at (last b) \<notin> set (map h_at (butlast b)))"
  using tree_branches(1) [OF run_is_tree(1) [OF assms(1)] _ _ assms(2)] by (simp add: branch_ok_def)

lemma sample_run:
  "\<exists>tr h. run (new_walker sample_topology sample_dest) forwarding_planes start_trace (at ''r1'' ''default'') = (tr, h)
    \<and> \<not> tr_truncated tr \<and> h_kind h = KindForward \<and> map h_kind (h_next h) = [KindLocal] \<and> reach_of h = ReachOK
    \<and> map (\<lambda>b. map (\<lambda>x. s_node (h_at x)) b) (branches h) = [[''r1''], [''r1'', ''r2'']]"
proof -
  let ?r = "run (new_walker sample_topology sample_dest) forwarding_planes start_trace (at ''r1'' ''default'')"
  have "case ?r of (tr, h) \<Rightarrow> \<not> tr_truncated tr \<and> h_kind h = KindForward \<and> map h_kind (h_next h) = [KindLocal]
      \<and> reach_of h = ReachOK
      \<and> map (\<lambda>b. map (\<lambda>x. s_node (h_at x)) b) (branches h) = [[''r1''], [''r1'', ''r2'']]"
    by code_simp
  then show ?thesis by (cases ?r) simp
qed

theorem walk_loop_free_witness:
  "\<exists>b. map (\<lambda>x. s_node (h_at x)) b = [''r1'', ''r2''] \<and> distinct (map h_at (butlast b))"
proof -
  obtain tr h where run: "run (new_walker sample_topology sample_dest) forwarding_planes start_trace (at ''r1'' ''default'') = (tr, h)"
    and shape: "map (\<lambda>b. map (\<lambda>x. s_node (h_at x)) b) (branches h) = [[''r1''], [''r1'', ''r2'']]"
    using sample_run by (elim exE conjE) (rule that)
  have "[''r1'', ''r2''] \<in> set (map (\<lambda>b. map (\<lambda>x. s_node (h_at x)) b) (branches h))"
    unfolding shape by simp
  then obtain b where b: "[''r1'', ''r2''] = map (\<lambda>x. s_node (h_at x)) b" "b \<in> set (branches h)"
    unfolding set_map by (rule imageE)
  from walk_loop_free [OF run b(2)] have "distinct (map h_at (butlast b))"
    by (rule conjunct1)
  with b(1) [symmetric] show ?thesis
    by (intro exI conjI)
qed



section \<open>What a tree says\<close>

text \<open>The leg of one next hop: its segment, and the only owner of where it leads.\<close>

definition leg_of :: "walker \<Rightarrow> state \<Rightarrow> next_hop \<Rightarrow> hop \<Rightarrow> bool" where
  "leg_of w s n c \<longleftrightarrow>
     (\<exists>seg. h_via c = Some seg \<and> seg_from seg = s_node s \<and> seg_vrf seg = s_vrf s
        \<and> seg_iface seg = nh_iface n \<and> seg_hop seg = nh_addr n)
     \<and> (h_at c \<noteq> nowhere \<longrightarrow> owners w (target_of w n) = [h_at c])
     \<and> (h_at c = nowhere \<and> h_next c \<noteq> [] \<longrightarrow> owners w (target_of w n) = [nowhere])"

definition decided_by :: "walker \<Rightarrow> plane list \<Rightarrow> hop \<Rightarrow> bool" where
  "decided_by w planes x \<longleftrightarrow>
     (h_kind x \<in> {KindForward, KindNoRoute, KindDiscard, KindConflicting} \<longrightarrow>
        h_decision x = fst (decide w planes (h_at x)) \<and> owned w (w_dest w) (h_at x) = [])
     \<and> (if h_kind x = KindForward
         then list_all2 (leg_of w (h_at x)) (take max_fanout (d_hops (h_decision x))) (h_next x)
         else h_next x = [] \<and> d_hops (h_decision x) = [])
     \<and> (h_kind x = KindLocal \<longrightarrow> h_at x \<in> set (owners w (w_dest w)))
     \<and> (h_kind x = KindFailed \<longrightarrow> w_fail w \<noteq> None)"

lemma segment_of_fields [simp]:
  "seg_from (segment_of w s hops n) = s_node s" "seg_vrf (segment_of w s hops n) = s_vrf s"
  "seg_iface (segment_of w s hops n) = nh_iface n" "seg_hop (segment_of w s hops n) = nh_addr n"
  by (simp_all add: segment_of_def split: prod.splits)

lemma walk_leg_of: "walk_leg w planes branch s ev hops n c \<Longrightarrow> leg_of w s n c"
  by (erule walk_legE) (auto simp: leg_of_def settle_Inr dest: resolve_step_Inl)

lemma tree_decided:
  "walk_tree w planes path h \<Longrightarrow> x \<in> set (walk_hops h) \<Longrightarrow> decided_by w planes x"
  "walk_leg w planes branch s ev hops n c \<Longrightarrow> x \<in> set (walk_hops c) \<Longrightarrow> decided_by w planes x"
proof (induction arbitrary: x and x rule: walk_tree_walk_leg.inducts)
  case (node tr s path tr1 d hops "next" via)
  have legs: "list_all2 (leg_of w s) (take max_fanout hops) next"
    by (rule list_all2_mono [OF node(2)]) (auto intro: walk_leg_of)
  show ?case
  proof (cases "x = Hop s via d next")
    case True
    show ?thesis
      using node(1)
    proof (cases rule: arrive_cases)
      case decided
      then show ?thesis
        using True legs decide_kind_not_loop [of w planes s] by (auto simp: decided_by_def)
    qed (use True legs owned_Nil_iff in \<open>auto simp: decided_by_def leaf_decision_def\<close>)
  next
    case False
    then obtain c where "c \<in> set next" "x \<in> set (walk_hops c)"
      using node.prems by auto
    then show ?thesis
      using list_all2_rightD [OF node(2)] by blast
  qed
next
  case (stop risk tr s n hops ev tr1 c branch)
  note leaf = resolve_step_Inl [OF stop(1)]
  then have "x = c" using stop.prems by (cases c) simp
  then show ?case
    using leaf by (auto simp: decided_by_def stop_kinds_def)
qed auto

text \<open>
  A walk tree says what the evidence decides. Every hop that forwards, drops, lacks a
  route or conflicts carries exactly the decision of its own place, at a place that does not
  own the destination; a forwarding hop has one leg for each next hop of that decision, in
  order, up to 64, naming that next hop, and a leg leads to another place only when that
  place alone owns the next hop's address; a hop is local only where some recorded interface
  of its place holds the destination; and only a simulated failure makes a hop failed.
\<close>

theorem walk_follows_decisions:
  assumes "wf_walker w" "run w planes tr s = (tr', h)" "x \<in> set (walk_hops h)"
  shows "decided_by w planes x \<and> (h_kind x = KindLocal \<longrightarrow> lists_address (w_model w) (w_dest w) (h_at x))"
  using tree_decided(1) [OF run_is_tree(1) [OF assms(2)] assms(3)] set_owners [OF assms(1)]
  by (auto simp: decided_by_def)

theorem walk_follows_decisions_witness:
  "\<exists>h. h_kind h = KindForward \<and> decided_by (new_walker sample_topology sample_dest) forwarding_planes h"
proof -
  obtain tr h where run: "run (new_walker sample_topology sample_dest) forwarding_planes start_trace (at ''r1'' ''default'') = (tr, h)"
    and kind: "h_kind h = KindForward"
    using sample_run by (elim exE conjE) (rule that)
  have "h \<in> set (walk_hops h)" by (cases h) simp
  from walk_follows_decisions [OF wf_new_walker run this] kind show ?thesis
    by (intro exI [of _ h]) simp
qed

end
