(* ===== verification/Reach.thy ===== *)
theory Reach
  imports Walk_Laws
begin

text \<open>
  What the reach of a walk means, in terms of its branches: \<open>reach_of\<close> computes a maximum
  over a tree with exceptions for failed legs; the two theorems say when it is each verdict.
\<close>

section \<open>The order of the verdicts\<close>

lemma max_reach [simp]:
  "max a b = ReachOK \<longleftrightarrow> a = ReachOK \<and> b = ReachOK"
  "max a b = ReachFailed \<longleftrightarrow> a = ReachFailed \<or> b = ReachFailed"
  by (cases a; cases b; simp add: max_def less_eq_reach_def)+

lemma leg_reach_iff [simp]:
  "leg_reach c r = ReachOK \<longleftrightarrow> r = ReachOK \<and> via_outcome c \<in> {OutcomeNone, OutcomePass}"
  "leg_reach c r = ReachFailed \<longleftrightarrow> r = ReachFailed"
  by (auto simp: leg_reach_def)

lemma fold_legs:
  "foldl (\<lambda>r (c, cr). if P c then r else max r (leg_reach c cr)) r legs = ReachOK \<longleftrightarrow>
     r = ReachOK \<and> (\<forall>(c, cr)\<in>set legs. \<not> P c \<longrightarrow> leg_reach c cr = ReachOK)"
  "foldl (\<lambda>r (c, cr). if P c then r else max r (leg_reach c cr)) r legs = ReachFailed \<longleftrightarrow>
     r = ReachFailed \<or> (\<exists>(c, cr)\<in>set legs. \<not> P c \<and> leg_reach c cr = ReachFailed)"
proof -
  show "foldl (\<lambda>r (c, cr). if P c then r else max r (leg_reach c cr)) r legs = ReachOK \<longleftrightarrow>
     r = ReachOK \<and> (\<forall>(c, cr)\<in>set legs. \<not> P c \<longrightarrow> leg_reach c cr = ReachOK)"
    by (induction legs arbitrary: r) (auto split: if_splits)
  show "foldl (\<lambda>r (c, cr). if P c then r else max r (leg_reach c cr)) r legs = ReachFailed \<longleftrightarrow>
     r = ReachFailed \<or> (\<exists>(c, cr)\<in>set legs. \<not> P c \<and> leg_reach c cr = ReachFailed)"
  proof (induction legs arbitrary: r)
    case (Cons x legs)
    then show ?case by (cases x; cases "P (fst x)") (simp_all, blast?)
  qed simp
qed

text \<open>A walk never gives more legs than next hops, and only a forwarding hop has legs.\<close>

definition shaped :: "hop \<Rightarrow> bool" where
  "shaped x \<longleftrightarrow> length (h_next x) \<le> length (d_hops (h_decision x))
     \<and> (h_kind x = KindForward \<longleftrightarrow> h_next x \<noteq> [])
     \<and> (h_kind x \<noteq> KindForward \<longrightarrow> d_hops (h_decision x) = [])"

lemma decided_shaped:
  assumes "decided_by w planes x"
  shows "shaped x"
proof (cases "h_kind x = KindForward")
  case True
  then have d: "h_decision x = fst (decide w planes (h_at x))"
    and l: "list_all2 (leg_of w (h_at x)) (take max_fanout (d_hops (h_decision x))) (h_next x)"
    using assms by (auto simp: decided_by_def)
  have "d_hops (h_decision x) \<noteq> []"
    using decide_hops(1,2) [of w planes "h_at x"] d True by (metis prod.collapse)
  then show ?thesis
    using list_all2_lengthD [OF l] True by (cases "d_hops (h_decision x)") (auto simp: shaped_def max_fanout_def)
qed (use assms in \<open>auto simp: decided_by_def shaped_def\<close>)

definition live :: "hop list \<Rightarrow> bool" where
  "live b \<longleftrightarrow> (\<forall>x\<in>set b. h_kind x \<noteq> KindFailed)"

definition live_legs :: "hop \<Rightarrow> hop list" where
  "live_legs x = filter (\<lambda>c. h_kind c \<noteq> KindFailed) (h_next x)"

text \<open>A hop that passes the traffic on, and one that is left with no next hop at all.\<close>

definition passes :: "hop \<Rightarrow> bool" where
  "passes x \<longleftrightarrow> h_kind x = KindLocal
     \<or> (h_kind x = KindForward \<and> d_proven (h_decision x)
        \<and> length (h_next x) = length (d_hops (h_decision x)) \<and> live_legs x \<noteq> [])"

definition stranded :: "hop \<Rightarrow> bool" where
  "stranded x \<longleftrightarrow> h_next x \<noteq> [] \<and> live_legs x = [] \<and> d_shadowed (h_decision x) = []
     \<and> length (h_next x) = length (d_hops (h_decision x))"

lemma reach_failed_leg:
  assumes "shaped c" "h_kind c = KindFailed"
  shows "reach_of c = ReachFailed"
  using assms by (cases c) (auto simp: shaped_def reach_step_def own_reach_def)

lemma reach_step_cases:
  assumes "shaped (Hop s via d next)" "\<forall>c\<in>set next. shaped c"
  shows "reach_of (Hop s via d next) = ReachOK \<longleftrightarrow>
      passes (Hop s via d next)
      \<and> (\<forall>c\<in>set next. h_kind c \<noteq> KindFailed \<longrightarrow> reach_of c = ReachOK \<and> via_outcome c \<in> {OutcomeNone, OutcomePass})"
    and "d_kind d \<noteq> KindFailed \<Longrightarrow> reach_of (Hop s via d next) = ReachFailed \<longleftrightarrow>
      d_kind d \<in> {KindNoRoute, KindDiscard, KindLoop} \<or> stranded (Hop s via d next)
      \<or> (\<exists>c\<in>set next. h_kind c \<noteq> KindFailed \<and> reach_of c = ReachFailed)"
proof -
  let ?h = "Hop s via d next"
  let ?legs = "map (\<lambda>c. (c, reach_of c)) next"
  define cut_short where "cut_short \<longleftrightarrow> length next \<noteq> length (d_hops d)"
  define r where "r = (if cut_short then max (own_reach d) ReachUnknown else own_reach d)"
  have r: "r = ReachOK \<longleftrightarrow> own_reach d = ReachOK \<and> \<not> cut_short" "r = ReachFailed \<longleftrightarrow> own_reach d = ReachFailed"
    by (auto simp: r_def)
  have short: "length next < length (d_hops d) \<longleftrightarrow> cut_short"
    using assms(1) by (auto simp: shaped_def cut_short_def)
  have live: "(\<exists>(c, _)\<in>set ?legs. h_kind c \<noteq> KindFailed) \<longleftrightarrow> live_legs ?h \<noteq> []"
    and none: "live_legs ?h = [] \<longleftrightarrow> (\<forall>c\<in>set next. h_kind c = KindFailed)"
    by (auto simp: live_legs_def filter_empty_conv)
  define F where "F = foldl (\<lambda>r (c, cr). if live_legs ?h \<noteq> [] \<and> h_kind c = KindFailed then r else max r (leg_reach c cr)) r ?legs"
  have unfold: "reach_of ?h = (if live_legs ?h = [] \<and> next \<noteq> [] \<and> (d_shadowed d \<noteq> [] \<or> cut_short) then ReachUnknown
      else F)"
    by (simp only: reach_of.simps reach_step_def Let_def live length_map short map_is_Nil_conv r_def F_def) simp
  have ok: "F = ReachOK
      \<longleftrightarrow> own_reach d = ReachOK \<and> \<not> cut_short \<and> (\<forall>c\<in>set next. \<not> (live_legs ?h \<noteq> [] \<and> h_kind c = KindFailed) \<longrightarrow>
            reach_of c = ReachOK \<and> via_outcome c \<in> {OutcomeNone, OutcomePass})"
    unfolding F_def fold_legs(1) r by auto
  have failed: "F = ReachFailed
      \<longleftrightarrow> own_reach d = ReachFailed \<or> (\<exists>c\<in>set next. \<not> (live_legs ?h \<noteq> [] \<and> h_kind c = KindFailed) \<and> reach_of c = ReachFailed)"
    unfolding F_def fold_legs(2) r by auto
  have own: "own_reach d = ReachOK \<longleftrightarrow> d_kind d = KindLocal \<or> d_kind d = KindForward \<and> d_proven d"
    "own_reach d = ReachFailed \<longleftrightarrow> d_kind d \<in> {KindNoRoute, KindDiscard, KindLoop, KindFailed}"
    by (auto simp: own_reach_def)
  have shape: "d_kind d = KindForward \<longleftrightarrow> next \<noteq> []" "d_kind d \<noteq> KindForward \<Longrightarrow> d_hops d = []"
    using assms(1) by (auto simp: shaped_def)
  have legs: "h_kind c = KindFailed \<Longrightarrow> reach_of c = ReachFailed" if "c \<in> set next" for c
    using reach_failed_leg assms(2) that by blast
  consider (leaf) "next = []" | (live) "next \<noteq> []" "live_legs ?h \<noteq> []" | (dead) "next \<noteq> []" "live_legs ?h = []"
    by blast
  then have both: "(reach_of ?h = ReachOK \<longleftrightarrow> passes ?h
        \<and> (\<forall>c\<in>set next. h_kind c \<noteq> KindFailed \<longrightarrow> reach_of c = ReachOK \<and> via_outcome c \<in> {OutcomeNone, OutcomePass}))
      \<and> (d_kind d \<noteq> KindFailed \<longrightarrow> (reach_of ?h = ReachFailed \<longleftrightarrow>
        d_kind d \<in> {KindNoRoute, KindDiscard, KindLoop} \<or> stranded ?h
        \<or> (\<exists>c\<in>set next. h_kind c \<noteq> KindFailed \<and> reach_of c = ReachFailed)))"
  proof cases
    case leaf
    then show ?thesis
      unfolding unfold using shape by (auto simp: ok failed own passes_def stranded_def cut_short_def)
  next
    case live
    then show ?thesis
      unfolding unfold using shape by (simp add: ok failed own passes_def stranded_def cut_short_def)
  next
    case dead
    have "\<exists>c\<in>set next. reach_of c = ReachFailed" "\<forall>c\<in>set next. reach_of c = ReachFailed"
      using dead none legs by (auto simp: neq_Nil_conv)
    then show ?thesis
      unfolding unfold using shape dead none by (auto simp: ok failed own passes_def stranded_def cut_short_def)
  qed
  then show "reach_of ?h = ReachOK \<longleftrightarrow> passes ?h
        \<and> (\<forall>c\<in>set next. h_kind c \<noteq> KindFailed \<longrightarrow> reach_of c = ReachOK \<and> via_outcome c \<in> {OutcomeNone, OutcomePass})"
    by blast
  show "d_kind d \<noteq> KindFailed \<Longrightarrow> reach_of ?h = ReachFailed \<longleftrightarrow>
      d_kind d \<in> {KindNoRoute, KindDiscard, KindLoop} \<or> stranded ?h
      \<or> (\<exists>c\<in>set next. h_kind c \<noteq> KindFailed \<and> reach_of c = ReachFailed)"
    using both by blast
qed

section \<open>Verdicts and branches\<close>

lemma branches_hd: "b \<in> set (branches h) \<Longrightarrow> b \<noteq> [] \<and> hd b = h"
  by (cases h) auto

lemma root_hop: "h \<in> set (walk_hops h)"
  by (cases h) simp

lemma root_branch: "[h] \<in> set (branches h)"
  by (cases h) simp

lemma live_Cons [simp]: "live (x # b) \<longleftrightarrow> h_kind x \<noteq> KindFailed \<and> live b"
  by (auto simp: live_def)

lemma live_branch: "b \<in> set (branches h) \<Longrightarrow> live b \<Longrightarrow> h_kind h \<noteq> KindFailed"
  by (metis branches_hd hd_in_set live_def)

lemma all_branches:
  "(\<forall>b\<in>set (branches (Hop s via d next)). P b) \<longleftrightarrow>
     P [Hop s via d next] \<and> (\<forall>c\<in>set next. \<forall>b\<in>set (branches c). P (Hop s via d next # b))"
  by auto

lemma ex_branches:
  "(\<exists>b\<in>set (branches (Hop s via d next)). P b) \<longleftrightarrow>
     P [Hop s via d next] \<or> (\<exists>c\<in>set next. \<exists>b\<in>set (branches c). P (Hop s via d next # b))"
  by auto

definition clean :: "hop \<Rightarrow> bool" where
  "clean x \<longleftrightarrow> via_outcome x \<in> {OutcomeNone, OutcomePass}"

lemma reach_ok_iff:
  assumes "\<forall>x\<in>set (walk_hops h). shaped x" "h_kind h \<noteq> KindFailed"
  shows "reach_of h = ReachOK \<longleftrightarrow>
    (\<forall>b\<in>set (branches h). live b \<longrightarrow> passes (last b) \<and> (\<forall>x\<in>set (tl b). clean x))"
  using assms
proof (induction h rule: reach_of.induct)
  case (1 s via d "next")
  let ?h = "Hop s via d next"
  let ?P = "\<lambda>b. live b \<longrightarrow> passes (last b) \<and> (\<forall>x\<in>set (tl b). clean x)"
  have shaped: "shaped ?h" "\<forall>c\<in>set next. shaped c"
    using 1(2) root_hop by auto
  have leg: "(h_kind c \<noteq> KindFailed \<longrightarrow> reach_of c = ReachOK \<and> clean c) \<longleftrightarrow> (\<forall>b\<in>set (branches c). ?P (?h # b))"
    if c: "c \<in> set next" for c
  proof (cases "h_kind c = KindFailed")
    case True
    then show ?thesis using live_branch by auto
  next
    case False
    have ih: "reach_of c = ReachOK \<longleftrightarrow> (\<forall>b\<in>set (branches c). ?P b)"
      using 1(1) [OF c] 1(2) c False by auto
    have P: "?P (?h # b) \<longleftrightarrow> (live b \<longrightarrow> clean c) \<and> ?P b" if "b \<in> set (branches c)" for b
      using branches_hd [OF that] 1(3) by (cases b) auto
    have root: "[c] \<in> set (branches c)" "live [c]"
      using False by (simp_all add: live_def root_branch)
    have "(\<forall>b\<in>set (branches c). ?P (?h # b)) \<longleftrightarrow> (\<forall>b\<in>set (branches c). (live b \<longrightarrow> clean c) \<and> ?P b)"
      by (rule ball_cong [OF refl P])
    then show ?thesis
      unfolding ih using False root by blast
  qed
  have root: "?P [?h] \<longleftrightarrow> passes ?h"
    using 1(3) by (simp add: live_def)
  from reach_step_cases(1) [OF shaped, folded clean_def] show ?case
    unfolding all_branches root
    by (elim trans) (intro arg_cong2 [where f = "(\<and>)"] refl ball_cong leg)
qed

lemma reach_failed_iff:
  assumes "\<forall>x\<in>set (walk_hops h). shaped x" "h_kind h \<noteq> KindFailed"
  shows "reach_of h = ReachFailed \<longleftrightarrow>
    (\<exists>b\<in>set (branches h). live b \<and> (h_kind (last b) \<in> {KindNoRoute, KindDiscard, KindLoop} \<or> stranded (last b)))"
  using assms
proof (induction h rule: reach_of.induct)
  case (1 s via d "next")
  let ?h = "Hop s via d next"
  let ?P = "\<lambda>b. live b \<and> (h_kind (last b) \<in> {KindNoRoute, KindDiscard, KindLoop} \<or> stranded (last b))"
  have shaped: "shaped ?h" "\<forall>c\<in>set next. shaped c"
    using 1(2) root_hop by auto
  have leg: "(h_kind c \<noteq> KindFailed \<and> reach_of c = ReachFailed) \<longleftrightarrow> (\<exists>b\<in>set (branches c). ?P (?h # b))"
    if c: "c \<in> set next" for c
  proof (cases "h_kind c = KindFailed")
    case True
    then show ?thesis using live_branch by auto
  next
    case False
    have ih: "reach_of c = ReachFailed \<longleftrightarrow> (\<exists>b\<in>set (branches c). ?P b)"
      using 1(1) [OF c] 1(2) c False by auto
    have "?P (?h # b) \<longleftrightarrow> ?P b" if "b \<in> set (branches c)" for b
      using branches_hd [OF that] 1(3) by (cases b) auto
    then show ?thesis
      using False ih by blast
  qed
  have root: "?P [?h] \<longleftrightarrow> d_kind d \<in> {KindNoRoute, KindDiscard, KindLoop} \<or> stranded ?h"
    using 1(3) by (simp add: live_def)
  have "d_kind d \<noteq> KindFailed" using 1(3) by simp
  from reach_step_cases(2) [OF shaped this] show ?case
    unfolding ex_branches root disj_assoc
    by (elim trans) (intro arg_cong2 [where f = "(\<or>)"] refl bex_cong leg)
qed

lemma arrive_not_failed:
  assumes "arrive w planes tr s path = (tr1, d, hops)"
  shows "d_kind d \<noteq> KindFailed"
  using assms decide_kind_not_loop [of w planes s]
  by (cases rule: arrive_cases) (auto simp: leaf_decision_def)

lemma run_shaped:
  assumes "run w planes tr s = (tr', h)"
  shows "\<forall>x\<in>set (walk_hops h). shaped x" "h_kind h \<noteq> KindFailed"
proof -
  note tree = run_is_tree(1) [OF assms]
  show "\<forall>x\<in>set (walk_hops h). shaped x"
    using tree_decided(1) [OF tree] decided_shaped by blast
  show "h_kind h \<noteq> KindFailed"
    using tree by (cases h) (auto elim!: walk_treeE dest: arrive_not_failed)
qed

text \<open>
  C26. A walk proves delivery exactly when every surviving branch does its part: each hop not
  behind a failed leg is either an owner of the destination, or forwards by a decision that a
  complete table backs, follows every next hop that decision names and has a leg left that
  did not fail; and no segment on a surviving branch has a recorded failure, a conflict or a
  check that could not be attributed.
\<close>

theorem reach_ok_characterised:
  assumes "run w planes tr s = (tr', h)"
  shows "reach_of h = ReachOK \<longleftrightarrow>
    (\<forall>b\<in>set (branches h). live b \<longrightarrow> passes (last b) \<and> (\<forall>x\<in>set (tl b). via_outcome x \<in> {OutcomeNone, OutcomePass}))"
  using reach_ok_iff [OF run_shaped [OF assms]] by (simp add: clean_def)

theorem reach_ok_characterised_witness:
  "\<exists>h. h_kind h = KindForward \<and> (\<forall>b\<in>set (branches h). live b \<longrightarrow> passes (last b))"
proof -
  obtain tr h where run: "run (new_walker sample_topology sample_dest) forwarding_planes start_trace (at ''r1'' ''default'') = (tr, h)"
    and kind: "h_kind h = KindForward" and ok: "reach_of h = ReachOK"
    using sample_run by (elim exE conjE) (rule that)
  from reach_ok_characterised [OF run] ok kind show ?thesis
    by (intro exI [of _ h]) blast
qed

text \<open>
  C27. A walk fails to deliver exactly when some surviving branch certainly loses the
  traffic: it ends at a place that drops it, proves no route for it or was already on the
  branch, or it reaches a place left with no next hop at all, where every leg crosses the
  simulated failure, every recorded next hop was followed and no less specific route matches.
\<close>

theorem reach_failed_characterised:
  assumes "run w planes tr s = (tr', h)"
  shows "reach_of h = ReachFailed \<longleftrightarrow>
    (\<exists>b\<in>set (branches h). live b \<and> (h_kind (last b) \<in> {KindNoRoute, KindDiscard, KindLoop} \<or> stranded (last b)))"
  by (rule reach_failed_iff [OF run_shaped [OF assms]])

theorem reach_failed_characterised_witness:
  "\<exists>h. reach_of h = ReachFailed \<and> (\<exists>b\<in>set (branches h). live b \<and> (h_kind (last b) \<in> {KindNoRoute, KindDiscard, KindLoop} \<or> stranded (last b)))"
proof -
  let ?r = "run (new_walker sample_topology (Addr4 0x0B000001)) forwarding_planes start_trace (at ''r1'' ''default'')"
  obtain tr h where run: "?r = (tr, h)" by fastforce
  have "reach_of (snd ?r) = ReachFailed" by code_simp
  with run have "reach_of h = ReachFailed" by simp
  with reach_failed_characterised [OF run] show ?thesis by blast
qed

end
