(* ===== verification/Explain.thy ===== *)
theory Explain
  imports Reach
begin

text \<open>
  The explanation of \<^verbatim>\<open>compare.go\<close> and \<^verbatim>\<open>walk.go\<close>: the two walks compared hop by
  hop, the regions that could hold a recorded failure, the limitations, and \<open>explain_walks\<close>
  which puts them together. The text of a finding or a limitation is a constructor with the
  values it prints.
\<close>

section \<open>Findings\<close>

text \<open>What \<^verbatim>\<open>describe\<close> prints of a decision.\<close>

datatype description = SaysNoRoute | SaysDiscard "prefix option" | SaysRoute "prefix option" "next_hop list"

definition describe :: "decision \<Rightarrow> description" where
  "describe d =
     (if d_kind d = KindNoRoute then SaysNoRoute
      else if d_kind d = KindDiscard then SaysDiscard (d_prefix d)
      else SaysRoute (d_prefix d) (d_hops d))"

datatype finding_detail =
    ExpectsFibLacks description
  | NoControlFibDiscards "prefix option"
  | NoControlFibForwards description
  | FibLessSpecific description description
  | FibHas description description
  | CheckFailedOn segment
  | ReturnsToNode string
  | EvidenceConflicts "plane option"

record finding =
  fi_kind :: finding_kind
  fi_at :: state
  fi_detail :: finding_detail

definition concrete :: "kind \<Rightarrow> bool" where
  "concrete k \<longleftrightarrow> k = KindForward \<or> k = KindDiscard \<or> k = KindNoRoute"

text \<open>The length of a prefix text; no prefix has length -1.\<close>

definition text_bits :: "prefix option \<Rightarrow> int" where
  "text_bits p = (case p of None \<Rightarrow> -1 | Some q \<Rightarrow> prefix_bits q)"

definition disagreement :: "decision \<Rightarrow> decision \<Rightarrow> (finding_kind \<times> finding_detail) option" where
  "disagreement e f =
     (let ek = d_kind e; fk = d_kind f
      in if \<not> concrete ek \<or> \<not> concrete fk then None
         else if ek = KindNoRoute \<and> fk = KindNoRoute then None
         else if fk = KindNoRoute then Some (FindingControlNotInFIB, ExpectsFibLacks (describe e))
         else if ek = KindNoRoute \<and> fk = KindDiscard then Some (FindingFIBDiffers, NoControlFibDiscards (d_prefix f))
         else if ek = KindNoRoute then Some (FindingFIBDiffers, NoControlFibForwards (describe f))
         else if d_prefix e \<noteq> d_prefix f \<and> text_bits (d_prefix f) < text_bits (d_prefix e)
           then Some (FindingControlNotInFIB, FibLessSpecific (describe e) (describe f))
         else if \<not> d_proven e then None
         else if d_prefix e \<noteq> d_prefix f \<or> ek \<noteq> fk \<or> \<not> same_hops (d_hops e) (d_hops f)
           then Some (FindingFIBDiffers, FibHas (describe e) (describe f))
         else None)"

definition expected_at :: "hop \<Rightarrow> state \<Rightarrow> hop option" where
  "expected_at ex s = (if s_node s = [] then None else find (\<lambda>h. h_at h = s) (walk_hops ex))"

definition compared :: "hop \<Rightarrow> bool" where
  "compared h \<longleftrightarrow> d_basis (h_decision h) = Some FIB \<and> s_node (h_at h) \<noteq> []"

definition agreement_of :: "hop \<Rightarrow> hop \<Rightarrow> agreement" where
  "agreement_of ex h =
     (if \<not> compared h then d_agreement (h_decision h)
      else case expected_at ex (h_at h) of
        None \<Rightarrow> AgreementUnknown
      | Some e \<Rightarrow>
          (if disagreement (h_decision e) (h_decision h) \<noteq> None then AgreementDisagrees
           else if d_proven (h_decision e) \<and> concrete (h_kind e) \<and> concrete (h_kind h) then AgreementAgrees
           else AgreementUnknown))"

definition condition_findings :: "hop \<Rightarrow> finding list" where
  "condition_findings h =
     (case h_kind h of
        KindLoop \<Rightarrow> [\<lparr>fi_kind = FindingLoop, fi_at = h_at h, fi_detail = ReturnsToNode (s_node (h_at h))\<rparr>]
      | KindConflicting \<Rightarrow>
          [\<lparr>fi_kind = FindingConflict, fi_at = h_at h, fi_detail = EvidenceConflicts (d_basis (h_decision h))\<rparr>]
      | _ \<Rightarrow> [])"

definition hop_findings :: "hop \<Rightarrow> hop \<Rightarrow> finding list" where
  "hop_findings ex h =
     (if compared h then
        (case expected_at ex (h_at h) of
           None \<Rightarrow> []
         | Some e \<Rightarrow>
             (case disagreement (h_decision e) (h_decision h) of
                None \<Rightarrow> []
              | Some (k, detail) \<Rightarrow> [\<lparr>fi_kind = k, fi_at = h_at h, fi_detail = detail\<rparr>]))
      else [])
     @ (case h_via h of
          None \<Rightarrow> []
        | Some seg \<Rightarrow>
            (if seg_outcome seg = OutcomeFail
             then [\<lparr>fi_kind = FindingForwardingFailed, fi_at = at (seg_from seg) (seg_vrf seg), fi_detail = CheckFailedOn seg\<rparr>]
             else []))
     @ condition_findings h"

fun mark_tree :: "hop \<Rightarrow> hop \<Rightarrow> hop" where
  "mark_tree ex (Hop s via d next) =
     Hop s via (d\<lparr>d_agreement := agreement_of ex (Hop s via d next)\<rparr>) (map (mark_tree ex) next)"

definition compare_walks :: "hop \<Rightarrow> hop \<Rightarrow> hop \<times> finding list" where
  "compare_walks ex fwd =
     (mark_tree ex fwd,
      foldl append_new [] (concat (map (hop_findings ex) (walk_hops fwd)) @ concat (map condition_findings (walk_hops ex))))"

section \<open>Failure regions\<close>

record region =
  rg_fail :: segment
  rg_candidates :: "segment list"

definition same_segment :: "segment \<Rightarrow> segment \<Rightarrow> bool" where
  "same_segment a b \<longleftrightarrow> seg_from a = seg_from b \<and> seg_vrf a = seg_vrf b \<and> seg_iface a = seg_iface b \<and> seg_hop a = seg_hop b"

definition add_segment :: "segment list \<Rightarrow> segment \<Rightarrow> segment list" where
  "add_segment segs seg = (if \<exists>t\<in>set segs. same_segment t seg then segs else segs @ [seg])"

definition segments_from :: "hop \<Rightarrow> segment list" where
  "segments_from h = [seg. c \<leftarrow> h_next h, seg \<leftarrow> (case h_via c of None \<Rightarrow> [] | Some s \<Rightarrow> [s])]"

definition failed_above :: "hop list \<Rightarrow> bool" where
  "failed_above full = (\<exists>h\<in>set (tl full). via_outcome h = OutcomeFail)"

text \<open>The hops of a branch from the last one reached with a recorded pass, or the source.\<close>

definition since_pass :: "hop list \<Rightarrow> hop list" where
  "since_pass points =
     (case points of
        [] \<Rightarrow> []
      | src # rest \<Rightarrow>
          (let after_pass = takeWhile (\<lambda>h. via_outcome h \<noteq> OutcomePass) (rev rest);
               n = length after_pass
           in if n = length rest then src # rest else drop (length rest - n - 1) rest))"

definition region_of :: "hop list \<Rightarrow> segment \<Rightarrow> region" where
  "region_of points fail =
     \<lparr>rg_fail = fail, rg_candidates = foldl add_segment [] (concat (map segments_from (since_pass points)))\<rparr>"

text \<open>\<open>up\<close> is the path to the hop; each leg is looked at before the tree under it.\<close>

fun region_visit :: "hop list \<Rightarrow> hop \<Rightarrow> region list" where
  "region_visit up (Hop s via d next) =
     (let points = up @ [Hop s via d next]
      in concat (map (\<lambda>c. (case h_via c of
            Some seg \<Rightarrow> (if seg_outcome seg = OutcomeFail \<and> \<not> failed_above points then [region_of points seg] else [])
          | None \<Rightarrow> []) @ region_visit points c) next))"

definition failure_regions :: "hop \<Rightarrow> region list" where
  "failure_regions root = region_visit [] root"

section \<open>Limitations\<close>

datatype walk_label = ExpectedWalk | ForwardingWalk

text \<open>A place in a text: a node, or the segment that led to a leaf without one.\<close>

datatype hop_label = AtNode state | OnSegment string string string addr

definition segment_label :: "segment \<Rightarrow> hop_label" where
  "segment_label seg = OnSegment (seg_from seg) (seg_vrf seg) (seg_iface seg) (seg_hop seg)"

definition node_label :: "hop \<Rightarrow> hop_label" where
  "node_label h =
     (case h_via h of
        Some seg \<Rightarrow> if s_node (h_at h) = [] then segment_label seg else AtNode (h_at h)
      | None \<Rightarrow> AtNode (h_at h))"

datatype limitation =
    LimUnknown hop_label walk_label reason
  | LimConflicts hop_label
  | LimLoop hop_label
  | LimTruncated hop_label
  | LimStops hop_label reason
  | LimOnLink hop_label string
  | LimUnproven hop_label
  | LimChecksDisagree hop_label "support list"
  | LimUnattributed hop_label "support list"
  | LimNote walk_note

definition hop_limitations :: "walk_label \<Rightarrow> hop \<Rightarrow> limitation list" where
  "hop_limitations wl h =
     (let lbl = node_label h
      in (case h_kind h of
            KindUnknown \<Rightarrow> [LimUnknown lbl wl (d_reason (h_decision h))]
          | KindConflicting \<Rightarrow> [LimConflicts lbl]
          | KindLoop \<Rightarrow> [LimLoop lbl]
          | KindTruncated \<Rightarrow> [LimTruncated lbl]
          | KindUnresolved \<Rightarrow> [LimStops lbl (d_reason (h_decision h))]
          | KindAmbiguous \<Rightarrow> [LimStops lbl (d_reason (h_decision h))]
          | KindOnLink \<Rightarrow> [LimOnLink lbl (case h_via h of Some seg \<Rightarrow> seg_iface seg | None \<Rightarrow> [])]
          | KindForward \<Rightarrow> (if \<not> d_proven (h_decision h) then [LimUnproven lbl] else [])
          | _ \<Rightarrow> [])
         @ (case h_via h of
              None \<Rightarrow> []
            | Some seg \<Rightarrow>
                (case seg_outcome seg of
                   OutcomeConflicting \<Rightarrow> [LimChecksDisagree (segment_label seg) (seg_checks seg)]
                 | OutcomeUnattributed \<Rightarrow> [LimUnattributed (segment_label seg) (seg_checks seg)]
                 | _ \<Rightarrow> [])))"

definition walk_limitations :: "walk_label \<Rightarrow> hop \<Rightarrow> walk_note list \<Rightarrow> limitation list" where
  "walk_limitations wl root ns = concat (map (hop_limitations wl) (walk_hops root)) @ map LimNote ns"

text \<open>A text that only one of the walks gives says which one.\<close>

definition limitations :: "hop \<Rightarrow> hop \<Rightarrow> walk_note list \<Rightarrow> walk_note list \<Rightarrow> (limitation \<times> walk_label option) list" where
  "limitations ex fwd ex_notes fwd_notes =
     (let es = walk_limitations ExpectedWalk ex ex_notes; fs = walk_limitations ForwardingWalk fwd fwd_notes
      in map (\<lambda>t. (t, if t \<in> set es \<and> t \<in> set fs then None
                      else if t \<in> set es then Some ExpectedWalk else Some ForwardingWalk))
           (foldl append_new [] (es @ fs)))"

section \<open>The explanation\<close>

record explanation =
  ex_source :: state
  ex_destination :: addr
  ex_expected :: hop
  ex_forwarding :: hop
  ex_findings :: "finding list"
  ex_regions :: "region list"
  ex_limitations :: "(limitation \<times> walk_label option) list"
  ex_truncated :: bool

definition explain_walks :: "topology \<Rightarrow> addr \<Rightarrow> explanation \<times> walker" where
  "explain_walks f dest0 =
     (let dest = plain_addr dest0; w = new_walker f dest; start = fl_source f
      in case run w expected_planes start_trace start of (tr1, ex) \<Rightarrow>
         case run w forwarding_planes tr1 start of (tr2, fwd) \<Rightarrow>
         case compare_walks ex fwd of (fwd', findings) \<Rightarrow>
           (\<lparr>ex_source = start, ex_destination = dest, ex_expected = ex, ex_forwarding = fwd',
             ex_findings = findings, ex_regions = failure_regions fwd',
             ex_limitations = limitations ex fwd' (tr_notes tr1) (tr_notes tr2),
             ex_truncated = (tr_truncated tr1 \<or> tr_truncated tr2)\<rparr>, w))"

section \<open>Laws: agreement\<close>

lemma describe_cases [simp]: "d_kind d = KindNoRoute \<Longrightarrow> describe d = SaysNoRoute"
  by (simp add: describe_def)

text \<open>The same concrete answer: neither has a route, or both name the same forwarding.\<close>

definition same_answer :: "decision \<Rightarrow> decision \<Rightarrow> bool" where
  "same_answer e f \<longleftrightarrow>
     (d_kind e = KindNoRoute \<and> d_kind f = KindNoRoute)
     \<or> (d_kind e \<noteq> KindNoRoute \<and> d_kind e = d_kind f \<and> d_prefix e = d_prefix f \<and> same_hops (d_hops e) (d_hops f))"

lemma disagreement_concrete: "disagreement e f \<noteq> None \<Longrightarrow> concrete (d_kind e) \<and> concrete (d_kind f)"
  by (auto simp: disagreement_def Let_def split: if_splits)

lemma disagreement_proven:
  "d_proven e \<Longrightarrow> concrete (d_kind e) \<Longrightarrow> concrete (d_kind f) \<Longrightarrow> disagreement e f = None \<longleftrightarrow> same_answer e f"
  by (auto simp: disagreement_def same_answer_def Let_def)

lemma disagreement_differs: "disagreement e f \<noteq> None \<Longrightarrow> \<not> same_answer e f"
  by (auto simp: disagreement_def same_answer_def Let_def split: if_splits)

text \<open>
  The verdict on a hop never reads silence as a difference or as agreement. A hop the
  FIB decided agrees exactly when the expected walk has a proven concrete decision at the same
  place and both give the same answer; it disagrees only when both decisions are concrete and
  the answers differ; and it is unknown in every other case.
\<close>

theorem agreement_exact:
  "compared h \<Longrightarrow>
     (agreement_of ex h = AgreementAgrees \<longleftrightarrow>
        (\<exists>e. expected_at ex (h_at h) = Some e \<and> d_proven (h_decision e) \<and> concrete (h_kind e)
          \<and> concrete (h_kind h) \<and> same_answer (h_decision e) (h_decision h)))
     \<and> (agreement_of ex h = AgreementDisagrees \<longrightarrow>
        (\<exists>e. expected_at ex (h_at h) = Some e \<and> concrete (h_kind e) \<and> concrete (h_kind h)
          \<and> \<not> same_answer (h_decision e) (h_decision h)))
     \<and> agreement_of ex h \<noteq> AgreementUnset"
proof (cases "expected_at ex (h_at h)")
  case (Some e)
  assume "compared h"
  with Some show ?thesis
    using disagreement_proven [of "h_decision e" "h_decision h"] disagreement_concrete [of "h_decision e" "h_decision h"]
      disagreement_differs [of "h_decision e" "h_decision h"]
    unfolding agreement_of_def by (cases "disagreement (h_decision e) (h_decision h)") auto
qed (simp add: agreement_of_def)

definition sample_hop :: "state \<Rightarrow> plane \<Rightarrow> next_hop list \<Rightarrow> hop" where
  "sample_hop s p hops =
     Hop s None ((leaf_decision KindForward NoReason)
       \<lparr>d_basis := Some p, d_proven := True, d_prefix := Some (Prefix (Addr4 0) 1), d_hops := hops\<rparr>) []"

theorem agreement_exact_witness:
  "same_answer (h_decision (sample_hop (at ''r1'' ''v'') Control [\<lparr>nh_addr = Addr4 1, nh_iface = []\<rparr>]))
     (h_decision (sample_hop (at ''r1'' ''v'') FIB [\<lparr>nh_addr = Addr4 1, nh_iface = ''e0''\<rparr>]))"
proof -
  let ?e = "sample_hop (at ''r1'' ''v'') Control [\<lparr>nh_addr = Addr4 1, nh_iface = []\<rparr>]"
  let ?f = "sample_hop (at ''r1'' ''v'') FIB [\<lparr>nh_addr = Addr4 1, nh_iface = ''e0''\<rparr>]"
  have "compared ?f" "agreement_of ?e ?f = AgreementAgrees" "expected_at ?e (h_at ?f) = Some ?e"
    by code_simp+
  with agreement_exact [of ?f ?e] show ?thesis by simp
qed

section \<open>Laws: failure regions\<close>

text \<open>Every hop below the root of a walk is reached by a segment.\<close>

definition segmented :: "hop \<Rightarrow> bool" where
  "segmented h \<longleftrightarrow> (\<forall>b\<in>set (branches h). \<forall>x\<in>set (tl b). h_via x \<noteq> None)"

text \<open>The branch ends at the first recorded failure on it.\<close>

definition first_failure :: "hop list \<Rightarrow> bool" where
  "first_failure b \<longleftrightarrow>
     tl b \<noteq> [] \<and> via_outcome (last b) = OutcomeFail \<and> (\<forall>x\<in>set (butlast (tl b)). via_outcome x \<noteq> OutcomeFail)"

lemma branches_Cons:
  "b \<in> set (branches (Hop s via d next)) \<longleftrightarrow>
     b = [Hop s via d next] \<or> (\<exists>c\<in>set next. \<exists>b'\<in>set (branches c). b = Hop s via d next # b')"
  by auto

lemma region_visit_iff:
  "r \<in> set (region_visit up h) \<longleftrightarrow>
     (\<exists>b\<in>set (branches h). \<exists>seg. tl b \<noteq> [] \<and> h_via (last b) = Some seg \<and> seg_outcome seg = OutcomeFail
        \<and> \<not> failed_above (up @ butlast b) \<and> r = region_of (up @ butlast b) seg)"
proof (induction up h rule: region_visit.induct)
  case (1 up s via d "next")
  let ?h = "Hop s via d next"
  have leg: "(\<exists>b\<in>set (branches c). \<exists>seg. tl (?h # b) \<noteq> [] \<and> h_via (last (?h # b)) = Some seg \<and> seg_outcome seg = OutcomeFail
        \<and> \<not> failed_above (up @ butlast (?h # b)) \<and> r = region_of (up @ butlast (?h # b)) seg)
      \<longleftrightarrow> (\<exists>seg. h_via c = Some seg \<and> seg_outcome seg = OutcomeFail \<and> \<not> failed_above (up @ [?h]) \<and> r = region_of (up @ [?h]) seg)
        \<or> r \<in> set (region_visit (up @ [?h]) c)"
    if c: "c \<in> set next" for c
  proof -
    have "b \<in> set (branches c) \<Longrightarrow> b = [c] \<or> tl b \<noteq> []" for b
      by (cases c) auto
    then have split: "(\<exists>b\<in>set (branches c). Q b) \<longleftrightarrow> Q [c] \<or> (\<exists>b\<in>set (branches c). tl b \<noteq> [] \<and> Q b)" for Q
      using root_branch [of c] by blast
    define Q where "Q b \<longleftrightarrow> (\<exists>seg. h_via (last b) = Some seg \<and> seg_outcome seg = OutcomeFail
        \<and> \<not> failed_above (up @ ?h # butlast b) \<and> r = region_of (up @ ?h # butlast b) seg)" for b
    have longer: "(\<exists>seg. tl (?h # b) \<noteq> [] \<and> h_via (last (?h # b)) = Some seg \<and> seg_outcome seg = OutcomeFail
        \<and> \<not> failed_above (up @ butlast (?h # b)) \<and> r = region_of (up @ butlast (?h # b)) seg) \<longleftrightarrow> Q b"
      if "b \<in> set (branches c)" for b
      using branches_hd [OF that] by (auto simp: Q_def)
    have below: "r \<in> set (region_visit (up @ [?h]) c) \<longleftrightarrow> (\<exists>b\<in>set (branches c). tl b \<noteq> [] \<and> Q b)"
      unfolding 1 [OF refl c] Q_def by simp
    have "Q [c] \<longleftrightarrow> (\<exists>seg. h_via c = Some seg \<and> seg_outcome seg = OutcomeFail \<and> \<not> failed_above (up @ [?h]) \<and> r = region_of (up @ [?h]) seg)"
      by (simp add: Q_def)
    with split [of Q] below show ?thesis
      by (subst bex_cong [OF refl longer]) simp_all
  qed
  have visit: "r \<in> set (region_visit up ?h) \<longleftrightarrow> (\<exists>c\<in>set next.
      (\<exists>seg. h_via c = Some seg \<and> seg_outcome seg = OutcomeFail \<and> \<not> failed_above (up @ [?h]) \<and> r = region_of (up @ [?h]) seg)
      \<or> r \<in> set (region_visit (up @ [?h]) c))"
  proof -
    have "r \<in> set ((case h_via c of
            Some seg \<Rightarrow> (if seg_outcome seg = OutcomeFail \<and> \<not> failed_above (up @ [?h]) then [region_of (up @ [?h]) seg] else [])
          | None \<Rightarrow> []) @ region_visit (up @ [?h]) c) \<longleftrightarrow>
        (\<exists>seg. h_via c = Some seg \<and> seg_outcome seg = OutcomeFail \<and> \<not> failed_above (up @ [?h]) \<and> r = region_of (up @ [?h]) seg)
        \<or> r \<in> set (region_visit (up @ [?h]) c)" for c
      by (cases "h_via c") auto
    then show ?thesis
      by (simp only: region_visit.simps Let_def set_concat set_map bex_simps UN_iff)
  qed
  show ?case
    unfolding ex_branches visit
    by (rule trans, rule bex_cong [OF refl leg [symmetric]], assumption, simp)
qed

lemma same_segment_refl [simp]: "same_segment s s"
  by (simp add: same_segment_def)

lemma same_segment_trans: "same_segment a b \<Longrightarrow> same_segment b c \<Longrightarrow> same_segment a c"
  by (simp add: same_segment_def)

lemma same_segment_sym: "same_segment a b \<Longrightarrow> same_segment b a"
  by (simp add: same_segment_def)

lemma foldl_add_segment:
  "(\<exists>s\<in>set (foldl add_segment acc segs). same_segment s t) \<longleftrightarrow> (\<exists>s\<in>set acc \<union> set segs. same_segment s t)"
proof (induction segs arbitrary: acc)
  case (Cons x segs)
  have "(\<exists>s\<in>set (add_segment acc x). same_segment s t) \<longleftrightarrow> (\<exists>s\<in>insert x (set acc). same_segment s t)"
    using same_segment_trans by (auto simp: add_segment_def)
  then show ?case
    using Cons by auto
qed simp

lemma since_pass_split:
  assumes "points \<noteq> []"
  obtains pre where "points = pre @ since_pass points" "since_pass points \<noteq> []"
    "pre \<noteq> [] \<longrightarrow> via_outcome (hd (since_pass points)) = OutcomePass"
    "\<forall>x\<in>set (tl (since_pass points)). via_outcome x \<noteq> OutcomePass"
proof -
  obtain src rest where p: "points = src # rest"
    using assms by (cases points) auto
  let ?P = "\<lambda>h. via_outcome h \<noteq> OutcomePass"
  let ?a = "takeWhile ?P (rev rest)"
  let ?n = "length ?a"
  have not_pass: "\<forall>x\<in>set ?a. ?P x"
    by (auto dest: set_takeWhileD)
  have le: "?n \<le> length rest"
    using length_takeWhile_le [of ?P "rev rest"] by simp
  show thesis
  proof (cases "?n = length rest")
    case True
    then have "take ?n (rev rest) = rev rest" by simp
    with takeWhile_eq_take [of ?P "rev rest"] have "?a = rev rest" by (rule trans)
    then have "\<forall>x\<in>set rest. ?P x"
      using not_pass by (metis set_rev)
    moreover have sp: "since_pass points = src # rest"
      unfolding since_pass_def Let_def p using True by (simp only: list.case simp_thms if_True)
    ultimately show thesis
      by (intro that [of "[]"]) (simp_all only: sp p list.sel append_Nil simp_thms list.discI)
  next
    case False
    with le have less: "?n < length rest" by simp
    let ?k = "length rest - ?n - 1"
    have k: "?k < length rest" using less by simp
    have nth: "rest ! ?k = rev rest ! ?n"
      using less by (simp add: rev_nth)
    have pass: "\<not> ?P (rest ! ?k)"
      unfolding nth using nth_length_takeWhile [of ?P "rev rest"] less by simp
    have drop: "drop ?k rest = rest ! ?k # drop (Suc ?k) rest"
      using k by (rule Cons_nth_drop_Suc [symmetric])
    have "Suc ?k = length rest - ?n" using less by linarith
    then have "rev (take ?n (rev rest)) = drop (Suc ?k) rest"
      by (simp add: rev_take)
    with takeWhile_eq_take [of ?P "rev rest"] have "drop (Suc ?k) rest = rev ?a"
      by metis
    then have tail: "\<forall>x\<in>set (drop (Suc ?k) rest). ?P x"
      using not_pass by (metis set_rev)
    have span: "since_pass points = drop ?k rest"
      unfolding since_pass_def Let_def p using False by (simp only: list.case if_False)
    note sp = trans [OF span drop]
    have "points = (src # take ?k rest) @ since_pass points"
      by (simp only: span append_Cons append_take_drop_id) (rule p)
    then show thesis
    proof (rule that)
      show "src # take ?k rest \<noteq> [] \<longrightarrow> via_outcome (hd (since_pass points)) = OutcomePass"
        unfolding sp list.sel using pass by blast
      show "\<forall>x\<in>set (tl (since_pass points)). via_outcome x \<noteq> OutcomePass"
        unfolding sp list.sel using tail .
      show "since_pass points \<noteq> []"
        unfolding sp by (rule list.discI [OF refl])
    qed
  qed
qed

definition region_for :: "hop list \<Rightarrow> region \<Rightarrow> bool" where
  "region_for b r \<longleftrightarrow>
     tl b \<noteq> [] \<and> h_via (last b) = Some (rg_fail r) \<and> seg_outcome (rg_fail r) = OutcomeFail
     \<and> (\<forall>x\<in>set (tl (butlast b)). via_outcome x \<noteq> OutcomeFail)
     \<and> (\<exists>s\<in>set (rg_candidates r). same_segment s (rg_fail r))
     \<and> (\<exists>pre span. butlast b = pre @ span \<and> span \<noteq> []
          \<and> (pre \<noteq> [] \<longrightarrow> via_outcome (hd span) = OutcomePass)
          \<and> (\<forall>x\<in>set (tl span). via_outcome x \<noteq> OutcomePass)
          \<and> (\<forall>t. (\<exists>s\<in>set (rg_candidates r). same_segment s t)
               \<longleftrightarrow> (\<exists>x\<in>set span. \<exists>s\<in>set (segments_from x). same_segment s t)))"

lemma branches_child:
  "b \<in> set (branches h) \<Longrightarrow> tl b \<noteq> [] \<Longrightarrow> last b \<in> set (h_next (last (butlast b)))"
proof (induction h arbitrary: b rule: walk_hops.induct)
  case (1 s via d "next")
  then obtain c b' where b: "b = Hop s via d next # b'" "c \<in> set next" "b' \<in> set (branches c)"
    by auto
  show ?case
  proof (cases "tl b' = []")
    case True
    then have "b' = [c]"
      using branches_hd [OF b(3)] by (cases b') auto
    then show ?thesis using b by simp
  next
    case False
    have "butlast b' \<noteq> []" "b' \<noteq> []"
      using False by (cases b'; auto)+
    then show ?thesis
      using 1(1) [OF b(2,3) False] b(1) by simp
  qed
qed

lemma region_of_branch:
  assumes "b \<in> set (branches h)" "tl b \<noteq> []" "h_via (last b) = Some seg" "seg_outcome seg = OutcomeFail"
    and "\<not> failed_above (butlast b)"
  shows "region_for b (region_of (butlast b) seg)"
proof -
  have points: "butlast b \<noteq> []"
    using assms(2) by (cases b) auto
  obtain pre where pre: "butlast b = pre @ since_pass (butlast b)" "since_pass (butlast b) \<noteq> []"
      "pre \<noteq> [] \<longrightarrow> via_outcome (hd (since_pass (butlast b))) = OutcomePass"
      "\<forall>x\<in>set (tl (since_pass (butlast b))). via_outcome x \<noteq> OutcomePass"
    by (rule since_pass_split [OF points]) (rule that)
  let ?r = "region_of (butlast b) seg"
  have cands: "(\<exists>s\<in>set (rg_candidates ?r). same_segment s t)
      \<longleftrightarrow> (\<exists>x\<in>set (since_pass (butlast b)). \<exists>s\<in>set (segments_from x). same_segment s t)" for t
    using foldl_add_segment [of "[]" "concat (map segments_from (since_pass (butlast b)))" t]
    by (simp add: region_of_def)
  have "last (butlast b) = last (since_pass (butlast b))"
    using pre(1,2) by (metis last_appendR)
  then have "last (butlast b) \<in> set (since_pass (butlast b))"
    using pre(2) by simp
  moreover have "seg \<in> set (segments_from (last (butlast b)))"
    using branches_child [OF assms(1,2)] assms(3) by (force simp: segments_from_def)
  ultimately have "\<exists>s\<in>set (rg_candidates ?r). same_segment s seg"
    unfolding cands using same_segment_refl by blast
  moreover have "\<forall>x\<in>set (tl (butlast b)). via_outcome x \<noteq> OutcomeFail"
    using assms(5) by (auto simp: failed_above_def)
  moreover have "rg_fail ?r = seg"
    by (simp add: region_of_def)
  ultimately show ?thesis
    unfolding region_for_def using assms(2-4) pre cands by auto
qed

text \<open>
  C28. A failure region holds exactly what a recorded failure can mean. Every region comes
  from a branch whose last segment is the first recorded failure on it, and every such branch
  gives one. The candidates are the segments, all alternatives included, that leave the hops
  from the last one reached with a recorded pass (or the source) down to the failure: the
  failed segment is one of them, and no hop in between was reached with a pass.
\<close>

theorem failure_regions_exact:
  "(\<forall>r\<in>set (failure_regions h). \<exists>b\<in>set (branches h). region_for b r)
   \<and> (\<forall>b\<in>set (branches h). first_failure b \<longrightarrow> (\<exists>r\<in>set (failure_regions h). region_for b r))"
proof (intro conjI ballI impI)
  fix r
  assume "r \<in> set (failure_regions h)"
  then obtain b seg where b: "b \<in> set (branches h)" "tl b \<noteq> []" "h_via (last b) = Some seg" "seg_outcome seg = OutcomeFail"
      "\<not> failed_above (butlast b)" and r: "r = region_of (butlast b) seg"
    unfolding failure_regions_def region_visit_iff append_Nil by (elim bexE exE conjE) (rule that)
  show "\<exists>b\<in>set (branches h). region_for b r"
    unfolding r by (rule bexI [of _ b]) (rule region_of_branch [OF b], rule b(1))
next
  fix b
  assume b: "b \<in> set (branches h)" "first_failure b"
  then obtain seg where seg: "tl b \<noteq> []" "h_via (last b) = Some seg" "seg_outcome seg = OutcomeFail"
    by (auto simp: first_failure_def via_outcome_def split: option.splits)
  have above: "\<not> failed_above (butlast b)"
    using b(2) by (auto simp: failed_above_def first_failure_def butlast_tl)
  have "region_of (butlast b) seg \<in> set (failure_regions h)"
    unfolding failure_regions_def region_visit_iff append_Nil
    by (intro bexI [OF _ b(1)] exI [of _ seg] conjI seg above refl)
  with region_of_branch [OF b(1) seg above] show "\<exists>r\<in>set (failure_regions h). region_for b r"
    by (rule bexI)
qed

definition sample_failed_walk :: hop where
  "sample_failed_walk =
     Hop (at ''r1'' ''v'') None (leaf_decision KindForward NoReason)
       [Hop (at ''r2'' ''v'')
          (Some \<lparr>seg_from = ''r1'', seg_vrf = ''v'', seg_iface = ''e0'', seg_hop = Addr4 1, seg_outcome = OutcomeFail, seg_checks = []\<rparr>)
          (leaf_decision KindLocal LocalAddress) []]"

theorem failure_regions_exact_witness:
  "\<exists>r\<in>set (failure_regions sample_failed_walk). region_for (last (branches sample_failed_walk)) r"
proof -
  have "last (branches sample_failed_walk) \<in> set (branches sample_failed_walk)"
    by (simp add: sample_failed_walk_def)
  moreover have "first_failure (last (branches sample_failed_walk))"
    by (simp add: sample_failed_walk_def first_failure_def via_outcome_def)
  ultimately show ?thesis
    using failure_regions_exact [of sample_failed_walk] by blast
qed

end
