(* ===== verification/Asymmetry.thy ===== *)
theory Asymmetry
  imports Explain
begin

text \<open>
  The comparison of the forward route with the return route, \<^verbatim>\<open>asymmetry.go\<close>: each
  walk read as one route, the links the two cross, and the concerns that make a difference
  relevant.
\<close>

section \<open>A walk as one route\<close>

datatype chain_stop =
    StopsAt hop_label kind reason
  | NoSingleNext hop_label nat

definition leg_step :: "state \<Rightarrow> hop \<Rightarrow> step" where
  "leg_step s c =
     (case h_via c of
        Some seg \<Rightarrow> \<lparr>st_at = s, st_iface = seg_iface seg, st_hop = seg_hop seg, st_outcome = seg_outcome seg\<rparr>
      | None \<Rightarrow> bare_step s [] ZeroAddr)"

fun chain_of :: "hop \<Rightarrow> chain_stop + step list" where
  "chain_of (Hop s via d next) =
     (if d_kind d = KindLocal then Inr [bare_step s [] ZeroAddr]
      else if d_kind d \<noteq> KindForward then Inl (StopsAt (node_label (Hop s via d next)) (d_kind d) (d_reason d))
      else case next of
        [c] \<Rightarrow> rbind (chain_of c) (\<lambda>steps. Inr (leg_step s c # steps))
      | _ \<Rightarrow> Inl (NoSingleNext (node_label (Hop s via d next)) (length next)))"

definition states_of :: "step list \<Rightarrow> state list" where
  "states_of steps = map st_at steps"

definition is_reverse :: "state list \<Rightarrow> state list \<Rightarrow> bool" where
  "is_reverse fwd ret \<longleftrightarrow>
     length fwd = length ret \<and> (\<forall>i<length ret. ret ! i = fwd ! (length fwd - 1 - i))"

definition same_states :: "state list \<Rightarrow> state list \<Rightarrow> bool" where
  "same_states a b \<longleftrightarrow> (\<forall>s\<in>set a. s \<in> set b) \<and> (\<forall>s\<in>set b. s \<in> set a)"

section \<open>The links two routes cross\<close>

datatype link_difference = OtherLink string string endpoint endpoint endpoint endpoint
datatype link_doubt = LinkNotProven string string end_reason

text \<open>
  The loop over the hops of the forward route, each with the segment of the return route that
  mirrors it. The first proven difference ends it; otherwise the first doubt is kept.
\<close>

fun links_loop ::
  "walker \<Rightarrow> addr \<Rightarrow> ((step \<times> step) \<times> step \<times> step) list \<Rightarrow> link_doubt option
     \<Rightarrow> link_difference option \<times> link_doubt option" where
  "links_loop w src [] doubt = (None, doubt)"
| "links_loop w src (((f, f'), (r, r')) # rest) doubt =
     (case segment_ends w f f' (w_dest w) of
        Inl why \<Rightarrow> links_loop w src rest
          (if doubt = None then Some (LinkNotProven (s_node (st_at f)) (s_node (st_at f')) why) else doubt)
      | Inr (f_near, f_far) \<Rightarrow>
          (case segment_ends w r r' src of
             Inl why \<Rightarrow> links_loop w src rest
               (if doubt = None then Some (LinkNotProven (s_node (st_at f)) (s_node (st_at f')) why) else doubt)
           | Inr (r_near, r_far) \<Rightarrow>
               if f_near \<noteq> r_far \<or> f_far \<noteq> r_near
                 then (Some (OtherLink (s_node (st_at f)) (s_node (st_at f')) f_near f_far r_near r_far), None)
               else links_loop w src rest doubt))"

definition segments_of :: "step list \<Rightarrow> (step \<times> step) list" where
  "segments_of steps = zip steps (tl steps)"

definition links_of :: "walker \<Rightarrow> step list \<Rightarrow> step list \<Rightarrow> addr \<Rightarrow> link_difference option \<times> link_doubt option" where
  "links_of w fwd ret src = links_loop w src (zip (segments_of fwd) (rev (segments_of ret))) None"

section \<open>Concerns\<close>

datatype direction = DirForward | DirReturn | DirBoth
datatype concern_kind = ConcernBoundary boundary_kind | ConcernVRF | ConcernFailure

datatype concern_detail =
    CrossesBoundary boundary_kind direction state
  | DomainsDiffer "string list" "string list"
  | CheckFailedDir direction segment

record concern =
  cn_kind :: concern_kind
  cn_direction :: direction
  cn_at :: state
  cn_detail :: concern_detail
  cn_evidence :: "support list"

definition vrfs_of :: "state list \<Rightarrow> string list" where
  "vrfs_of ss = sort_func three_way (foldl append_new [] (map s_vrf ss))"

definition boundary_concerns :: "state list \<Rightarrow> state list \<Rightarrow> boundary \<Rightarrow> concern list" where
  "boundary_concerns fwd ret b =
     (let s = at (b_node b) (b_vrf b); in_f = (s \<in> set fwd); in_r = (s \<in> set ret);
          dir = (if in_r then DirReturn else DirForward)
      in if in_f = in_r then []
         else [\<lparr>cn_kind = ConcernBoundary (b_kind b), cn_direction = dir, cn_at = s,
                cn_detail = CrossesBoundary (b_kind b) dir s, cn_evidence = [row_support (b_prov b)]\<rparr>])"

definition failure_concern :: "direction \<Rightarrow> region \<Rightarrow> concern" where
  "failure_concern dir r =
     \<lparr>cn_kind = ConcernFailure, cn_direction = dir, cn_at = at (seg_from (rg_fail r)) (seg_vrf (rg_fail r)),
      cn_detail = CheckFailedDir dir (rg_fail r), cn_evidence = seg_checks (rg_fail r)\<rparr>"

definition concerns_of ::
  "boundary list \<Rightarrow> state list \<Rightarrow> state list \<Rightarrow> region list \<Rightarrow> region list \<Rightarrow> concern list" where
  "concerns_of bounds fwd ret fwd_regions ret_regions =
     concat (map (boundary_concerns fwd ret) bounds)
     @ (if vrfs_of fwd \<noteq> vrfs_of ret
        then [\<lparr>cn_kind = ConcernVRF, cn_direction = DirBoth, cn_at = nowhere,
               cn_detail = DomainsDiffer (vrfs_of fwd) (vrfs_of ret), cn_evidence = []\<rparr>]
        else [])
     @ map (failure_concern DirForward) fwd_regions @ map (failure_concern DirReturn) ret_regions"

section \<open>The comparison\<close>

datatype assessment = AssessSymmetric | AssessBenign | AssessRisk | AssessUnknown

datatype return_stop =
    ReturnStops chain_stop
  | ReturnEndsAt state state
  | OwnedBySeveral addr nat

datatype difference = OtherRouters | OtherLinks link_difference | NotRetraced

datatype asymmetry_reason =
    ForwardNotProven chain_stop
  | ReturnNotProven return_stop
  | LinksUnknown link_doubt
  | RetracesForward
  | DiffersWithConcern difference
  | DiffersBenignly difference

record asymmetry =
  as_assessment :: assessment
  as_reason :: asymmetry_reason
  as_return_to :: addr
  as_forward :: "step list"
  as_back :: "step list"
  as_concerns :: "concern list"
  as_return :: "explanation option"

text \<open>The walk back, when the destination has one routing domain to start from.\<close>

definition return_walk :: "walker \<Rightarrow> topology \<Rightarrow> addr \<Rightarrow> explanation option" where
  "return_walk w f src =
     (case owners w (w_dest w) of
        [s] \<Rightarrow> Some (fst (explain_walks (f\<lparr>fl_source := s, fl_source_addr := ZeroAddr, fl_boundaries := [], fl_tunnels := []\<rparr>) src))
      | _ \<Rightarrow> None)"

text \<open>The return route, or why there is none: a return ends at the source or is no return.\<close>

definition return_route :: "walker \<Rightarrow> topology \<Rightarrow> explanation option \<Rightarrow> return_stop + step list" where
  "return_route w f ret =
     (case ret of
        None \<Rightarrow> Inl (OwnedBySeveral (w_dest w) (length (owners w (w_dest w))))
      | Some e \<Rightarrow>
          (case chain_of (ex_forwarding e) of
             Inl why \<Rightarrow> Inl (ReturnStops why)
           | Inr steps \<Rightarrow>
               if st_at (last steps) \<noteq> fl_source f then Inl (ReturnEndsAt (st_at (last steps)) (fl_source f))
               else Inr steps))"

definition relate :: "walker \<Rightarrow> topology \<Rightarrow> explanation \<Rightarrow> explanation \<Rightarrow> addr \<Rightarrow> step list \<Rightarrow> step list
    \<Rightarrow> assessment \<times> asymmetry_reason \<times> concern list" where
  "relate w f fwd ret src fs rs =
     (let fset = states_of fs; rset = states_of rs;
          concerns = concerns_of (fl_boundaries f) fset rset (ex_regions fwd) (ex_regions ret);
          verdict = (\<lambda>differ. if concerns \<noteq> [] then (AssessRisk, DiffersWithConcern differ, concerns)
                               else (AssessBenign, DiffersBenignly differ, concerns))
      in if is_reverse fset rset then
           (case links_of w fs rs src of
              (Some d, _) \<Rightarrow> verdict (OtherLinks d)
            | (None, Some doubt) \<Rightarrow> (AssessUnknown, LinksUnknown doubt, [])
            | (None, None) \<Rightarrow> (AssessSymmetric, RetracesForward, []))
         else verdict (if same_states fset rset then NotRetraced else OtherRouters))"

definition asymmetry_of :: "walker \<Rightarrow> topology \<Rightarrow> explanation \<Rightarrow> asymmetry option" where
  "asymmetry_of w f fwd =
     (if \<not> addr_valid (fl_source_addr f) \<or> h_kind (ex_forwarding fwd) = KindLocal then None
      else
        (let src = plain_addr (fl_source_addr f);
             ret = return_walk w f src;
             a = \<lparr>as_assessment = AssessUnknown, as_reason = RetracesForward, as_return_to = src, as_forward = [],
                  as_back = [], as_concerns = [], as_return = ret\<rparr>
         in Some (case (chain_of (ex_forwarding fwd), return_route w f ret) of
              (Inl why, _) \<Rightarrow> a\<lparr>as_reason := ForwardNotProven why\<rparr>
            | (Inr fs, Inl why) \<Rightarrow> a\<lparr>as_forward := fs, as_reason := ReturnNotProven why\<rparr>
            | (Inr fs, Inr rs) \<Rightarrow>
                (case relate w f fwd (the ret) src fs rs of
                   (assess, why, concerns) \<Rightarrow>
                     a\<lparr>as_forward := fs, as_back := rs, as_assessment := assess, as_reason := why,
                       as_concerns := concerns\<rparr>))))"

section \<open>Laws\<close>

lemma is_reverse_iff: "is_reverse fwd ret \<longleftrightarrow> ret = rev fwd"
  by (auto simp: is_reverse_def list_eq_iff_nth_eq rev_nth)

text \<open>Both ends of a segment are named, and the mirrored segment names the same two.\<close>

definition same_link :: "walker \<Rightarrow> addr \<Rightarrow> (step \<times> step) \<Rightarrow> (step \<times> step) \<Rightarrow> bool" where
  "same_link w src f r \<longleftrightarrow>
     (\<exists>near far. segment_ends w (fst f) (snd f) (w_dest w) = Inr (near, far)
        \<and> segment_ends w (fst r) (snd r) src = Inr (far, near))"

lemma links_loop_doubt: "links_loop w src pairs (Some u) \<noteq> (None, None)"
proof (induction pairs)
  case (Cons p pairs)
  obtain f f' r r' where "p = ((f, f'), (r, r'))" by (metis surj_pair)
  with Cons show ?case by (auto split: sum.splits)
qed simp

lemma links_loop_none:
  "links_loop w src pairs None = (None, None) \<longleftrightarrow> (\<forall>(f, r)\<in>set pairs. same_link w src f r)"
proof (induction pairs)
  case (Cons p pairs)
  obtain f f' r r' where p: "p = ((f, f'), (r, r'))" by (metis surj_pair)
  show ?case
  proof (cases "segment_ends w f f' (w_dest w)")
    case (Inl why)
    then show ?thesis by (simp add: p same_link_def links_loop_doubt)
  next
    case f: (Inr near_far)
    obtain near far where nf: "near_far = (near, far)" by fastforce
    show ?thesis
    proof (cases "segment_ends w r r' src")
      case (Inl why)
      then show ?thesis using f nf by (simp add: p same_link_def links_loop_doubt)
    next
      case (Inr far_near)
      then show ?thesis using f nf Cons by (cases far_near) (auto simp: p same_link_def)
    qed
  qed
qed simp

lemma chain_of_states:
  "chain_of h = Inr steps \<Longrightarrow> steps \<noteq> [] \<and> st_at (hd steps) = h_at h"
proof (induction h arbitrary: steps rule: chain_of.induct)
  case (1 s via d "next")
  then show ?case
    by (auto simp: bare_step_def leg_step_def rbind_Inr_iff split: if_splits list.splits option.splits)
qed


lemma relate_symmetric:
  "fst (relate w f fwd ret src fs rs) = AssessSymmetric \<longleftrightarrow>
     states_of rs = rev (states_of fs)
     \<and> (\<forall>(x, y)\<in>set (zip (segments_of fs) (rev (segments_of rs))). same_link w src x y)"
proof -
  obtain d doubt where l: "links_of w fs rs src = (d, doubt)" by fastforce
  have "(d = None \<and> doubt = None) \<longleftrightarrow> (\<forall>(x, y)\<in>set (zip (segments_of fs) (rev (segments_of rs))). same_link w src x y)"
    using links_loop_none [of w src "zip (segments_of fs) (rev (segments_of rs))"] l by (simp add: links_of_def)
  then show ?thesis
    by (cases d; cases doubt) (simp_all add: relate_def Let_def is_reverse_iff l)
qed

lemma relate_risk:
  assumes "relate w f fwd ret src fs rs = (a, why, concerns)"
  shows "a = AssessRisk \<Longrightarrow> concerns \<noteq> []" "a = AssessBenign \<Longrightarrow> concerns = [] \<and>
    concerns_of (fl_boundaries f) (states_of fs) (states_of rs) (ex_regions fwd) (ex_regions ret) = []"
  using assms by (auto simp: relate_def Let_def split: option.splits prod.splits if_splits)

lemma return_route_Inr:
  "return_route w f ret = Inr rs \<longleftrightarrow>
     (\<exists>e. ret = Some e \<and> chain_of (ex_forwarding e) = Inr rs \<and> st_at (last rs) = fl_source f)"
  by (auto simp: return_route_def split: option.splits sum.splits)

text \<open>
  Symmetry is proven, never assumed. An asymmetry is rated symmetric exactly when both
  walks prove one single route, the return route ends at the source, it visits the places of
  the forward route in reverse order, and on every hop the evidence names both ends of the
  link and the mirrored hop of the return route names the same two ends.
\<close>

theorem symmetric_exact:
  assumes "asymmetry_of w f fwd = Some a"
  shows "as_assessment a = AssessSymmetric \<longleftrightarrow>
    (\<exists>fs ret rs. chain_of (ex_forwarding fwd) = Inr fs \<and> return_walk w f (plain_addr (fl_source_addr f)) = Some ret
       \<and> chain_of (ex_forwarding ret) = Inr rs \<and> st_at (last rs) = fl_source f
       \<and> states_of rs = rev (states_of fs)
       \<and> (\<forall>(x, y)\<in>set (zip (segments_of fs) (rev (segments_of rs))). same_link w (plain_addr (fl_source_addr f)) x y))"
proof -
  define src where "src = plain_addr (fl_source_addr f)"
  define ret where "ret = return_walk w f src"
  show ?thesis
  proof (cases "chain_of (ex_forwarding fwd)")
    case (Inl why)
    then show ?thesis using assms by (auto simp: asymmetry_of_def Let_def split: if_splits)
  next
    case fs: (Inr fs)
    show ?thesis
    proof (cases "return_route w f ret")
      case (Inl why)
      then show ?thesis
        using assms fs return_route_Inr [of w f ret]
        by (auto simp: asymmetry_of_def Let_def ret_def src_def split: if_splits)
    next
      case (Inr rs)
      then obtain e where e: "ret = Some e" "chain_of (ex_forwarding e) = Inr rs" "st_at (last rs) = fl_source f"
        by (auto simp: return_route_Inr)
      have "as_assessment a = fst (relate w f fwd e src fs rs)"
        using assms fs Inr e by (auto simp: asymmetry_of_def Let_def ret_def src_def split: if_splits prod.splits)
      then show ?thesis
        using relate_symmetric [of w f fwd e src fs rs] fs e by (simp add: ret_def src_def)
    qed
  qed
qed

lemma vrfs_differ:
  assumes "vrfs_of a \<noteq> vrfs_of b"
  shows "set (map s_vrf a) \<noteq> set (map s_vrf b)"
proof
  assume "set (map s_vrf a) = set (map s_vrf b)"
  then have "mset (foldl append_new [] (map s_vrf a)) = mset (foldl append_new [] (map s_vrf b))"
    by (simp add: set_eq_iff_mset_eq_distinct [symmetric])
  then show False
    using assms three_way.sort_func_perm unfolding vrfs_of_def by blast
qed

definition sample_asymmetry :: "asymmetry option" where
  "sample_asymmetry =
     (case explain_walks sample_topology sample_dest of (e, w) \<Rightarrow> asymmetry_of w sample_topology e)"

theorem symmetric_exact_witness:
  "\<exists>fs (ret :: explanation) rs. chain_of (ex_forwarding ret) = Inr rs \<and> st_at (last rs) = at ''r1'' ''default''
     \<and> states_of rs = rev (states_of fs)"
proof -
  obtain e w where ew: "explain_walks sample_topology sample_dest = (e, w)" by fastforce
  have "case sample_asymmetry of None \<Rightarrow> False | Some a \<Rightarrow> as_assessment a = AssessSymmetric"
    by code_simp
  then obtain a where a: "asymmetry_of w sample_topology e = Some a" "as_assessment a = AssessSymmetric"
    using ew by (auto simp: sample_asymmetry_def split: option.splits)
  have src: "fl_source sample_topology = at ''r1'' ''default''"
    by (simp add: sample_topology_def)
  from symmetric_exact [OF a(1), THEN iffD1, OF a(2)] show ?thesis
    unfolding src by blast
qed

text \<open>The ground of a concern, in what the file records about the two routes.\<close>

definition grounded :: "boundary list \<Rightarrow> state list \<Rightarrow> state list \<Rightarrow> region list \<Rightarrow> concern \<Rightarrow> bool" where
  "grounded bounds fwd ret regions c \<longleftrightarrow>
     (case cn_kind c of
        ConcernBoundary k \<Rightarrow>
          (\<exists>b\<in>set bounds. b_kind b = k \<and> cn_at c = at (b_node b) (b_vrf b) \<and> cn_evidence c = [row_support (b_prov b)])
          \<and> (cn_at c \<in> set fwd) \<noteq> (cn_at c \<in> set ret)
      | ConcernVRF \<Rightarrow> set (map s_vrf fwd) \<noteq> set (map s_vrf ret)
      | ConcernFailure \<Rightarrow> (\<exists>r\<in>set regions. cn_evidence c = seg_checks (rg_fail r)))"

lemma concerns_grounded:
  assumes "c \<in> set (concerns_of bounds fwd ret fr rr)"
  shows "grounded bounds fwd ret (fr @ rr) c"
proof -
  consider (boundary) b where "b \<in> set bounds" "c \<in> set (boundary_concerns fwd ret b)"
    | (vrf) "vrfs_of fwd \<noteq> vrfs_of ret" "cn_kind c = ConcernVRF"
    | (failure) r dir where "r \<in> set (fr @ rr)" "c = failure_concern dir r"
    using assms by (auto simp: concerns_of_def split: if_splits)
  then show ?thesis
  proof cases
    case boundary
    then show ?thesis
      by (auto simp: boundary_concerns_def grounded_def Let_def split: if_splits)
  next
    case vrf
    then show ?thesis using vrfs_differ by (simp add: grounded_def)
  next
    case failure
    then show ?thesis by (auto simp: failure_concern_def grounded_def)
  qed
qed

text \<open>
  Asymmetry alone is never a fault. A pair of routes is rated a risk only when at least
  one concern is listed, and benign only when none holds; and a concern always has its
  ground: a recorded boundary that exactly one of the two routes crosses, routing domains
  that differ between them, or a recorded failure on one of them.
\<close>

theorem risk_has_concern:
  assumes "relate w f fwd ret src fs rs = (verdict, why, concerns)"
  shows "(verdict = AssessRisk \<longrightarrow> concerns \<noteq> []) \<and> (verdict = AssessBenign \<longrightarrow> concerns = [])
    \<and> (\<forall>c\<in>set concerns. grounded (fl_boundaries f) (states_of fs) (states_of rs) (ex_regions fwd @ ex_regions ret) c)"
proof -
  have "concerns = [] \<or> concerns = concerns_of (fl_boundaries f) (states_of fs) (states_of rs) (ex_regions fwd) (ex_regions ret)"
    using assms by (auto simp: relate_def Let_def split: option.splits prod.splits if_splits)
  then have "\<forall>c\<in>set concerns. grounded (fl_boundaries f) (states_of fs) (states_of rs) (ex_regions fwd @ ex_regions ret) c"
    using concerns_grounded by auto
  then show ?thesis
    using relate_risk [OF assms] by blast
qed

definition sample_relation :: "assessment \<times> asymmetry_reason \<times> concern list" where
  "sample_relation =
     (case explain_walks sample_topology sample_dest of (e, w) \<Rightarrow>
        relate w (sample_topology\<lparr>fl_boundaries := [\<lparr>b_prov = sample_prov, b_node = ''r3'', b_vrf = ''default'', b_kind = NAT\<rparr>]\<rparr>)
          e e (Addr4 1) [bare_step (at ''r1'' ''default'') ''e0'' ZeroAddr] [bare_step (at ''r3'' ''default'') ''e0'' ZeroAddr])"

theorem risk_has_concern_witness:
  "\<exists>concerns. concerns \<noteq> [] \<and> (\<exists>regions. \<forall>c\<in>set concerns.
     grounded [\<lparr>b_prov = sample_prov, b_node = ''r3'', b_vrf = ''default'', b_kind = NAT\<rparr>]
       [at ''r1'' ''default''] [at ''r3'' ''default''] regions c)"
proof -
  let ?f = "sample_topology\<lparr>fl_boundaries := [\<lparr>b_prov = sample_prov, b_node = ''r3'', b_vrf = ''default'', b_kind = NAT\<rparr>]\<rparr>"
  obtain e w where ew: "explain_walks sample_topology sample_dest = (e, w)" by fastforce
  obtain verdict why concerns where r: "sample_relation = (verdict, why, concerns)" by (metis prod_cases3)
  have "fst sample_relation = AssessRisk" by code_simp
  then have "verdict = AssessRisk" unfolding r fst_conv .
  moreover have "relate w ?f e e (Addr4 1) [bare_step (at ''r1'' ''default'') ''e0'' ZeroAddr]
      [bare_step (at ''r3'' ''default'') ''e0'' ZeroAddr] = (verdict, why, concerns)"
    using r ew by (simp add: sample_relation_def)
  from risk_has_concern [OF this] calculation show ?thesis
    by (auto simp: states_of_def bare_step_def)
qed

end
