(* ===== verification/Drift.thy ===== *)
theory Drift
  imports Asymmetry
begin

text \<open>
  Intended routes against the forwarding table, \<^verbatim>\<open>drift.go\<close>: the decisions compared at
  each place where intent decides, the level of each difference, and the summary. A memoised
  walk of the forwarding table is the function of its place it computes.
\<close>

section \<open>Levels and facts\<close>

datatype drift_level = DriftNone | DriftBenign | DriftUnknown | DriftRedundancyLost | DriftReachabilityLost

fun drift_rank :: "drift_level \<Rightarrow> nat" where
  "drift_rank DriftNone = 0"
| "drift_rank DriftBenign = 1"
| "drift_rank DriftUnknown = 2"
| "drift_rank DriftRedundancyLost = 3"
| "drift_rank DriftReachabilityLost = 4"

lemma drift_rank_inject: "drift_rank a = drift_rank b \<longleftrightarrow> a = b"
  by (cases a; cases b) auto

instantiation drift_level :: linorder
begin
definition less_eq_drift_level :: "drift_level \<Rightarrow> drift_level \<Rightarrow> bool" where
  "less_eq_drift_level a b \<longleftrightarrow> drift_rank a \<le> drift_rank b"
definition less_drift_level :: "drift_level \<Rightarrow> drift_level \<Rightarrow> bool" where
  "less_drift_level a b \<longleftrightarrow> drift_rank a < drift_rank b"
instance
  by standard (auto simp: less_eq_drift_level_def less_drift_level_def drift_rank_inject)
end

text \<open>Raising a level keeps the more severe of the two.\<close>

definition raise_level :: "drift_level \<Rightarrow> drift_level \<Rightarrow> drift_level" where
  "raise_level old l = (if old < l then l else old)"

record fact =
  fc_source :: string
  fc_at :: string
  fc_plane :: plane
  fc_complete :: bool
  fc_origin :: string
  fc_prefix :: "prefix option"
  fc_hops :: "next_hop list"
  fc_discard :: bool

datatype drift_why =
    CannotCompare | NoFibObservation state | IntentPartial | OtherPrefix | IntentDrops | FibFailsHere
  | SourceUnproven | LacksAlternative | StillReached | DeliveryUnproven | NoSingleNode

datatype side = SideAnswer description | SideOther kind reason

record drift_finding =
  df_level :: drift_level
  df_at :: state
  df_detail :: "(side \<times> side) option \<times> drift_why"
  df_intended :: decision
  df_forwarding :: decision
  df_facts :: "fact list"

record drift =
  dr_level :: drift_level
  dr_compared :: nat
  dr_truncated :: bool
  dr_intended :: hop
  dr_findings :: "drift_finding list"

definition route_facts :: "plane \<Rightarrow> prefix option \<Rightarrow> observation \<Rightarrow> fact list" where
  "route_facts p pre ob =
     (let row = \<lparr>fc_source = source (o_prov ob), fc_at = utc_text (collected_at (o_prov ob)), fc_plane = p,
                 fc_complete = o_routes_complete ob, fc_origin = [], fc_prefix = None, fc_hops = [], fc_discard = False\<rparr>;
          found = map (\<lambda>r. row\<lparr>fc_origin := r_origin r, fc_prefix := pre, fc_hops := r_hops r, fc_discard := r_discard r\<rparr>)
                    (filter (\<lambda>r. Some (r_prefix r) = pre) (o_routes ob))
      in if found = [] then [row] else found)"

definition facts :: "walker \<Rightarrow> state \<Rightarrow> plane \<Rightarrow> prefix option \<Rightarrow> fact list" where
  "facts w s p pre = concat (map (route_facts p pre) (filter (row_at s p) (w_obs w)))"

section \<open>One place\<close>

definition drops :: "decision \<Rightarrow> bool" where
  "drops d \<longleftrightarrow> d_kind d = KindNoRoute \<or> d_kind d = KindDiscard"

definition side_text :: "decision \<Rightarrow> side" where
  "side_text d = (if concrete (d_kind d) then SideAnswer (describe d) else SideOther (d_kind d) (d_reason d))"

definition finding_at :: "walker \<Rightarrow> state \<Rightarrow> decision \<Rightarrow> decision \<Rightarrow> drift_level \<Rightarrow> (side \<times> side) option \<times> drift_why \<Rightarrow> drift_finding" where
  "finding_at w s intent fib l detail =
     \<lparr>df_level = l, df_at = s, df_detail = detail, df_intended = intent, df_forwarding = fib,
      df_facts = facts w s Intended (d_prefix intent) @ facts w s FIB (d_prefix fib)\<rparr>"

definition same_decision :: "decision \<Rightarrow> next_hop list \<Rightarrow> decision \<Rightarrow> next_hop list \<Rightarrow> bool" where
  "same_decision intent ih fib fh \<longleftrightarrow>
     (drops intent \<and> drops fib) \<or> (d_kind intent = d_kind fib \<and> covers_hops fh ih \<and> covers_hops ih fh)"

definition fewer_hops :: "next_hop list \<Rightarrow> next_hop list \<Rightarrow> bool" where
  "fewer_hops ih fh \<longleftrightarrow> fh \<noteq> [] \<and> covers_hops ih fh \<and> \<not> covers_hops fh ih"

definition classify :: "walker \<Rightarrow> state \<Rightarrow> bool \<Rightarrow> reach \<Rightarrow> reach \<Rightarrow> reach \<Rightarrow> drift_finding option" where
  "classify w s on sub want root =
     (case decide w [Intended] s of (intent, ih) \<Rightarrow>
      case decide w forwarding_planes s of (fib, fh) \<Rightarrow>
        (let same = same_decision intent ih fib fh;
             fewer = fewer_hops ih fh;
             found = (\<lambda>l why. Some (finding_at w s intent fib l (Some (side_text intent, side_text fib), why)));
             fib_rows = (\<exists>x\<in>set (facts w s Intended (d_prefix intent) @ facts w s FIB (d_prefix fib)). fc_plane x = FIB)
         in if \<not> concrete (d_kind intent) \<or> \<not> concrete (d_kind fib) then
              found DriftUnknown (if fib_rows then CannotCompare else NoFibObservation s)
            else if \<not> d_proven intent then found DriftUnknown IntentPartial
            else if same \<and> d_prefix intent = d_prefix fib then None
            else if same then found DriftBenign OtherPrefix
            else if drops intent then found DriftUnknown IntentDrops
            else if on \<and> sub = ReachFailed \<and> want = ReachOK then found DriftReachabilityLost FibFailsHere
            else if root \<noteq> ReachOK then found DriftUnknown SourceUnproven
            else if fewer \<or> (\<not> on \<and> sub = ReachFailed \<and> want = ReachOK) then found DriftRedundancyLost LacksAlternative
            else if sub = ReachOK then found DriftBenign StillReached
            else found DriftUnknown DeliveryUnproven))"

section \<open>The whole walk\<close>

definition fib_reach :: "walker \<Rightarrow> state \<Rightarrow> reach" where
  "fib_reach w s = reach_of (snd (run w forwarding_planes start_trace s))"

definition intent_decides :: "hop \<Rightarrow> bool" where
  "intent_decides h \<longleftrightarrow> d_basis (h_decision h) = Some Intended
     \<and> \<not> (h_kind h = KindUnknown \<and> d_prefix (h_decision h) = None)"

text \<open>The hops where intent decides, each place once, at its first hop.\<close>

fun first_places :: "state list \<Rightarrow> hop list \<Rightarrow> hop list" where
  "first_places seen [] = []"
| "first_places seen (h # hs) =
     (if \<not> intent_decides h \<or> h_at h \<in> set seen then first_places seen hs
      else h # first_places (h_at h # seen) hs)"

definition has_intent :: "walker \<Rightarrow> bool" where
  "has_intent w = (\<exists>ob\<in>set (w_obs w). o_plane ob = Intended \<and> (o_routes ob \<noteq> [] \<or> o_routes_complete ob))"

definition classify_hop :: "walker \<Rightarrow> explanation \<Rightarrow> hop \<Rightarrow> drift_finding option" where
  "classify_hop w e h =
     classify w (h_at h) (\<exists>x\<in>set (walk_hops (ex_forwarding e)). h_at x = h_at h) (fib_reach w (h_at h))
       (reach_below (fib_reach w) h) (fib_reach w (ex_source e))"

definition drift_of :: "walker \<Rightarrow> explanation \<Rightarrow> drift option" where
  "drift_of w e =
     (if \<not> has_intent w then None
      else
        (let src = ex_source e; root = fib_reach w src
         in case run w intended_planes start_trace src of (tr1, overlay) \<Rightarrow>
            case run w forwarding_planes tr1 src of (tr2, fwd) \<Rightarrow>
              (let trunc = tr_truncated tr1 \<or> tr_truncated tr2;
                   places = first_places [] (walk_hops overlay);
                   found = concat (map (\<lambda>h. case classify_hop w e h of None \<Rightarrow> [] | Some f \<Rightarrow> [f]) places);
                   l1 = foldl (\<lambda>l f. raise_level l (df_level f)) (if trunc then DriftUnknown else DriftNone) found;
                   l2 = (if places = [] then raise_level l1 DriftUnknown else l1);
                   whole = root = ReachFailed \<and> reach_of overlay = ReachOK \<and> l2 \<noteq> DriftReachabilityLost;
                   f = finding_at w src (h_decision overlay) (h_decision (ex_forwarding e)) DriftReachabilityLost (None, NoSingleNode)
               in Some \<lparr>dr_level = (if whole then raise_level l2 DriftReachabilityLost else l2),
                        dr_compared = length places, dr_truncated = trunc, dr_intended = overlay,
                        dr_findings = (if whole then found @ [f] else found)\<rparr>)))"


section \<open>Levels\<close>

lemma raise_level_max: "raise_level a b = max a b"
  by (auto simp: raise_level_def max_def)

lemma foldl_max:
  fixes b :: "'a :: linorder"
  shows "foldl (\<lambda>l x. max l (g x)) b xs = Max (insert b (g ` set xs))"
proof (induction xs arbitrary: b)
  case (Cons x xs)
  then show ?case by (cases "set xs = {}") (simp_all add: max.assoc)
qed simp

lemma max_Max_insert:
  fixes b :: "'a :: linorder"
  assumes "finite A"
  shows "max (Max (insert b A)) c = Max (insert (max b c) A)" "max (Max (insert b A)) c = Max (insert b (insert c A))"
  using assms by (cases "A = {}"; simp add: max.assoc max.commute max.left_commute)+

lemma drift_level_simps [simp]:
  "DriftNone \<le> l" "l \<le> DriftNone \<longleftrightarrow> l = DriftNone" "l \<le> DriftReachabilityLost"
  by (cases l; simp add: less_eq_drift_level_def)+

text \<open>What one finding rests on.\<close>

definition agrees :: "walker \<Rightarrow> state \<Rightarrow> bool" where
  "agrees w s =
     (case decide w [Intended] s of (intent, ih) \<Rightarrow>
      case decide w forwarding_planes s of (fib, fh) \<Rightarrow>
        concrete (d_kind intent) \<and> concrete (d_kind fib) \<and> d_proven intent
        \<and> same_decision intent ih fib fh \<and> d_prefix intent = d_prefix fib)"

lemma classify_none: "classify w s on sub want root = None \<longleftrightarrow> agrees w s"
proof -
  obtain intent ih fib fh where "decide w [Intended] s = (intent, ih)" "decide w forwarding_planes s = (fib, fh)"
    by (metis prod.exhaust)
  then show ?thesis by (auto simp: classify_def agrees_def Let_def)
qed

lemma finding_at_fields [simp]:
  "df_level (finding_at w s intent fib l detail) = l" "df_at (finding_at w s intent fib l detail) = s"
  "df_intended (finding_at w s intent fib l detail) = intent"
  "df_forwarding (finding_at w s intent fib l detail) = fib"
  by (simp_all add: finding_at_def)

definition sound_finding :: "walker \<Rightarrow> state \<Rightarrow> bool \<Rightarrow> reach \<Rightarrow> reach \<Rightarrow> reach \<Rightarrow> drift_finding \<Rightarrow> bool" where
  "sound_finding w s on sub want root f \<longleftrightarrow>
     df_at f = s
     \<and> (df_intended f, df_forwarding f) = (fst (decide w [Intended] s), fst (decide w forwarding_planes s))
     \<and> (case df_level f of
          DriftNone \<Rightarrow> False
        | DriftBenign \<Rightarrow> d_proven (df_intended f)
            \<and> (d_prefix (df_intended f) \<noteq> d_prefix (df_forwarding f) \<or> root = ReachOK \<and> sub = ReachOK)
        | DriftUnknown \<Rightarrow> True
        | DriftRedundancyLost \<Rightarrow> d_proven (df_intended f) \<and> root = ReachOK
        | DriftReachabilityLost \<Rightarrow> d_proven (df_intended f) \<and> on \<and> sub = ReachFailed \<and> want = ReachOK)"

lemma classify_sound:
  assumes "classify w s on sub want root = Some f"
  shows "sound_finding w s on sub want root f"
  using assms
  by (auto simp: classify_def sound_finding_def Let_def split: prod.splits if_splits)

section \<open>The places compared\<close>

lemma first_places_subset: "h \<in> set (first_places seen hs) \<Longrightarrow> h \<in> set hs \<and> intent_decides h \<and> h_at h \<notin> set seen"
  by (induction seen hs rule: first_places.induct) (auto split: if_splits)

lemma first_places_cover:
  "h \<in> set hs \<Longrightarrow> intent_decides h \<Longrightarrow> h_at h \<notin> set seen \<Longrightarrow> h_at h \<in> h_at ` set (first_places seen hs)"
proof (induction seen hs rule: first_places.induct)
  case (2 seen x hs)
  then show ?case by (cases "h_at h = h_at x"; cases "h = x") auto
qed simp

lemma first_places_at: "h_at ` set (first_places [] hs) = h_at ` {h\<in>set hs. intent_decides h}"
  using first_places_subset [of _ "[]" hs] first_places_cover [of _ hs "[]"] by fastforce

lemma first_places_distinct: "distinct (map h_at (first_places seen hs))"
  by (induction seen hs rule: first_places.induct) (auto dest: first_places_subset)

text \<open>The parts of a comparison: the two walks, the findings per place, and the finding at the source.\<close>

definition place_findings :: "walker \<Rightarrow> explanation \<Rightarrow> hop \<Rightarrow> drift_finding list" where
  "place_findings w e overlay =
     List.map_filter (classify_hop w e) (first_places [] (walk_hops overlay))"

lemma concat_option: "concat (map (\<lambda>h. case f h of None \<Rightarrow> [] | Some x \<Rightarrow> [x]) hs) = List.map_filter f hs"
  by (induction hs) (auto simp: map_filter_def split: option.splits)

lemma drift_of_parts:
  assumes "drift_of w e = Some d"
  obtains tr1 tr2 fwd whole where
    "run w intended_planes start_trace (ex_source e) = (tr1, dr_intended d)"
    "run w forwarding_planes tr1 (ex_source e) = (tr2, fwd)"
    "dr_truncated d = (tr_truncated tr1 \<or> tr_truncated tr2)"
    "dr_compared d = length (first_places [] (walk_hops (dr_intended d)))"
    "dr_findings d = place_findings w e (dr_intended d) @ whole"
    "whole = [] \<or> (\<exists>f. whole = [f] \<and> df_level f = DriftReachabilityLost \<and> df_at f = ex_source e
       \<and> fib_reach w (ex_source e) = ReachFailed \<and> reach_of (dr_intended d) = ReachOK)"
    "whole = [] \<and> fib_reach w (ex_source e) = ReachFailed \<and> reach_of (dr_intended d) = ReachOK
       \<longrightarrow> dr_level d = DriftReachabilityLost"
    "dr_level d = Max (insert (if dr_truncated d \<or> dr_compared d = 0 then DriftUnknown else DriftNone)
       (df_level ` set (dr_findings d)))"
proof -
  let ?src = "ex_source e"
  obtain tr1 overlay where r1: "run w intended_planes start_trace ?src = (tr1, overlay)" by fastforce
  obtain tr2 fwd where r2: "run w forwarding_planes tr1 ?src = (tr2, fwd)" by fastforce
  let ?trunc = "tr_truncated tr1 \<or> tr_truncated tr2"
  let ?places = "first_places [] (walk_hops overlay)"
  let ?found = "place_findings w e overlay"
  let ?l1 = "Max (insert (if ?trunc then DriftUnknown else DriftNone) (df_level ` set ?found))"
  let ?l2 = "if ?places = [] then max ?l1 DriftUnknown else ?l1"
  let ?whole = "fib_reach w ?src = ReachFailed \<and> reach_of overlay = ReachOK \<and> ?l2 \<noteq> DriftReachabilityLost"
  let ?f = "finding_at w ?src (h_decision overlay) (h_decision (ex_forwarding e)) DriftReachabilityLost (None, NoSingleNode)"
  have d: "d = \<lparr>dr_level = (if ?whole then max ?l2 DriftReachabilityLost else ?l2), dr_compared = length ?places,
             dr_truncated = ?trunc, dr_intended = overlay, dr_findings = (if ?whole then ?found @ [?f] else ?found)\<rparr>"
  proof -
    have "Some d = drift_of w e" "has_intent w" using assms by (auto simp: drift_of_def split: if_splits)
    then show ?thesis
      by (simp only: drift_of_def concat_option place_findings_def [symmetric] foldl_max raise_level_max Let_def
        r1 r2 prod.case if_False if_True not_not simp_thms option.inject)
  qed
  have l2: "?l2 = Max (insert (if ?trunc \<or> length ?places = 0 then DriftUnknown else DriftNone) (df_level ` set ?found))"
  proof (cases "?places = []")
    case True
    then have "?found = []" by (simp add: place_findings_def)
    then show ?thesis using True by (simp add: max_def)
  qed simp
  show ?thesis
  proof (rule that [of tr1 tr2 fwd "if ?whole then [?f] else []"])
    show "dr_level d = Max (insert (if dr_truncated d \<or> dr_compared d = 0 then DriftUnknown else DriftNone)
       (df_level ` set (dr_findings d)))"
    proof (cases ?whole)
      case True
      then have "dr_level d = max ?l2 DriftReachabilityLost" "set (dr_findings d) = insert ?f (set ?found)"
        by (simp_all only: d if_True drift.simps set_append) auto
      then have "dr_level d = max (Max (insert (if ?trunc \<or> length ?places = 0 then DriftUnknown else DriftNone)
          (df_level ` set ?found))) DriftReachabilityLost" "set (dr_findings d) = insert ?f (set ?found)"
        by (simp_all only: l2)
      moreover have "dr_truncated d = ?trunc" "dr_compared d = length ?places" by (simp_all only: d drift.simps)
      ultimately show ?thesis
        by (simp only: image_insert finding_at_fields max_Max_insert(2) [OF finite_imageI [OF finite_set]])
    next
      case False
      then show ?thesis by (simp only: d if_False drift.simps l2)
    qed
  qed (simp_all add: d r1 r2)
qed


section \<open>What a comparison says\<close>

lemma place_findings_in:
  assumes "f \<in> set (place_findings w e overlay)"
  obtains h where "h \<in> set (walk_hops overlay)" "intent_decides h" "classify_hop w e h = Some f"
  using assms by (auto simp: place_findings_def map_filter_def dest: first_places_subset)

lemma place_findings_empty:
  "place_findings w e overlay = [] \<longleftrightarrow> (\<forall>h\<in>set (walk_hops overlay). intent_decides h \<longrightarrow> agrees w (h_at h))"
proof -
  have "place_findings w e overlay = [] \<longleftrightarrow> (\<forall>h\<in>set (first_places [] (walk_hops overlay)). agrees w (h_at h))"
    by (auto simp: place_findings_def map_filter_def filter_empty_conv classify_hop_def classify_none)
  also have "\<dots> \<longleftrightarrow> (\<forall>s\<in>h_at ` set (first_places [] (walk_hops overlay)). agrees w s)" by simp
  also have "\<dots> \<longleftrightarrow> (\<forall>h\<in>set (walk_hops overlay). intent_decides h \<longrightarrow> agrees w (h_at h))"
    unfolding first_places_at by auto
  finally show ?thesis .
qed

lemma sound_not_none: "sound_finding w s on sub want root f \<Longrightarrow> df_level f \<noteq> DriftNone"
  by (auto simp: sound_finding_def)

lemma place_finding_sound:
  "classify_hop w e h = Some f \<Longrightarrow>
     sound_finding w (h_at h) (\<exists>x\<in>set (walk_hops (ex_forwarding e)). h_at x = h_at h) (fib_reach w (h_at h))
       (reach_below (fib_reach w) h) (fib_reach w (ex_source e)) f"
  unfolding classify_hop_def by (rule classify_sound)

lemma Max_is_none:
  "finite A \<Longrightarrow> Max (insert b A) = DriftNone \<longleftrightarrow> b = DriftNone \<and> (\<forall>l\<in>A. l = DriftNone)"
  by (metis Max_ge Max_in drift_level_simps(2) finite_insert insertE insertI1 insertI2 insert_not_empty)

definition sample_drift_model :: "route list \<Rightarrow> model" where
  "sample_drift_model rs =
     sample_model @ [(sample_fib ''r1'' [] rs)\<lparr>o_plane := Intended\<rparr>]"

definition sample_drift :: "route list \<Rightarrow> drift option" where
  "sample_drift rs =
     (case explain_walks (sample_topology\<lparr>fl_model := sample_drift_model rs\<rparr>) sample_dest of (e, w) \<Rightarrow> drift_of w e)"

definition sample_intent :: "route list" where
  "sample_intent = [sample_route (Prefix (Addr4 0x0A000000) 9) ''static'' [\<lparr>nh_addr = Addr4 0xC0000202, nh_iface = ''e0''\<rparr>]]"

lemma sample_drift_none: "case sample_drift sample_intent of None \<Rightarrow> False | Some d \<Rightarrow> dr_level d = DriftNone \<and> dr_compared d = 1"
  by code_simp

text \<open>
  The level of a comparison is exactly the worst of its findings, and at least unknown
  when a walk was cut short or intent decided nowhere, so neither ever reads as healthy.
\<close>

theorem drift_level_worst:
  assumes "drift_of w e = Some d"
  shows "dr_level d = Max (insert (if dr_truncated d \<or> dr_compared d = 0 then DriftUnknown else DriftNone)
           (df_level ` set (dr_findings d)))"
  using assms by (rule drift_of_parts)

theorem drift_level_worst_witness:
  "\<exists>w e d. drift_of w e = Some d \<and> \<not> dr_truncated d \<and> dr_compared d = 1
     \<and> dr_level d = Max (insert DriftNone (df_level ` set (dr_findings d))) \<and> dr_findings d \<noteq> []"
proof -
  let ?rs = "[sample_route (Prefix (Addr4 0x0A000000) 17) ''static'' [\<lparr>nh_addr = Addr4 0xC0000202, nh_iface = ''e0''\<rparr>]]"
  obtain e w where ew: "explain_walks (sample_topology\<lparr>fl_model := sample_drift_model ?rs\<rparr>) sample_dest = (e, w)" by fastforce
  have "case sample_drift ?rs of None \<Rightarrow> False | Some d \<Rightarrow> \<not> dr_truncated d \<and> dr_compared d = 1 \<and> dr_findings d \<noteq> []"
    by code_simp
  then obtain d where d: "drift_of w e = Some d" "\<not> dr_truncated d" "dr_compared d = 1" "dr_findings d \<noteq> []"
    using ew by (auto simp: sample_drift_def split: option.splits)
  with drift_level_worst [OF d(1)] show ?thesis by (auto simp del: Max_insert)
qed

text \<open>The place loses reachability: it lies on the forwarding walk, both tables decide there, the
  intended one from complete data and not to drop, they decide differently, forwarding from
  there certainly fails, and the intended decision with the forwarding tables after it
  certainly delivers.\<close>

definition loses_reach :: "walker \<Rightarrow> explanation \<Rightarrow> hop \<Rightarrow> bool" where
  "loses_reach w e h \<longleftrightarrow>
     (case decide w [Intended] (h_at h) of (intent, ih) \<Rightarrow>
      case decide w forwarding_planes (h_at h) of (fib, fh) \<Rightarrow>
        concrete (d_kind intent) \<and> concrete (d_kind fib) \<and> d_proven intent \<and> \<not> drops intent
        \<and> \<not> same_decision intent ih fib fh)
     \<and> h_at h \<in> h_at ` set (walk_hops (ex_forwarding e))
     \<and> fib_reach w (h_at h) = ReachFailed \<and> reach_below (fib_reach w) h = ReachOK"

lemma classify_lost:
  "(\<exists>f. classify_hop w e h = Some f \<and> df_level f = DriftReachabilityLost) \<longleftrightarrow> loses_reach w e h"
proof -
  obtain intent ih fib fh where d: "decide w [Intended] (h_at h) = (intent, ih)" "decide w forwarding_planes (h_at h) = (fib, fh)"
    by (metis prod.exhaust)
  have on: "(\<exists>x\<in>set (walk_hops (ex_forwarding e)). h_at x = h_at h) \<longleftrightarrow> h_at h \<in> h_at ` set (walk_hops (ex_forwarding e))"
    by (metis image_iff)
  show ?thesis
    unfolding classify_hop_def classify_def loses_reach_def d prod.case Let_def on
    by (auto split: if_splits)
qed

lemma Max_is_lost:
  assumes "finite A" "b \<noteq> DriftReachabilityLost"
  shows "Max (insert b A) = DriftReachabilityLost \<longleftrightarrow> DriftReachabilityLost \<in> A"
proof
  assume "Max (insert b A) = DriftReachabilityLost"
  then have "DriftReachabilityLost \<in> insert b A" using Max_in [of "insert b A"] assms(1) by simp
  with assms(2) show "DriftReachabilityLost \<in> A" by simp
next
  assume "DriftReachabilityLost \<in> A"
  then have "DriftReachabilityLost \<le> Max (insert b A)" using assms(1) by (intro Max_ge) simp_all
  then show "Max (insert b A) = DriftReachabilityLost" by (intro antisym) simp_all
qed

lemma place_findings_lost:
  "DriftReachabilityLost \<in> df_level ` set (place_findings w e overlay) \<longleftrightarrow>
     (\<exists>h\<in>set (first_places [] (walk_hops overlay)). loses_reach w e h)"
  unfolding place_findings_def classify_lost [symmetric] by (force simp: map_filter_def image_iff)

text \<open>
  C29. The two ends of the scale of drift. No drift is reported exactly when nothing was cut
  short, intent decided somewhere, the forwarding table decides the same from a complete
  intended table, on the same prefix, at every place of the intended walk where intent decides,
  and the whole path does not differ either: not that forwarding from the source certainly fails
  while the intended walk certainly delivers. Reachability is reported lost exactly when one of
  the places compared, each at the first hop that reaches it, loses reachability, or the whole
  path differs in that way.
\<close>

theorem drift_ends_exact:
  assumes "drift_of w e = Some d"
  shows "(dr_level d = DriftNone \<longleftrightarrow>
       \<not> dr_truncated d \<and> (\<exists>h\<in>set (walk_hops (dr_intended d)). intent_decides h)
       \<and> (\<forall>h\<in>set (walk_hops (dr_intended d)). intent_decides h \<longrightarrow> agrees w (h_at h))
       \<and> \<not> (fib_reach w (ex_source e) = ReachFailed \<and> reach_of (dr_intended d) = ReachOK))
    \<and> (dr_level d = DriftReachabilityLost \<longleftrightarrow>
       (\<exists>h\<in>set (first_places [] (walk_hops (dr_intended d))). loses_reach w e h)
       \<or> fib_reach w (ex_source e) = ReachFailed \<and> reach_of (dr_intended d) = ReachOK)"
proof -
  let ?hs = "walk_hops (dr_intended d)"
  from assms obtain whole where p:
    "dr_compared d = length (first_places [] ?hs)" "dr_findings d = place_findings w e (dr_intended d) @ whole"
    "whole = [] \<or> (\<exists>f. whole = [f] \<and> df_level f = DriftReachabilityLost \<and> df_at f = ex_source e
       \<and> fib_reach w (ex_source e) = ReachFailed \<and> reach_of (dr_intended d) = ReachOK)"
    "whole = [] \<and> fib_reach w (ex_source e) = ReachFailed \<and> reach_of (dr_intended d) = ReachOK
       \<longrightarrow> dr_level d = DriftReachabilityLost"
    "dr_level d = Max (insert (if dr_truncated d \<or> dr_compared d = 0 then DriftUnknown else DriftNone)
       (df_level ` set (dr_findings d)))"
    by (rule drift_of_parts)
  have places: "dr_compared d = 0 \<longleftrightarrow> \<not> (\<exists>h\<in>set ?hs. intent_decides h)"
  proof -
    have "dr_compared d = 0 \<longleftrightarrow> h_at ` set (first_places [] ?hs) = {}" by (simp add: p(1))
    also have "\<dots> \<longleftrightarrow> \<not> (\<exists>h\<in>set ?hs. intent_decides h)" unfolding first_places_at by auto
    finally show ?thesis .
  qed
  have found: "(\<forall>l\<in>df_level ` set (place_findings w e (dr_intended d)). l = DriftNone)
      \<longleftrightarrow> place_findings w e (dr_intended d) = []"
  proof -
    have "df_level f \<noteq> DriftNone" if "f \<in> set (place_findings w e (dr_intended d))" for f
      using that by (rule place_findings_in) (blast dest: place_finding_sound sound_not_none)
    then show ?thesis by (cases "place_findings w e (dr_intended d)") auto
  qed
  have "dr_level d = DriftNone \<longleftrightarrow> \<not> dr_truncated d \<and> dr_compared d \<noteq> 0
      \<and> place_findings w e (dr_intended d) = [] \<and> whole = []"
    unfolding p(5) Max_is_none [OF finite_imageI [OF finite_set]] using found p(2,3) by auto
  then have none: "dr_level d = DriftNone \<longleftrightarrow>
       \<not> dr_truncated d \<and> (\<exists>h\<in>set ?hs. intent_decides h) \<and> (\<forall>h\<in>set ?hs. intent_decides h \<longrightarrow> agrees w (h_at h))
       \<and> \<not> (fib_reach w (ex_source e) = ReachFailed \<and> reach_of (dr_intended d) = ReachOK)"
    using p(3,4) places place_findings_empty [of w e "dr_intended d"] by auto
  have "dr_level d = DriftReachabilityLost \<longleftrightarrow> DriftReachabilityLost \<in> df_level ` set (dr_findings d)"
    unfolding p(5) by (rule Max_is_lost) simp_all
  then have "dr_level d = DriftReachabilityLost \<longleftrightarrow>
       (\<exists>h\<in>set (first_places [] ?hs). loses_reach w e h) \<or> whole \<noteq> []"
    using p(3) unfolding p(2) set_append image_Un place_findings_lost [symmetric] by auto
  then show ?thesis
    using none p(3,4) by blast
qed

theorem drift_ends_exact_witness:
  "\<exists>w e d. drift_of w e = Some d \<and> dr_level d = DriftNone \<and> (\<exists>h\<in>set (walk_hops (dr_intended d)). intent_decides h \<and> agrees w (h_at h))"
proof -
  obtain e w where ew: "explain_walks (sample_topology\<lparr>fl_model := sample_drift_model sample_intent\<rparr>) sample_dest = (e, w)" by fastforce
  obtain d where d: "drift_of w e = Some d" "dr_level d = DriftNone"
    using ew sample_drift_none by (auto simp: sample_drift_def split: option.splits)
  from drift_ends_exact [OF d(1), THEN conjunct1, THEN iffD1, OF d(2)]
  obtain h where h: "h \<in> set (walk_hops (dr_intended d))" "intent_decides h" "agrees w (h_at h)" by blast
  show ?thesis
    by (rule exI [of _ w], rule exI [of _ e], rule exI [of _ d]) (intro conjI d bexI [OF _ h(1)] h)
qed

text \<open>
  What each finding rests on. A place is said to lose reachability only when the walk
  from the source passes it, its forwarding table certainly fails, and the intended decision
  there with the forwarding table after it certainly delivers; redundancy is said to be lost,
  and another route to be harmless, only while delivery from the source is proven.
\<close>

theorem drift_findings_sound:
  assumes "drift_of w e = Some d" and "f \<in> set (dr_findings d)"
  shows "(\<exists>h\<in>set (walk_hops (dr_intended d)). intent_decides h
             \<and> sound_finding w (h_at h) (\<exists>x\<in>set (walk_hops (ex_forwarding e)). h_at x = h_at h) (fib_reach w (h_at h))
                 (reach_below (fib_reach w) h) (fib_reach w (ex_source e)) f)
     \<or> (df_level f = DriftReachabilityLost \<and> df_at f = ex_source e
         \<and> fib_reach w (ex_source e) = ReachFailed \<and> reach_of (dr_intended d) = ReachOK)"
  using assms(1)
proof (rule drift_of_parts)
  fix tr1 tr2 fwd whole
  assume parts: "dr_findings d = place_findings w e (dr_intended d) @ whole"
    "whole = [] \<or> (\<exists>f. whole = [f] \<and> df_level f = DriftReachabilityLost \<and> df_at f = ex_source e
       \<and> fib_reach w (ex_source e) = ReachFailed \<and> reach_of (dr_intended d) = ReachOK)"
  consider "f \<in> set (place_findings w e (dr_intended d))" | "whole = [f]"
    using assms(2) parts by auto
  then show ?thesis
  proof cases
    case 1
    then show ?thesis by (elim place_findings_in) (blast dest: place_finding_sound)
  next
    case 2
    then show ?thesis using parts(2) by auto
  qed
qed

theorem drift_findings_sound_witness:
  "\<exists>w e d f. drift_of w e = Some d \<and> f \<in> set (dr_findings d) \<and> df_level f = DriftBenign
     \<and> (\<exists>h\<in>set (walk_hops (dr_intended d)). intent_decides h \<and> df_at f = h_at h \<and> d_proven (df_intended f))"
proof -
  let ?rs = "[sample_route (Prefix (Addr4 0x0A000000) 17) ''static'' [\<lparr>nh_addr = Addr4 0xC0000202, nh_iface = ''e0''\<rparr>]]"
  obtain e w where ew: "explain_walks (sample_topology\<lparr>fl_model := sample_drift_model ?rs\<rparr>) sample_dest = (e, w)" by fastforce
  have "case sample_drift ?rs of None \<Rightarrow> False
      | Some d \<Rightarrow> (case dr_findings d of [] \<Rightarrow> False | f # fs \<Rightarrow> df_level f = DriftBenign)"
    by code_simp
  then obtain d f fs where d: "drift_of w e = Some d" "dr_findings d = f # fs" "df_level f = DriftBenign"
    using ew by (auto simp: sample_drift_def split: option.splits list.splits)
  from d(2) have "f \<in> set (dr_findings d)" by simp
  from drift_findings_sound [OF d(1) this] d(3)
  obtain h where h: "h \<in> set (walk_hops (dr_intended d))" "intent_decides h" "df_at f = h_at h" "d_proven (df_intended f)"
    by (auto simp: sound_finding_def)
  with d \<open>f \<in> set (dr_findings d)\<close> show ?thesis by metis
qed

end
