(* ===== verification/Failures.thy ===== *)
theory Failures
  imports Drift
begin

text \<open>
  Which failure a simulation applies, \<^verbatim>\<open>failure.go\<close> and \<^verbatim>\<open>policy.go\<close>: the checks
  that refuse a failure the file does not describe, and what the records say of a lost
  adjacency, a lost next hop or an applied policy. An error is a constructor with the
  values its text prints. The policies of a decoded file are its selectors with the
  evaluation each has, since a file whose policies do not evaluate is refused on decoding.
\<close>

datatype failure_error =
    NoFailureNode
  | VrfWithoutNeighbor
  | SourceFails string
  | NodeNotDescribed string
  | NoSuchIface string string
  | AdjacencyParts
  | NoNeighborRecord string string string
  | AmbiguousAdjacency string string string "string list"
  | NextHopParts
  | NextHopWithNeighbor
  | NotAnAddress hop_text
  | LinkLocalNeedsIface string string addr
  | NoFibRoute string string addr
  | AmbiguousNextHop string "string list" addr
  | NextHopElsewhere state addr "string list" string
  | SeveralIfaces state addr "string list"
  | PolicyWithTunnels
  | PolicyCombined
  | NoPolicyEvidence
  | ZonedDestination addr
  | PolicyOneSource
  | NoSources

section \<open>A router or an interface\<close>

definition names_iface :: "observation \<Rightarrow> string \<Rightarrow> bool" where
  "names_iface ob name \<longleftrightarrow>
     (\<exists>i\<in>set (o_ifaces ob). i_name i = name) \<or> (\<exists>r\<in>set (o_routes ob). \<exists>n\<in>set (r_hops r). nh_iface n = name)"

definition describes_node :: "walker \<Rightarrow> string \<Rightarrow> observation list" where
  "describes_node w node = filter (\<lambda>ob. o_node ob = node \<and> o_plane ob \<in> set read_planes) (w_obs w)"

definition check_failure :: "walker \<Rightarrow> state \<Rightarrow> failure \<Rightarrow> failure_error + unit" where
  "check_failure w src f =
     (if f_node f = [] then Inl NoFailureNode
      else if f_vrf f \<noteq> [] then Inl VrfWithoutNeighbor
      else if f_iface f = [] \<and> f_node f = s_node src then Inl (SourceFails (f_node f))
      else if describes_node w (f_node f) = [] then Inl (NodeNotDescribed (f_node f))
      else if f_iface f \<noteq> [] \<and> \<not> (\<exists>ob\<in>set (describes_node w (f_node f)). names_iface ob (f_iface f))
        then Inl (NoSuchIface (f_node f) (f_iface f))
      else Inr ())"

section \<open>An OSPF adjacency\<close>

definition ospf_record :: "attribute list \<Rightarrow> bool" where
  "ospf_record attrs \<longleftrightarrow> (\<exists>a\<in>set attrs. has_prefix (attr_key a) ''ospf.'')"

definition attr_values :: "attribute list \<Rightarrow> string \<Rightarrow> string list" where
  "attr_values attrs key = map attr_value (filter (\<lambda>a. attr_key a = key) attrs)"

definition key_ospf_state :: string where "key_ospf_state = ''ospf.state''"
definition key_ospf_network_type :: string where "key_ospf_network_type = ''ospf.network_type''"

definition distinct_sorted :: "string list \<Rightarrow> string list" where
  "distinct_sorted xs = sort_func three_way (foldl append_new [] xs)"

definition names_adjacency :: "failure \<Rightarrow> neighbor \<Rightarrow> bool" where
  "names_adjacency f n \<longleftrightarrow> n_local n = f_iface f \<and> n_node n = f_ospf f \<and> ospf_record (n_attrs n)"

definition control_rows :: "walker \<Rightarrow> string \<Rightarrow> string \<Rightarrow> observation list" where
  "control_rows w node vrf =
     filter (\<lambda>ob. o_plane ob = Control \<and> o_node ob = node \<and> (vrf = [] \<or> o_vrf ob = vrf)) (w_obs w)"

definition adjacency_vrfs :: "walker \<Rightarrow> failure \<Rightarrow> string list" where
  "adjacency_vrfs w f =
     foldl append_new [] [o_vrf ob. ob \<leftarrow> control_rows w (f_node f) (f_vrf f), \<exists>n\<in>set (o_neighbors ob). names_adjacency f n]"

text \<open>What the rows of the adjacency's routing domain record: the neighbor's addresses, states
  and interfaces, the network types of the link, and its other OSPF neighbors.\<close>

definition named_records :: "walker \<Rightarrow> failure \<Rightarrow> (observation \<times> neighbor) list" where
  "named_records w f =
     [(ob, n). ob \<leftarrow> control_rows w (f_node f) (f_vrf f), o_vrf ob = f_vrf f, n \<leftarrow> o_neighbors ob, names_adjacency f n]"

definition record_states :: "neighbor \<Rightarrow> string list" where
  "record_states n =
     (case attr_values (n_attrs n) key_ospf_state of
        [] \<Rightarrow> [[]]
      | vs \<Rightarrow> map (\<lambda>v. to_lower (trim_space v)) vs)"

definition adjacency_addrs :: "walker \<Rightarrow> failure \<Rightarrow> addr list" where
  "adjacency_addrs w f = foldl append_new [] (map (\<lambda>(ob, n). n_addr n) (named_records w f))"

definition adjacency_states :: "walker \<Rightarrow> failure \<Rightarrow> string list" where
  "adjacency_states w f = distinct_sorted (concat (map (\<lambda>(ob, n). record_states n) (named_records w f)))"

definition adjacency_remotes :: "walker \<Rightarrow> failure \<Rightarrow> string list" where
  "adjacency_remotes w f =
     distinct_sorted (filter (\<lambda>r. r \<noteq> []) (map (\<lambda>(ob, n). n_remote n) (named_records w f)))"

definition link_rows :: "walker \<Rightarrow> failure \<Rightarrow> (observation \<times> string list) list" where
  "link_rows w f =
     [(ob, attr_values (i_attrs i) key_ospf_network_type). ob \<leftarrow> control_rows w (f_node f) (f_vrf f),
       o_vrf ob = f_vrf f, i \<leftarrow> o_ifaces ob,
       i_name i = f_iface f \<and> attr_values (i_attrs i) key_ospf_network_type \<noteq> []]"

definition adjacency_types :: "walker \<Rightarrow> failure \<Rightarrow> string list" where
  "adjacency_types w f = distinct_sorted (concat (map snd (link_rows w f)))"

definition adjacency_others :: "walker \<Rightarrow> failure \<Rightarrow> string list" where
  "adjacency_others w f =
     distinct_sorted [n_node n. ob \<leftarrow> control_rows w (f_node f) (f_vrf f), o_vrf ob = f_vrf f, n \<leftarrow> o_neighbors ob,
       n_local n = f_iface f \<and> ospf_record (n_attrs n) \<and> n_node n \<noteq> f_ospf f]"

definition adjacency_evidence :: "walker \<Rightarrow> failure \<Rightarrow> support list" where
  "adjacency_evidence w f =
     sort_supports (foldl append_new [] (concat (map (\<lambda>ob.
         [row_support (o_prov ob). n \<leftarrow> o_neighbors ob, names_adjacency f n]
         @ [row_support (o_prov ob). i \<leftarrow> o_ifaces ob,
              i_name i = f_iface f \<and> attr_values (i_attrs i) key_ospf_network_type \<noteq> []])
       (filter (\<lambda>ob. o_vrf ob = f_vrf f) (control_rows w (f_node f) (f_vrf f))))))"

definition adjacency_reason ::
  "failure \<Rightarrow> addr \<Rightarrow> string list \<Rightarrow> string list \<Rightarrow> string list \<Rightarrow> string list \<Rightarrow> adj_reason option" where
  "adjacency_reason f addr states remotes types others =
     (let e = \<lparr>e_node = f_node f, e_vrf = f_vrf f, e_iface = f_iface f\<rparr>
      in if \<not> addr_valid addr then Some (NoSingleAddress e (f_ospf f))
         else if [] \<in> set states then Some (StateMissing e)
         else if 1 < length states then Some (SeveralStates e states)
         else if hd states \<noteq> ''full'' then Some (StateNotFull e (hd states))
         else if 1 < length remotes then Some (SeveralRemotes e remotes)
         else if types = [] then Some (NoNetworkType e)
         else if 1 < length types then Some (SeveralTypes e types)
         else if hd types \<noteq> ''point-to-point'' then Some (NotPointToPoint e (hd types))
         else if others \<noteq> [] then Some (OtherNeighbors e others)
         else None)"

definition adjacency_of :: "walker \<Rightarrow> failure \<Rightarrow> failure_error + failure \<times> adjacency" where
  "adjacency_of w f =
     (if f_node f = [] \<or> f_iface f = [] then Inl AdjacencyParts
      else case adjacency_vrfs w f of
        [] \<Rightarrow> Inl (NoNeighborRecord (f_node f) (f_iface f) (f_ospf f))
      | [vrf] \<Rightarrow>
          (let f' = f\<lparr>f_vrf := vrf\<rparr>;
               addr = (case adjacency_addrs w f' of [a] \<Rightarrow> a | _ \<Rightarrow> ZeroAddr);
               remotes = adjacency_remotes w f'
           in Inr (f',
             \<lparr>adj_addr = addr, adj_remote = (case remotes of [r] \<Rightarrow> r | _ \<Rightarrow> []),
              adj_why = adjacency_reason f' addr (adjacency_states w f') remotes (adjacency_types w f') (adjacency_others w f'),
              adj_evidence = adjacency_evidence w f'\<rparr>))
      | vrfs \<Rightarrow> Inl (AmbiguousAdjacency (f_node f) (f_iface f) (f_ospf f) (sort_func three_way vrfs)))"

section \<open>A next hop\<close>

definition fib_rows :: "walker \<Rightarrow> string \<Rightarrow> string \<Rightarrow> observation list" where
  "fib_rows w node vrf =
     filter (\<lambda>ob. o_plane ob = FIB \<and> o_node ob = node \<and> (vrf = [] \<or> o_vrf ob = vrf)) (w_obs w)"

definition names_hop :: "addr \<Rightarrow> observation \<Rightarrow> bool" where
  "names_hop a ob \<longleftrightarrow> (\<exists>r\<in>set (o_routes ob). \<exists>n\<in>set (r_hops r). nh_addr n = a)"

definition gateway_vrfs :: "walker \<Rightarrow> failure \<Rightarrow> addr \<Rightarrow> string list" where
  "gateway_vrfs w f a = foldl append_new [] (map o_vrf (filter (names_hop a) (fib_rows w (f_node f) (f_vrf f))))"

definition gateway_legs :: "walker \<Rightarrow> failure \<Rightarrow> addr \<Rightarrow> (observation \<times> next_hop) list" where
  "gateway_legs w f a =
     [(ob, n). ob \<leftarrow> fib_rows w (f_node f) (f_vrf f), o_vrf ob = f_vrf f, r \<leftarrow> o_routes ob, n \<leftarrow> r_hops r, nh_addr n = a]"

definition gateway_ifaces :: "walker \<Rightarrow> failure \<Rightarrow> addr \<Rightarrow> string list" where
  "gateway_ifaces w f a = distinct_sorted (filter (\<lambda>i. i \<noteq> []) (map (\<lambda>(ob, n). nh_iface n) (gateway_legs w f a)))"

definition gateway_evidence :: "walker \<Rightarrow> failure \<Rightarrow> addr \<Rightarrow> support list" where
  "gateway_evidence w f a =
     foldl append_new [] [row_support (o_prov ob). (ob, n) \<leftarrow> gateway_legs w f a, f_iface f = [] \<or> nh_iface n = f_iface f]"

definition gateway_in :: "walker \<Rightarrow> failure \<Rightarrow> addr \<Rightarrow> failure_error + failure \<times> gateway" where
  "gateway_in w f a =
     (let ifaces = gateway_ifaces w f a; ev = gateway_evidence w f a; here = at (f_node f) (f_vrf f)
      in if f_iface f \<noteq> [] \<and> ev = [] then Inl (NextHopElsewhere here a ifaces (f_iface f))
         else if f_iface f = [] \<and> 1 < length ifaces then Inl (SeveralIfaces here a ifaces)
         else Inr (f, \<lparr>gw_owners = owners w a, gw_evidence = sort_supports ev, gw_addr = a\<rparr>))"

definition gateway_of :: "walker \<Rightarrow> failure \<Rightarrow> failure_error + failure \<times> gateway" where
  "gateway_of w f =
     (if f_node f = [] then Inl NextHopParts
      else if f_ospf f \<noteq> [] then Inl NextHopWithNeighbor
      else case f_hop f of
        HopAddr a0 \<Rightarrow>
          (if addr_zone a0 \<noteq> [] \<or> \<not> addr_valid a0 then Inl (NotAnAddress (f_hop f))
           else
             (let a = unmap a0; f' = f\<lparr>f_hop := HopAddr a\<rparr>
              in if addr_link_local a \<and> f_iface f = [] then Inl (LinkLocalNeedsIface (f_node f) (f_vrf f) a)
                 else case gateway_vrfs w f' a of
                   [] \<Rightarrow> Inl (NoFibRoute (f_node f) (f_vrf f) a)
                 | [vrf] \<Rightarrow> gateway_in w (f'\<lparr>f_vrf := vrf\<rparr>) a
                 | vrfs \<Rightarrow> Inl (AmbiguousNextHop (f_node f) (sort_func three_way vrfs) a)))
      | t \<Rightarrow> Inl (NotAnAddress t))"

section \<open>A policy\<close>

definition selected_policy ::
  "topology \<Rightarrow> (policy_selector \<times> policy_evaluation) list \<Rightarrow> failure \<Rightarrow> policy_selector
     \<Rightarrow> failure_error + failure \<times> policy_evaluation" where
  "selected_policy f policies fail p =
     (if fl_tunnels f \<noteq> [] then Inl PolicyWithTunnels
      else if f_iface fail \<noteq> [] \<or> f_hop fail \<noteq> NoHop \<or> f_ospf fail \<noteq> []
        \<or> (f_node fail \<noteq> [] \<and> f_node fail \<noteq> pol_node p) \<or> (f_vrf fail \<noteq> [] \<and> f_vrf fail \<noteq> pol_vrf p)
        then Inl PolicyCombined
      else case map_of policies p of
        Some evaluated \<Rightarrow> Inr (fail\<lparr>f_node := pol_node p, f_vrf := pol_vrf p\<rparr>, evaluated)
      | None \<Rightarrow> Inl NoPolicyEvidence)"

text \<open>The failure a simulation applies, and the walker with what the records say of it.\<close>

definition select_failure ::
  "topology \<Rightarrow> (policy_selector \<times> policy_evaluation) list \<Rightarrow> failure \<Rightarrow> failure_error + failure \<times> walker" where
  "select_failure f policies fail =
     (let w = new_walker f ZeroAddr
      in case f_policy fail of
           Some p \<Rightarrow> rbind (selected_policy f policies fail p) (\<lambda>(fail', ev). Inr (fail', w\<lparr>w_policy := Some ev\<rparr>))
         | None \<Rightarrow>
             (if f_hop fail \<noteq> NoHop then rbind (gateway_of w fail) (\<lambda>(fail', gw). Inr (fail', w\<lparr>w_gw := Some gw\<rparr>))
              else if f_ospf fail \<noteq> [] then rbind (adjacency_of w fail) (\<lambda>(fail', adj). Inr (fail', w\<lparr>w_adj := Some adj\<rparr>))
              else rbind (check_failure w (fl_source f) fail) (\<lambda>_. Inr (fail, w))))"


section \<open>Selections, row by row\<close>

lemma set_distinct_sorted [simp]: "set (distinct_sorted xs) = set xs"
  by (simp add: distinct_sorted_def)

lemma distinct_distinct_sorted [simp]: "distinct (distinct_sorted xs)"
  by (simp add: distinct_sorted_def)

lemma distinct_one:
  assumes "distinct xs"
  shows "\<not> 1 < length xs \<longleftrightarrow> (\<forall>x\<in>set xs. \<forall>y\<in>set xs. x = y)"
proof (cases xs)
  case (Cons x ys)
  then show ?thesis using assms by (cases ys) auto
qed simp

lemma distinct_single: "distinct xs \<Longrightarrow> xs = [x] \<longleftrightarrow> set xs = {x}"
  by (cases xs; cases "tl xs") auto

lemma case_single: "(case xs of [a] \<Rightarrow> P a | _ \<Rightarrow> False) \<longleftrightarrow> (\<exists>a. xs = [a] \<and> P a)"
  by (auto split: list.splits)

text \<open>The records of a point-to-point link whose only OSPF neighbor is full.\<close>

definition transit_recorded :: "walker \<Rightarrow> failure \<Rightarrow> bool" where
  "transit_recorded w f \<longleftrightarrow>
     (\<exists>a. addr_valid a \<and> (\<forall>(ob, n)\<in>set (named_records w f). n_addr n = a))
     \<and> (\<forall>(ob, n)\<in>set (named_records w f). attr_values (n_attrs n) key_ospf_state \<noteq> []
          \<and> (\<forall>v\<in>set (attr_values (n_attrs n) key_ospf_state). to_lower (trim_space v) = ''full''))
     \<and> (\<forall>(ob, n)\<in>set (named_records w f). \<forall>(ob', m)\<in>set (named_records w f).
          n_remote n = [] \<or> n_remote m = [] \<or> n_remote n = n_remote m)
     \<and> link_rows w f \<noteq> [] \<and> (\<forall>(ob, ts)\<in>set (link_rows w f). \<forall>t\<in>set ts. t = ''point-to-point'')
     \<and> (\<forall>ob\<in>set (control_rows w (f_node f) (f_vrf f)). o_vrf ob = f_vrf f \<longrightarrow>
          (\<forall>n\<in>set (o_neighbors ob). n_local n = f_iface f \<and> ospf_record (n_attrs n) \<longrightarrow> n_node n = f_ospf f))"

lemma states_full:
  assumes "distinct xs" "xs \<noteq> []"
  shows "[] \<notin> set xs \<and> \<not> 1 < length xs \<and> hd xs = ''full'' \<longleftrightarrow> set xs = {''full''}"
  using assms by (cases xs; cases "tl xs") auto

lemma record_states_full:
  "set (record_states n) = {''full''} \<longleftrightarrow>
     attr_values (n_attrs n) key_ospf_state \<noteq> []
     \<and> (\<forall>v\<in>set (attr_values (n_attrs n) key_ospf_state). to_lower (trim_space v) = ''full'')"
  by (auto simp: record_states_def split: list.split)

lemma record_states_nonempty [simp]: "record_states n \<noteq> []"
  by (simp add: record_states_def split: list.split)

lemma union_single:
  assumes "A \<noteq> {}" "\<And>x. x \<in> A \<Longrightarrow> g x \<noteq> {}"
  shows "(\<Union>x\<in>A. g x) = {c} \<longleftrightarrow> (\<forall>x\<in>A. g x = {c})"
proof
  assume "(\<Union>x\<in>A. g x) = {c}"
  then have "g x \<subseteq> {c}" if "x \<in> A" for x using that by blast
  then show "\<forall>x\<in>A. g x = {c}" using assms(2) by blast
qed (use assms(1) in blast)

lemma states_of_records:
  assumes "named_records w f \<noteq> []"
  shows "set (adjacency_states w f) = {''full''} \<longleftrightarrow>
     (\<forall>(ob, n)\<in>set (named_records w f). set (record_states n) = {''full''})"
proof -
  have "set (adjacency_states w f) = (\<Union>x\<in>set (named_records w f). set (record_states (snd x)))"
    by (auto simp: adjacency_states_def)
  then show ?thesis
    using assms by (simp add: union_single case_prod_beta)
qed

lemma link_types_nonempty: "x \<in> set (link_rows w f) \<Longrightarrow> snd x \<noteq> []"
  by (auto simp: link_rows_def)

lemma types_of_links:
  "set (adjacency_types w f) = {''point-to-point''} \<longleftrightarrow>
     link_rows w f \<noteq> [] \<and> (\<forall>(ob, ts)\<in>set (link_rows w f). \<forall>t\<in>set ts. t = ''point-to-point'')"
proof (cases "link_rows w f = []")
  case False
  have "set (adjacency_types w f) = (\<Union>x\<in>set (link_rows w f). set (snd x))"
    by (simp add: adjacency_types_def)
  moreover have "set (snd x) = {''point-to-point''} \<longleftrightarrow> (\<forall>t\<in>set (snd x). t = ''point-to-point'')"
    if "x \<in> set (link_rows w f)" for x
    using link_types_nonempty [OF that] by (cases "snd x") auto
  ultimately show ?thesis
    using False link_types_nonempty by (simp add: union_single case_prod_beta)
qed (simp add: adjacency_types_def distinct_sorted_def)

lemma in_named_records: "(ob, n) \<in> set (named_records w f) \<longleftrightarrow>
    ob \<in> set (control_rows w (f_node f) (f_vrf f)) \<and> o_vrf ob = f_vrf f \<and> n \<in> set (o_neighbors ob) \<and> names_adjacency f n"
  by (auto simp: named_records_def)

lemma named_records_nonempty: "named_records w f \<noteq> [] \<longleftrightarrow>
    (\<exists>ob\<in>set (control_rows w (f_node f) (f_vrf f)). o_vrf ob = f_vrf f \<and> (\<exists>n\<in>set (o_neighbors ob). names_adjacency f n))"
proof -
  have "named_records w f \<noteq> [] \<longleftrightarrow> (\<exists>ob n. (ob, n) \<in> set (named_records w f))"
    by (cases "named_records w f") auto
  then show ?thesis unfolding in_named_records by blast
qed

lemma vrf_recorded:
  assumes "adjacency_vrfs w f = [vrf]"
  shows "named_records w (f\<lparr>f_vrf := vrf\<rparr>) \<noteq> []"
proof -
  have "vrf \<in> set (adjacency_vrfs w f)" using assms by simp
  then obtain ob n where "ob \<in> set (control_rows w (f_node f) (f_vrf f))" "o_vrf ob = vrf"
    "n \<in> set (o_neighbors ob)" "names_adjacency f n"
    by (auto simp: adjacency_vrfs_def)
  then show ?thesis
    unfolding named_records_nonempty by (auto simp: control_rows_def names_adjacency_def)
qed

lemma address_agreed:
  assumes "named_records w f \<noteq> []"
  shows "addr_valid (case adjacency_addrs w f of [a] \<Rightarrow> a | _ \<Rightarrow> ZeroAddr) \<longleftrightarrow>
     (\<exists>a. addr_valid a \<and> (\<forall>(ob, n)\<in>set (named_records w f). n_addr n = a))"
proof -
  have "addr_valid (case adjacency_addrs w f of [a] \<Rightarrow> a | _ \<Rightarrow> ZeroAddr)
      \<longleftrightarrow> (\<exists>a. adjacency_addrs w f = [a] \<and> addr_valid a)"
    by (auto split: list.splits)
  also have "\<dots> \<longleftrightarrow> (\<exists>a. (\<Union>x\<in>set (named_records w f). {n_addr (snd x)}) = {a} \<and> addr_valid a)"
    by (subst distinct_single) (auto simp: adjacency_addrs_def case_prod_beta UNION_singleton_eq_range)
  also have "\<dots> \<longleftrightarrow> (\<exists>a. addr_valid a \<and> (\<forall>(ob, n)\<in>set (named_records w f). n_addr n = a))"
    using assms by (subst union_single) (auto simp: case_prod_beta)
  finally show ?thesis .
qed

lemma image_agree:
  "(\<forall>x\<in>g ` S - {e}. \<forall>y\<in>g ` S - {e}. x = y) \<longleftrightarrow> (\<forall>a\<in>S. \<forall>b\<in>S. g a = e \<or> g b = e \<or> g a = g b)"
  by auto

lemma remotes_agreed:
  "\<not> 1 < length (adjacency_remotes w f) \<longleftrightarrow>
     (\<forall>(ob, n)\<in>set (named_records w f). \<forall>(ob', m)\<in>set (named_records w f).
          n_remote n = [] \<or> n_remote m = [] \<or> n_remote n = n_remote m)"
proof -
  have "set (adjacency_remotes w f) = (\<lambda>x. n_remote (snd x)) ` set (named_records w f) - {[]}"
    by (force simp: adjacency_remotes_def)
  moreover have "distinct (adjacency_remotes w f)" by (simp add: adjacency_remotes_def)
  ultimately show ?thesis
    by (simp only: distinct_one image_agree case_prod_beta')
qed

lemma others_absent:
  "adjacency_others w f = [] \<longleftrightarrow>
     (\<forall>ob\<in>set (control_rows w (f_node f) (f_vrf f)). o_vrf ob = f_vrf f \<longrightarrow>
          (\<forall>n\<in>set (o_neighbors ob). n_local n = f_iface f \<and> ospf_record (n_attrs n) \<longrightarrow> n_node n = f_ospf f))"
proof -
  have "adjacency_others w f = [] \<longleftrightarrow> set (adjacency_others w f) = {}" by simp
  also have "set (adjacency_others w f) = {n_node n | ob n. ob \<in> set (control_rows w (f_node f) (f_vrf f))
      \<and> o_vrf ob = f_vrf f \<and> n \<in> set (o_neighbors ob) \<and> n_local n = f_iface f \<and> ospf_record (n_attrs n) \<and> n_node n \<noteq> f_ospf f}"
    by (auto simp: adjacency_others_def)
  also have "\<dots> = {} \<longleftrightarrow> (\<forall>ob\<in>set (control_rows w (f_node f) (f_vrf f)). o_vrf ob = f_vrf f \<longrightarrow>
          (\<forall>n\<in>set (o_neighbors ob). n_local n = f_iface f \<and> ospf_record (n_attrs n) \<longrightarrow> n_node n = f_ospf f))"
    by blast
  finally show ?thesis .
qed

lemma adjacency_reason_none:
  assumes "distinct states" "states \<noteq> []" "distinct types"
  shows "adjacency_reason f a states remotes types others = None \<longleftrightarrow>
     addr_valid a \<and> set states = {''full''} \<and> \<not> 1 < length remotes \<and> set types = {''point-to-point''} \<and> others = []"
proof -
  have types: "types \<noteq> [] \<and> \<not> 1 < length types \<and> hd types = ''point-to-point'' \<longleftrightarrow> set types = {''point-to-point''}"
    using assms(3) by (cases types; cases "tl types") auto
  show ?thesis
    unfolding adjacency_reason_def Let_def states_full [OF assms(1,2), symmetric] types [symmetric]
    by auto
qed

lemma adjacency_of_cases:
  assumes "adjacency_of w f = Inr (f', adj)"
  obtains vrf where "adjacency_vrfs w f = [vrf]" "f' = f\<lparr>f_vrf := vrf\<rparr>"
    "adj_addr adj = (case adjacency_addrs w f' of [a] \<Rightarrow> a | _ \<Rightarrow> ZeroAddr)"
    "adj_why adj = adjacency_reason f' (adj_addr adj) (adjacency_states w f') (adjacency_remotes w f')
       (adjacency_types w f') (adjacency_others w f')"
  using assms by (auto simp: adjacency_of_def Let_def split: if_splits list.splits)

definition sample_ospf :: "string \<Rightarrow> observation" where
  "sample_ospf network =
     (sample_fib ''r1'' [(sample_iface ''e0'' (Prefix (Addr4 0xC0000201) 25))
          \<lparr>i_attrs := [\<lparr>attr_key = key_ospf_network_type, attr_value = network\<rparr>]\<rparr>] [])
       \<lparr>o_plane := Control,
        o_neighbors := [\<lparr>n_local = ''e0'', n_node = ''r2'', n_remote = ''e1'', n_addr = Addr4 0xC0000202,
                         n_attrs = [\<lparr>attr_key = key_ospf_state, attr_value = '' Full''\<rparr>]\<rparr>]\<rparr>"

definition lost_adjacency :: failure where
  "lost_adjacency = \<lparr>f_node = ''r1'', f_iface = ''e0'', f_vrf = [], f_ospf = ''r2'', f_hop = NoHop, f_policy = None\<rparr>"

text \<open>
  C30. A lost adjacency is taken to be proven exactly when the rows of its one routing domain
  record a point-to-point link whose only OSPF neighbor has one address and at most one named
  interface and is full in every record; the order, the repetition and the source of the rows
  do not matter.
\<close>

theorem adjacency_exact:
  assumes "adjacency_of w f = Inr (f', adj)"
  shows "adj_proven adj \<longleftrightarrow> transit_recorded w f'"
proof -
  from assms obtain vrf where vrf: "adjacency_vrfs w f = [vrf]" "f' = f\<lparr>f_vrf := vrf\<rparr>"
    and a: "adj_addr adj = (case adjacency_addrs w f' of [a] \<Rightarrow> a | _ \<Rightarrow> ZeroAddr)"
    and why: "adj_why adj = adjacency_reason f' (adj_addr adj) (adjacency_states w f') (adjacency_remotes w f')
       (adjacency_types w f') (adjacency_others w f')"
    by (rule adjacency_of_cases)
  have rows: "named_records w f' \<noteq> []" using vrf_recorded [OF vrf(1)] vrf(2) by simp
  have "distinct (adjacency_states w f')" "distinct (adjacency_types w f')"
    by (simp_all add: adjacency_states_def adjacency_types_def)
  moreover have "adjacency_states w f' \<noteq> []"
  proof -
    obtain ob n where "(ob, n) \<in> set (named_records w f')" using rows by (cases "named_records w f'") auto
    moreover obtain v where "v \<in> set (record_states n)" by (meson last_in_set record_states_nonempty)
    ultimately have "v \<in> set (adjacency_states w f')" by (force simp: adjacency_states_def)
    then show ?thesis by auto
  qed
  ultimately have "adj_proven adj \<longleftrightarrow> addr_valid (adj_addr adj) \<and> set (adjacency_states w f') = {''full''}
      \<and> \<not> 1 < length (adjacency_remotes w f') \<and> set (adjacency_types w f') = {''point-to-point''}
      \<and> adjacency_others w f' = []"
    unfolding adj_proven_def why by (intro adjacency_reason_none)
  then show ?thesis
    unfolding transit_recorded_def a address_agreed [OF rows] states_of_records [OF rows] record_states_full
      types_of_links remotes_agreed others_absent by (simp only: conj_assoc)
qed

theorem adjacency_exact_witness:
  "\<exists>w f' adj. adjacency_of w lost_adjacency = Inr (f', adj) \<and> adj_proven adj \<and> transit_recorded w f'
     \<and> f_vrf f' = ''default''"
proof -
  let ?w = "new_walker (sample_topology\<lparr>fl_model := [sample_ospf ''point-to-point'']\<rparr>) ZeroAddr"
  have "case adjacency_of ?w lost_adjacency of Inl _ \<Rightarrow> False
      | Inr (f', adj) \<Rightarrow> adj_proven adj \<and> f_vrf f' = ''default''"
    by code_simp
  then obtain f' adj where a: "adjacency_of ?w lost_adjacency = Inr (f', adj)" "adj_proven adj" "f_vrf f' = ''default''"
    by (auto split: sum.splits)
  from adjacency_exact [OF a(1)] a show ?thesis by blast
qed

text \<open>Where a FIB row of the failure's node names a next hop.\<close>

definition hop_recorded :: "walker \<Rightarrow> failure \<Rightarrow> addr \<Rightarrow> string \<Rightarrow> string \<Rightarrow> bool" where
  "hop_recorded w f a vrf iface \<longleftrightarrow>
     (\<exists>ob\<in>set (w_obs w). o_plane ob = FIB \<and> o_node ob = f_node f \<and> o_vrf ob = vrf \<and> (f_vrf f = [] \<or> vrf = f_vrf f)
        \<and> (\<exists>r\<in>set (o_routes ob). \<exists>n\<in>set (r_hops r). nh_addr n = a \<and> nh_iface n = iface))"

lemma gateway_vrfs_recorded:
  "set (gateway_vrfs w f a) = {vrf. \<exists>iface. hop_recorded w f a vrf iface}"
  by (auto simp: gateway_vrfs_def hop_recorded_def fib_rows_def names_hop_def)

lemma gateway_legs_recorded:
  "f_vrf f = [] \<or> vrf = f_vrf f \<Longrightarrow>
     (\<exists>ob n. (ob, n) \<in> set (gateway_legs w (f\<lparr>f_vrf := vrf, f_hop := h\<rparr>) a) \<and> nh_iface n = iface)
       \<longleftrightarrow> hop_recorded w f a vrf iface"
  by (auto simp: gateway_legs_def hop_recorded_def fib_rows_def)

lemma single_iff_ex1: "distinct xs \<Longrightarrow> (\<exists>x. xs = [x]) \<longleftrightarrow> (\<exists>!x. x \<in> set xs)"
  by (cases xs; cases "tl xs") auto

lemma vrf_chosen: "hop_recorded w f a vrf iface \<Longrightarrow> f_vrf f = [] \<or> vrf = f_vrf f"
  by (auto simp: hop_recorded_def)

lemma gateway_in_accepts:
  fixes f :: failure and a :: addr
  assumes "f_vrf f = [] \<or> vrf = f_vrf f"
  defines "f' \<equiv> f\<lparr>f_vrf := vrf, f_hop := HopAddr a\<rparr>"
  shows "(\<exists>r. gateway_in w f' a = Inr r) \<longleftrightarrow>
     (if f_iface f \<noteq> [] then hop_recorded w f a vrf (f_iface f)
      else \<forall>i j. hop_recorded w f a vrf i \<and> hop_recorded w f a vrf j \<and> i \<noteq> [] \<and> j \<noteq> [] \<longrightarrow> i = j)"
proof -
  note legs = gateway_legs_recorded [OF assms(1), where h = "HopAddr a" and a = a, folded f'_def]
  have iface: "f_iface f' = f_iface f" by (simp add: f'_def)
  have ev: "gateway_evidence w f' a \<noteq> [] \<longleftrightarrow> hop_recorded w f a vrf (f_iface f)" if "f_iface f \<noteq> []"
  proof -
    have "gateway_evidence w f' a \<noteq> [] \<longleftrightarrow> (\<exists>x. x \<in> set (gateway_evidence w f' a))"
      by (cases "gateway_evidence w f' a") auto
    also have "\<dots> \<longleftrightarrow> (\<exists>ob n. (ob, n) \<in> set (gateway_legs w f' a) \<and> nh_iface n = f_iface f)"
      using that by (auto simp: gateway_evidence_def iface)
    finally show ?thesis using legs by simp
  qed
  have "\<not> 1 < length (gateway_ifaces w f' a) \<longleftrightarrow>
      (\<forall>i j. hop_recorded w f a vrf i \<and> hop_recorded w f a vrf j \<and> i \<noteq> [] \<and> j \<noteq> [] \<longrightarrow> i = j)"
  proof -
    have "set (gateway_ifaces w f' a) = {i. hop_recorded w f a vrf i \<and> i \<noteq> []}"
      unfolding legs [symmetric] by (force simp: gateway_ifaces_def)
    moreover have "distinct (gateway_ifaces w f' a)" by (simp add: gateway_ifaces_def)
    ultimately show ?thesis by (simp only: distinct_one) blast
  qed
  with ev iface show ?thesis by (auto simp: gateway_in_def Let_def)
qed

definition singled_out :: "walker \<Rightarrow> failure \<Rightarrow> addr \<Rightarrow> bool" where
  "singled_out w f a \<longleftrightarrow> (\<exists>vrf. {v. \<exists>i. hop_recorded w f a v i} = {vrf}
        \<and> (if f_iface f \<noteq> [] then hop_recorded w f a vrf (f_iface f)
           else \<forall>i j. hop_recorded w f a vrf i \<and> hop_recorded w f a vrf j \<and> i \<noteq> [] \<and> j \<noteq> [] \<longrightarrow> i = j))"

text \<open>
  C31. A lost next hop is accepted exactly when the recorded forwarding tables single it out:
  the address is a plain address, one with a link when it is link-local, exactly one routing
  domain of the node (the named one, when one is named) has a FIB route through it, and the
  rows name the given interface, or at most one interface when none is given. Every other
  selection is refused with an error, so a mistyped next hop never reads as a harmless loss.
\<close>

theorem gateway_exact:
  fixes f :: failure
  shows "(\<exists>f' gw. gateway_of w f = Inr (f', gw)) \<longleftrightarrow>
     f_node f \<noteq> [] \<and> f_ospf f = [] \<and>
     (\<exists>a0. f_hop f = HopAddr a0 \<and> addr_valid a0 \<and> addr_zone a0 = []
        \<and> (addr_link_local (unmap a0) \<longrightarrow> f_iface f \<noteq> []) \<and> singled_out w f (unmap a0))"
proof (cases "f_node f \<noteq> [] \<and> f_ospf f = [] \<and> (\<exists>a0. f_hop f = HopAddr a0 \<and> addr_valid a0 \<and> addr_zone a0 = []
    \<and> (addr_link_local (unmap a0) \<longrightarrow> f_iface f \<noteq> []))")
  case True
  then obtain a0 where a0: "f_hop f = HopAddr a0" "addr_valid a0" "addr_zone a0 = []"
    "addr_link_local (unmap a0) \<longrightarrow> f_iface f \<noteq> []" by blast
  let ?a = "unmap a0" and ?f = "f\<lparr>f_hop := HopAddr (unmap a0)\<rparr>"
  have same: "hop_recorded w ?f = hop_recorded w f" by (simp add: hop_recorded_def fun_eq_iff)
  have of: "gateway_of w f = (case gateway_vrfs w ?f ?a of
                   [] \<Rightarrow> Inl (NoFibRoute (f_node f) (f_vrf f) ?a)
                 | [vrf] \<Rightarrow> gateway_in w (?f\<lparr>f_vrf := vrf\<rparr>) ?a
                 | vrfs \<Rightarrow> Inl (AmbiguousNextHop (f_node f) (sort_func three_way vrfs) ?a))"
    using True a0 by (auto simp: gateway_of_def Let_def)
  have "distinct (gateway_vrfs w ?f ?a)" by (simp add: gateway_vrfs_def)
  note single = distinct_single [OF this, unfolded gateway_vrfs_recorded same]
  have "(\<exists>f' gw. gateway_of w f = Inr (f', gw)) \<longleftrightarrow>
      (\<exists>vrf. gateway_vrfs w ?f ?a = [vrf] \<and> (\<exists>r. gateway_in w (?f\<lparr>f_vrf := vrf\<rparr>) ?a = Inr r))"
    unfolding of by (auto split: list.splits)
  also have "\<dots> \<longleftrightarrow> (\<exists>vrf. {v. \<exists>i. hop_recorded w f ?a v i} = {vrf}
        \<and> (if f_iface f \<noteq> [] then hop_recorded w f ?a vrf (f_iface f)
           else \<forall>i j. hop_recorded w f ?a vrf i \<and> hop_recorded w f ?a vrf j \<and> i \<noteq> [] \<and> j \<noteq> [] \<longrightarrow> i = j))"
  proof (rule arg_cong [where f = Ex], rule ext, rule conj_cong [OF single])
    fix vrf
    assume "{v. \<exists>i. hop_recorded w f ?a v i} = {vrf}"
    then have "vrf \<in> {v. \<exists>i. hop_recorded w f ?a v i}" by simp
    then have "f_vrf f = [] \<or> vrf = f_vrf f" using vrf_chosen [of w f ?a vrf] by blast
    have swap: "?f\<lparr>f_vrf := vrf\<rparr> = f\<lparr>f_vrf := vrf, f_hop := HopAddr ?a\<rparr>" by (cases f) simp
    from gateway_in_accepts [OF \<open>f_vrf f = [] \<or> vrf = f_vrf f\<close>, of w ?a] show "(\<exists>r. gateway_in w (?f\<lparr>f_vrf := vrf\<rparr>) ?a = Inr r) \<longleftrightarrow>
        (if f_iface f \<noteq> [] then hop_recorded w f ?a vrf (f_iface f)
         else \<forall>i j. hop_recorded w f ?a vrf i \<and> hop_recorded w f ?a vrf j \<and> i \<noteq> [] \<and> j \<noteq> [] \<longrightarrow> i = j)"
      unfolding swap .
  qed
  finally have "(\<exists>f' gw. gateway_of w f = Inr (f', gw)) \<longleftrightarrow> singled_out w f ?a"
    unfolding singled_out_def .
  moreover have "f_node f \<noteq> []" "f_ospf f = []" using True by blast+
  ultimately show ?thesis using a0 by auto
next
  case False
  then have "gateway_of w f \<noteq> Inr r" for r
    by (auto simp: gateway_of_def Let_def split: hop_text.splits)
  then show ?thesis using False by blast
qed

definition lost_hop :: "string \<Rightarrow> failure" where
  "lost_hop iface = \<lparr>f_node = ''r1'', f_iface = iface, f_vrf = [], f_ospf = [], f_hop = HopAddr (Addr4 0xC0000202), f_policy = None\<rparr>"

theorem gateway_exact_witness:
  "(\<exists>vrf. hop_recorded (new_walker sample_topology ZeroAddr) (lost_hop ''e0'') (Addr4 0xC0000202) vrf ''e0'')
     \<and> \<not> (\<exists>vrf. {v. \<exists>i. hop_recorded (new_walker sample_topology ZeroAddr) (lost_hop ''e9'') (Addr4 0xC0000202) v i} = {vrf}
            \<and> hop_recorded (new_walker sample_topology ZeroAddr) (lost_hop ''e9'') (Addr4 0xC0000202) vrf ''e9'')"
proof -
  let ?w = "new_walker sample_topology ZeroAddr"
  have "case gateway_of ?w (lost_hop ''e0'') of Inl _ \<Rightarrow> False | Inr (f', gw) \<Rightarrow> f_vrf f' = ''default''"
    by code_simp
  then have "\<exists>f' gw. gateway_of ?w (lost_hop ''e0'') = Inr (f', gw)" by (auto split: sum.splits)
  from this [unfolded gateway_exact] have good: "\<exists>vrf. hop_recorded ?w (lost_hop ''e0'') (Addr4 0xC0000202) vrf ''e0''"
    by (auto simp: lost_hop_def singled_out_def)
  have "case gateway_of ?w (lost_hop ''e9'') of Inl _ \<Rightarrow> True | Inr _ \<Rightarrow> False"
    by code_simp
  then have "\<not> (\<exists>f' gw. gateway_of ?w (lost_hop ''e9'') = Inr (f', gw))" by (auto split: sum.splits)
  from this [unfolded gateway_exact]
  have "\<not> (\<exists>vrf. {v. \<exists>i. hop_recorded ?w (lost_hop ''e9'') (Addr4 0xC0000202) v i} = {vrf}
      \<and> hop_recorded ?w (lost_hop ''e9'') (Addr4 0xC0000202) vrf ''e9'')"
    by (simp add: lost_hop_def singled_out_def)
  with good show ?thesis by blast
qed

end
