(* ===== verification/Simulate.thy ===== *)
theory Simulate
  imports Failures
begin

text \<open>
  The failure simulation, \<^verbatim>\<open>Simulate\<close> of \<^verbatim>\<open>failure.go\<close>: for each destination
  the walk with the failure applied, the walk without it where the first met the failure, the
  rating of the pair with its guards, and the bounds on destinations, visits and output.
\<close>

definition max_destinations :: nat where "max_destinations = 256"
definition max_sim_states :: int where "max_sim_states = 32 * int max_states"

datatype impact = ImpactNone | ImpactRedundancyLost | ImpactReachabilityLost | ImpactUnknown

datatype impact_reason =
    NoImpact
  | UnprovenBefore
  | UndeliveredBefore
  | SurvivorsDeliver
  | BranchCut
  | SurvivorsUnproven
  | PolicyRecomputes
  | OspfRecomputes
  | StillListsLost
  | StillListsFar segment
  | BgpMayChange impact state "prefix option" "support list"
  | ProtocolMayReroute state "support list"

record affected =
  af_dest :: addr
  af_owners :: "state list"
  af_impact :: impact
  af_reason :: impact_reason
  af_after :: "hop option"

record simulation =
  sim_failure :: failure
  sim_adjacency :: "adjacency option"
  sim_gateway :: "gateway option"
  sim_policy :: "policy_evaluation option"
  sim_source :: state
  sim_considered :: nat
  sim_unchanged :: nat
  sim_affected :: "affected list"
  sim_truncated :: bool

section \<open>Ratings\<close>

definition rate :: "reach \<Rightarrow> reach \<Rightarrow> bool \<Rightarrow> impact \<times> impact_reason" where
  "rate before after touched =
     (if before = ReachUnknown then (ImpactUnknown, UnprovenBefore)
      else if \<not> touched then (ImpactNone, NoImpact)
      else if before = ReachFailed then (ImpactUnknown, UndeliveredBefore)
      else if after = ReachOK then (ImpactRedundancyLost, SurvivorsDeliver)
      else if after = ReachFailed then (ImpactReachabilityLost, BranchCut)
      else (ImpactUnknown, SurvivorsUnproven))"

definition is_protocol :: "string \<Rightarrow> bool" where
  "is_protocol name \<longleftrightarrow> name = origin_ospf \<or> name = origin_bgp"

definition protocol_rows :: "walker \<Rightarrow> hop \<Rightarrow> support list" where
  "protocol_rows w h =
     (if h_kind h \<noteq> KindForward then []
      else foldl append_new []
        (filter (\<lambda>e. is_protocol (sup_origin e)) (d_evidence (h_decision h))
         @ [(row_support (o_prov ob))\<lparr>sup_origin := r_origin r\<rparr>. ob \<leftarrow> w_obs w, row_at (h_at h) Control ob,
              r \<leftarrow> o_routes ob, prefix_contains (r_prefix r) (w_dest w) \<and> is_protocol (r_origin r)]))"

text \<open>
  The branches left with no surviving next hop: the flag says that one of them forwards by no
  protocol route, and otherwise the hop is the first one on such a branch that does.
\<close>

definition first_loss :: "(bool \<times> hop option) list \<Rightarrow> bool \<times> hop option" where
  "first_loss rs =
     (if \<exists>r\<in>set rs. fst r then (True, None)
      else (False, foldl (\<lambda>first r. if first = None then snd r else first) None rs))"

fun protocol_loss :: "walker \<Rightarrow> hop \<Rightarrow> hop option \<Rightarrow> bool \<times> hop option" where
  "protocol_loss w (Hop s via d next) on =
     (let h = Hop s via d next;
          on' = (if on = None \<and> protocol_rows w h \<noteq> [] then Some h else on)
      in if next \<noteq> [] \<and> (\<forall>c\<in>set next. h_kind c = KindFailed)
         then if reach_of h \<noteq> ReachFailed then (False, None) else (on' = None, on')
         else first_loss (map (\<lambda>c. protocol_loss w c on') next))"

definition far_leg :: "failure \<Rightarrow> hop \<Rightarrow> segment option" where
  "far_leg f after =
     (case filter (\<lambda>h. h_kind h = KindFailed \<and> (case h_via h of Some seg \<Rightarrow> seg_from seg \<noteq> f_node f | None \<Rightarrow> False))
             (walk_hops after) of
        [] \<Rightarrow> None
      | h # _ \<Rightarrow> h_via h)"

text \<open>The guards, each over the rating the ones before it leave.\<close>

definition guard_policy :: "walker \<Rightarrow> bool \<Rightarrow> impact \<times> impact_reason \<Rightarrow> impact \<times> impact_reason" where
  "guard_policy w touched r = (if w_policy w \<noteq> None \<and> touched then (ImpactUnknown, PolicyRecomputes) else r)"

definition guard_adjacency :: "walker \<Rightarrow> impact \<times> impact_reason \<Rightarrow> impact \<times> impact_reason" where
  "guard_adjacency w r =
     (if fst r = ImpactReachabilityLost \<and> w_adj w \<noteq> None then (ImpactUnknown, OspfRecomputes) else r)"

definition guard_gateway :: "walker \<Rightarrow> impact \<times> impact_reason \<Rightarrow> impact \<times> impact_reason" where
  "guard_gateway w r =
     (if fst r = ImpactRedundancyLost \<and> w_gw w \<noteq> None then (ImpactUnknown, StillListsLost) else r)"

definition guard_far :: "walker \<Rightarrow> failure \<Rightarrow> hop \<Rightarrow> impact \<times> impact_reason \<Rightarrow> impact \<times> impact_reason" where
  "guard_far w f after r =
     (if fst r = ImpactRedundancyLost \<and> w_gw w = None \<and> w_adj w = None then
        (case far_leg f after of Some seg \<Rightarrow> (ImpactUnknown, StillListsFar seg) | None \<Rightarrow> r)
      else r)"

definition guard_bgp :: "walker \<Rightarrow> hop \<Rightarrow> impact \<times> impact_reason \<Rightarrow> impact \<times> impact_reason" where
  "guard_bgp w after r =
     (if (fst r = ImpactNone \<or> fst r = ImpactRedundancyLost) \<and> w_gw w = None \<and> w_adj w = None \<and> w_policy w = None then
        (case bgp_forwarding after of
           Some (x, rows) \<Rightarrow> (ImpactUnknown, BgpMayChange (fst r) (h_at x) (d_prefix (h_decision x)) rows)
         | None \<Rightarrow> r)
      else r)"

definition gone :: "walker \<Rightarrow> failure \<Rightarrow> addr \<Rightarrow> bool" where
  "gone w f d \<longleftrightarrow> f_iface f = [] \<and> owners w d \<noteq> [] \<and> (\<forall>s\<in>set (owners w d). s_node s = f_node f)"

definition guard_protocol :: "walker \<Rightarrow> failure \<Rightarrow> addr \<Rightarrow> hop \<Rightarrow> impact \<times> impact_reason \<Rightarrow> impact \<times> impact_reason" where
  "guard_protocol w f d after r =
     (if fst r = ImpactReachabilityLost \<and> w_gw w = None \<and> w_adj w = None \<and> w_policy w = None \<and> \<not> gone w f d then
        (case protocol_loss w after None of
           (False, Some x) \<Rightarrow> (ImpactUnknown, ProtocolMayReroute (h_at x) (protocol_rows w x))
         | _ \<Rightarrow> r)
      else r)"

definition rating :: "walker \<Rightarrow> failure \<Rightarrow> hop \<Rightarrow> hop \<Rightarrow> bool \<Rightarrow> impact \<times> impact_reason" where
  "rating w f before after touched =
     guard_protocol w f (w_dest w) after (guard_bgp w after (guard_far w f after
       (guard_gateway w (guard_adjacency w (guard_policy w touched (rate (reach_of before) (reach_of after) touched))))))"

section \<open>One destination\<close>

definition failing :: "walker \<Rightarrow> failure \<Rightarrow> addr \<Rightarrow> walker" where
  "failing w f d = w\<lparr>w_dest := d, w_fail := (if w_policy w = None then Some f else None)\<rparr>"

definition healthy :: "walker \<Rightarrow> addr \<Rightarrow> walker" where
  "healthy w d = w\<lparr>w_dest := d, w_fail := None, w_policy := None\<rparr>"

text \<open>Both walks, the visits they made together, and whether a bound stopped one.\<close>

definition walk_pair :: "walker \<Rightarrow> failure \<Rightarrow> state \<Rightarrow> addr \<Rightarrow> trace \<Rightarrow> trace \<times> hop \<times> hop \<times> bool \<times> int \<times> bool" where
  "walk_pair w f src d tr =
     (case run (failing w f d) forwarding_planes (tr\<lparr>tr_touched := False\<rparr>) src of (tr1, after) \<Rightarrow>
        let spent = int (max_states - tr_budget tr1)
        in if \<not> tr_touched tr1 then (tr1, after, after, False, spent, tr_truncated tr1)
           else (case run (healthy w d) forwarding_planes tr1 src of (tr2, before) \<Rightarrow>
             (tr2, before, after, tr_touched tr2, spent + int (max_states - tr_budget tr2),
              tr_truncated tr1 \<or> tr_truncated tr2)))"

record sim_state =
  ss_trace :: trace
  ss_spent :: int
  ss_considered :: nat
  ss_unchanged :: nat
  ss_affected :: "affected list"
  ss_skipped :: bool
  ss_stopped :: bool

definition sim_dest :: "walker \<Rightarrow> failure \<Rightarrow> state \<Rightarrow> addr \<Rightarrow> sim_state \<Rightarrow> sim_state" where
  "sim_dest w f src d st =
     (case walk_pair w f src d (ss_trace st) of (tr, before, after, touched, spent, stopped) \<Rightarrow>
        case rating (w\<lparr>w_dest := d\<rparr>) f before after touched of (i, why) \<Rightarrow>
          let st' = st\<lparr>ss_trace := tr, ss_spent := ss_spent st + spent, ss_considered := ss_considered st + 1,
                       ss_stopped := ss_stopped st \<or> stopped\<rparr>;
              a = \<lparr>af_dest = d, af_owners = owners w d, af_impact = i, af_reason = why, af_after = Some after\<rparr>
          in if i = ImpactNone then st'\<lparr>ss_unchanged := ss_unchanged st + 1\<rparr>
             else st'\<lparr>ss_affected := ss_affected st @ [a]\<rparr>)"

section \<open>The simulation\<close>

fun sim_dests :: "walker \<Rightarrow> failure \<Rightarrow> state \<Rightarrow> addr list \<Rightarrow> sim_state \<Rightarrow> sim_state" where
  "sim_dests w f src [] st = st"
| "sim_dests w f src (d # ds) st =
     (if max_sim_states \<le> ss_spent st then st\<lparr>ss_skipped := True\<rparr>
      else sim_dests w f src ds (sim_dest w f src d st))"

definition destinations :: "walker \<Rightarrow> addr list \<Rightarrow> failure_error + addr list" where
  "destinations w extra =
     (case filter (\<lambda>d. addr_zone d \<noteq> []) extra of
        d # _ \<Rightarrow> Inl (ZonedDestination d)
      | [] \<Rightarrow>
          (let named = foldl append_new [] (map unmap extra);
               held = foldl append_new [] (filter (\<lambda>a. a \<notin> set named) (map fst (w_rows w)))
           in Inr (named @ sort_func addr_compare held)))"

definition walk_size :: "hop option \<Rightarrow> nat" where
  "walk_size h = (case h of None \<Rightarrow> 0 | Some x \<Rightarrow> length (walk_hops x))"

text \<open>Walks are listed until the ones listed so far hold \<open>max_states\<close> hops.\<close>

fun list_walks :: "nat \<Rightarrow> affected list \<Rightarrow> affected list \<times> bool" where
  "list_walks shown [] = ([], False)"
| "list_walks shown (a # xs) =
     (if max_states \<le> shown then (a\<lparr>af_after := None\<rparr> # fst (list_walks shown xs), True)
      else (case list_walks (shown + walk_size (af_after a)) xs of (ys, short) \<Rightarrow> (a # ys, short)))"

definition start_sim :: sim_state where
  "start_sim = \<lparr>ss_trace = start_trace, ss_spent = 0, ss_considered = 0, ss_unchanged = 0, ss_affected = [],
     ss_skipped = False, ss_stopped = False\<rparr>"

definition finish_sim :: "walker \<Rightarrow> failure \<Rightarrow> state \<Rightarrow> sim_state \<Rightarrow> simulation" where
  "finish_sim w f src st =
     (case list_walks 0 (sort_func (\<lambda>a b. addr_compare (af_dest a) (af_dest b)) (ss_affected st)) of (listed, short) \<Rightarrow>
        \<lparr>sim_failure = f, sim_adjacency = w_adj w, sim_gateway = w_gw w, sim_policy = w_policy w, sim_source = src,
         sim_considered = ss_considered st, sim_unchanged = ss_unchanged st, sim_affected = listed,
         sim_truncated = (ss_skipped st \<or> ss_stopped st \<or> short)\<rparr>)"

definition simulate_over :: "walker \<Rightarrow> failure \<Rightarrow> state \<Rightarrow> addr list \<Rightarrow> simulation" where
  "simulate_over w f src dests =
     finish_sim w f src (sim_dests w f src (take max_destinations dests)
       (start_sim\<lparr>ss_skipped := max_destinations < length dests\<rparr>))"

definition simulate ::
  "topology \<Rightarrow> (policy_selector \<times> policy_evaluation) list \<Rightarrow> failure \<Rightarrow> addr list \<Rightarrow> failure_error + simulation" where
  "simulate f policies fail extra =
     rbind (select_failure f policies fail) (\<lambda>(fail', w).
       rbind (destinations w extra) (\<lambda>dests. Inr (simulate_over w fail' (fl_source f) dests)))"

end
