(* ===== verification/Simulate_Laws.thy ===== *)
theory Simulate_Laws
  imports Simulate
begin

text \<open>
  The laws of a simulation: a walk that never meets the failure is the walk without it, a
  failed router is left out of every walk, each rating rests on what the two walks prove, and
  the destinations, visits and listed walks are bounded.
\<close>

section \<open>A walk that never meets the failure\<close>

definition calm :: "walker \<Rightarrow> walker" where
  "calm w = w\<lparr>w_fail := None, w_policy := None\<rparr>"

lemma calm_fields [simp]:
  "w_model (calm w) = w_model w" "w_obs (calm w) = w_obs w" "w_rows (calm w) = w_rows w"
  "w_checks (calm w) = w_checks w" "w_dest (calm w) = w_dest w" "w_fail (calm w) = None" "w_policy (calm w) = None"
  by (simp_all add: calm_def)

lemma calm_reads [simp]:
  "owners (calm w) = owners w" "owned (calm w) = owned w" "candidates (calm w) = candidates w"
  "complete (calm w) = complete w" "absence (calm w) = absence w" "checks_for (calm w) = checks_for w"
  "neighbor_claim (calm w) = neighbor_claim w" "target_of (calm w) = target_of w"
  unfolding owners_def owned_def candidates_def complete_def absence_def checks_for_def
      neighbor_claim_def target_of_def fun_eq_iff calm_fields by simp_all

lemma calm_decide_in [simp]: "decide_in (calm w) s p ps = decide_in w s p ps"
  by (induction ps) (simp_all add: choose_route_def Let_def)

lemma calm_decide [simp]: "decide (calm w) = decide w"
  by (simp add: decide_def fun_eq_iff)

lemma calm_local [simp]: "fst (local_decision (calm w) planes s rows) = fst (local_decision w planes s rows)"
  by (simp add: local_decision_def Let_def)

lemma calm_segment [simp]: "segment_of (calm w) = segment_of w"
  unfolding segment_of_def outcome_of_def fun_eq_iff calm_reads by simp

lemma calm_settle [simp]: "settle (calm w) = settle w"
  unfolding settle_def fun_eq_iff calm_reads by simp

lemma arrive_calm:
  assumes a: "arrive w planes tr s path = (tr1, d, hops)"
    and quiet: "\<not> tr_touched tr1" "\<not> tr_truncated tr1"
    and tr': "tr_budget tr \<le> tr_budget tr'" "\<not> tr_truncated tr'"
  obtains tr1' where "arrive (calm w) planes tr' s path = (tr1', d, hops)"
    "tr_budget tr1 \<le> tr_budget tr1'" "\<not> tr_truncated tr1'"
proof (cases "s \<in> set path \<or> max_depth \<le> length path \<or> tr_budget tr = 0")
  case True
  then show thesis using a quiet tr' that by (auto simp: arrive_def split: if_splits)
next
  case False
  then have in_bounds: "s \<notin> set path" "\<not> max_depth \<le> length path" "0 < tr_budget tr" "0 < tr_budget tr'"
    using tr'(1) by auto
  show thesis
  proof (cases "owned w (w_dest w) s = []")
    case owns: False
    obtain d1 n1 where l1: "local_decision w planes s (owned w (w_dest w) s) = (d1, n1)" by fastforce
    obtain n2 where l2: "local_decision (calm w) planes s (owned w (w_dest w) s) = (d1, n2)"
      using calm_local [of w planes s "owned w (w_dest w) s"] l1 by (cases "local_decision (calm w) planes s (owned w (w_dest w) s)") auto
    show thesis
      using a quiet tr' in_bounds owns l1 l2 that
      by (auto simp: arrive_def Let_def touch_def held_on_failure_def split: option.splits if_splits)
  next
    case True
    have "follow_decision w planes (tr\<lparr>tr_budget := tr_budget tr - 1\<rparr>) s = (tr1, d, hops)"
      using a quiet in_bounds True by (auto simp: arrive_def Let_def touch_def split: option.splits if_splits)
    then show thesis
      using quiet tr' in_bounds True that
      by (auto simp: arrive_def follow_decision_def Let_def split: prod.splits if_splits)
  qed
qed

lemma resolve_step_calm:
  assumes "resolve_step risk w tr s n seg ev = (tr1, r)" "\<not> tr_touched tr1"
  shows "r = settle w s n seg"
  using assms by (auto simp: resolve_step_def touch_def elim!: sever_leaf split: option.splits prod.splits)

lemma walk_calm:
  "walk risk w planes tr s via path = (tr1, h) \<Longrightarrow> risk_spends risk \<Longrightarrow> \<not> tr_touched tr1 \<Longrightarrow> \<not> tr_truncated tr1 \<Longrightarrow>
     tr_budget tr \<le> tr_budget tr' \<Longrightarrow> \<not> tr_truncated tr' \<Longrightarrow>
     \<exists>tr1'. walk risk' (calm w) planes tr' s via path = (tr1', h) \<and> tr_budget tr1 \<le> tr_budget tr1' \<and> \<not> tr_truncated tr1'"
  "walk_legs risk w planes tr s ev hops branch ns = (tr1, cs) \<Longrightarrow> risk_spends risk \<Longrightarrow> \<not> tr_touched tr1 \<Longrightarrow>
     \<not> tr_truncated tr1 \<Longrightarrow> tr_budget tr \<le> tr_budget tr' \<Longrightarrow> \<not> tr_truncated tr' \<Longrightarrow>
     \<exists>tr1'. walk_legs risk' (calm w) planes tr' s ev hops branch ns = (tr1', cs) \<and> tr_budget tr1 \<le> tr_budget tr1'
       \<and> \<not> tr_truncated tr1'"
proof (induction risk w planes tr s via path and risk w planes tr s ev hops branch ns
    arbitrary: tr' tr1 h and tr' tr1 cs rule: walk_walk_legs.induct)
  case (1 risk w planes tr s via path)
  obtain tr2 d hops where a: "arrive w planes tr s path = (tr2, d, hops)"
    by (metis prod_cases3)
  show ?case
  proof (cases "hops = []")
    case True
    then have "tr1 = tr2" "h = Hop s via d []" using 1(2) a by (auto simp: walk.simps)
    with 1(4,5) have "\<not> tr_touched tr2" "\<not> tr_truncated tr2" by simp_all
    then obtain tr2' where "arrive (calm w) planes tr' s path = (tr2', d, hops)"
      "tr_budget tr2 \<le> tr_budget tr2'" "\<not> tr_truncated tr2'"
      by (rule arrive_calm [OF a _ _ 1(6,7)])
    then show ?thesis
      using True \<open>tr1 = tr2\<close> \<open>h = Hop s via d []\<close> by (simp add: walk.simps)
  next
    case False
    obtain tr3 "next" where l: "walk_legs risk w planes tr2 s (d_evidence d) hops (path @ [s]) (take max_fanout hops) = (tr3, next)"
      by fastforce
    have h: "tr1 = tr3" "h = Hop s via d next"
      using 1(2) a False l by (auto simp: walk.simps)
    have sp: "spends tr2 tr3" using walk_bounds(2) [OF l 1(3)] by simp
    then obtain tr2' where a': "arrive (calm w) planes tr' s path = (tr2', d, hops)"
      "tr_budget tr2 \<le> tr_budget tr2'" "\<not> tr_truncated tr2'"
      using arrive_calm [OF a _ _ 1(6,7)] 1(4,5) h(1) by (auto simp: spends_def)
    then obtain tr3' where
      "walk_legs risk' (calm w) planes tr2' s (d_evidence d) hops (path @ [s]) (take max_fanout hops) = (tr3', next)"
      "tr_budget tr3 \<le> tr_budget tr3'" "\<not> tr_truncated tr3'"
      using 1(1) [OF a [symmetric] refl False l 1(3) _ _ a'(2,3)] 1(4,5) h(1) by auto
    then show ?thesis
      using a' h False by (auto simp: walk.simps)
  qed
next
  case (2 risk w planes tr s ev hops branch)
  then show ?case by simp
next
  case (3 risk w planes tr s ev hops branch n ns)
  obtain tr2 r where r: "resolve_step risk w tr s n (segment_of w s hops n) ev = (tr2, r)"
    by fastforce
  have sp: "spends tr tr2"
    by (rule resolve_step_spends [OF 3(5) r])
  have r': "resolve_step risk' (calm w) tr' s n (segment_of w s hops n) ev = (tr', settle w s n (segment_of w s hops n))"
    by (simp add: resolve_step_def)
  show ?case
  proof (cases r)
    case (Inl c)
    obtain tr3 hs where l: "walk_legs risk w planes tr2 s ev hops branch ns = (tr3, hs)" by fastforce
    have e: "tr1 = tr3" "cs = c # hs" using 3(4) r Inl l by auto
    have "spends tr2 tr3" using walk_bounds(2) [OF l 3(5)] by simp
    then have q: "r = settle w s n (segment_of w s hops n)" "tr_budget tr2 \<le> tr_budget tr'"
      using resolve_step_calm [OF r] 3(6) e sp 3(8) by (auto simp: spends_def)
    obtain tr3' where "walk_legs risk' (calm w) planes tr' s ev hops branch ns = (tr3', hs)"
      "tr_budget tr3 \<le> tr_budget tr3'" "\<not> tr_truncated tr3'"
      using 3(1) [OF r [symmetric] Inl l 3(5), of tr'] 3(6,7,9) q(2) e by auto
    then show ?thesis
      using r' [folded q(1)] Inl e by simp
  next
    case (Inr s')
    obtain tr3 c where c: "walk risk w planes tr2 s' (Some (segment_of w s hops n)) branch = (tr3, c)" by fastforce
    obtain tr4 hs where l: "walk_legs risk w planes tr3 s ev hops branch ns = (tr4, hs)" by fastforce
    have e: "tr1 = tr4" "cs = c # hs" using 3(4) r Inr c l by auto
    have "spends tr2 tr3" "spends tr3 tr4"
      using walk_bounds(1) [OF c 3(5)] walk_bounds(2) [OF l 3(5)] by simp_all
    then have q: "r = settle w s n (segment_of w s hops n)" "tr_budget tr2 \<le> tr_budget tr'"
      "\<not> tr_touched tr3" "\<not> tr_truncated tr3" "\<not> tr_touched tr4" "\<not> tr_truncated tr4"
      using resolve_step_calm [OF r] 3(6,7) e sp 3(8) by (auto simp: spends_def)
    obtain tr3' where c': "walk risk' (calm w) planes tr' s' (Some (segment_of w s hops n)) branch = (tr3', c)"
      "tr_budget tr3 \<le> tr_budget tr3'" "\<not> tr_truncated tr3'"
      using 3(2) [OF r [symmetric] Inr c 3(5) q(3,4,2) 3(9)] by auto
    obtain tr4' where "walk_legs risk' (calm w) planes tr3' s ev hops branch ns = (tr4', hs)"
      "tr_budget tr4 \<le> tr_budget tr4'" "\<not> tr_truncated tr4'"
      using 3(3) [OF r [symmetric] Inr c [symmetric] l 3(5) q(5,6) c'(2,3)] by auto
    then show ?thesis
      using r' [folded q(1)] Inr c' e by simp
  qed
qed

lemma run_calm:
  assumes "run w planes tr s = (tr1, h)" "\<not> tr_touched tr1" "\<not> tr_truncated tr1"
  shows "snd (run (calm w) planes tr' s) = h"
proof -
  let ?tr = "tr'\<lparr>tr_budget := max_states, tr_truncated := False, tr_notes := []\<rparr>"
  obtain tr1' where "walk (risk_in (walk_under (calm w)) (calm w)) (calm w) planes ?tr s None [] = (tr1', h)"
    using walk_calm(1) [OF assms(1) [unfolded run_def walk_from_def] risk_in_spends [OF walk_under_spends] assms(2,3),
      of ?tr "risk_in (walk_under (calm w)) (calm w)"] by auto
  then show ?thesis by (simp add: run_def walk_from_def)
qed


lemma calm_failing: "calm (failing w f d) = healthy w d"
  by (simp add: calm_def failing_def healthy_def)

text \<open>
  C32. A destination whose walk never meets the failure needs no second walk: as long as no
  bound stopped it, the forwarding without the failure is that same walk, whatever the
  tunnels met on the way spent of the budget.
\<close>

theorem untouched_same_walk:
  assumes "walk_pair w f src d tr = (tr', before, after, False, spent, False)"
  shows "before = after \<and> snd (run (healthy w d) forwarding_planes tr0 src) = after"
proof -
  obtain tr1 h where r: "run (failing w f d) forwarding_planes (tr\<lparr>tr_touched := False\<rparr>) src = (tr1, h)" by fastforce
  have "\<not> tr_touched tr1"
  proof
    assume touched: "tr_touched tr1"
    obtain tr2 b where "run (healthy w d) forwarding_planes tr1 src = (tr2, b)" by fastforce
    with run_bounds(3) [OF this touched] touched assms r show False
      by (auto simp: walk_pair_def Let_def)
  qed
  with assms r have "before = h" "after = h" "\<not> tr_truncated tr1"
    by (auto simp: walk_pair_def Let_def)
  with run_calm [OF r \<open>\<not> tr_touched tr1\<close>, of tr0] show ?thesis by (simp add: calm_failing)
qed

definition lost_link :: "string \<Rightarrow> string \<Rightarrow> failure" where
  "lost_link node iface = \<lparr>f_node = node, f_iface = iface, f_vrf = [], f_ospf = [], f_hop = NoHop, f_policy = None\<rparr>"

definition sample_pair :: "failure \<Rightarrow> trace \<times> hop \<times> hop \<times> bool \<times> int \<times> bool" where
  "sample_pair f = walk_pair (new_walker sample_topology ZeroAddr) f (at ''r1'' ''default'') sample_dest start_trace"

theorem untouched_same_walk_witness:
  "\<exists>h. h_kind h = KindForward
     \<and> snd (run (healthy (new_walker sample_topology ZeroAddr) sample_dest) forwarding_planes start_trace (at ''r1'' ''default'')) = h"
proof -
  have "case sample_pair (lost_link ''r9'' []) of (tr, before, after, touched, spent, stopped) \<Rightarrow>
      \<not> touched \<and> \<not> stopped \<and> h_kind after = KindForward"
    by code_simp
  then obtain tr before after spent where
    "sample_pair (lost_link ''r9'' []) = (tr, before, after, False, spent, False)" "h_kind after = KindForward"
    by (auto split: prod.splits)
  from untouched_same_walk [OF this(1) [unfolded sample_pair_def]] this(2) show ?thesis by blast
qed

section \<open>A failed router\<close>

definition router_down :: "walker \<Rightarrow> failure \<Rightarrow> bool" where
  "router_down w f \<longleftrightarrow> w_fail w = Some f \<and> f_iface f = [] \<and> w_gw w = None \<and> w_adj w = None \<and> f_node f \<noteq> []"

lemma router_cut:
  assumes "router_down w f" "resolve_step risk w tr s n seg ev = (tr1, Inr s')"
  shows "s_node s' \<noteq> f_node f"
proof -
  have "owners w (target_of w n) = [s']"
    using resolve_step_Inr [OF assms(2)] by (simp add: settle_Inr)
  then have "snd (sever w f tr s n seg ev) \<noteq> None" if "s_node s' = f_node f"
    using assms(1) that by (simp add: router_down_def sever_def element_cut_def Let_def)
  then show ?thesis
    using assms by (auto simp: resolve_step_def router_down_def split: prod.splits option.splits)
qed

lemma walk_avoids:
  "walk risk w planes tr s via path = (tr1, h) \<Longrightarrow> router_down w f \<Longrightarrow> s_node s \<noteq> f_node f \<Longrightarrow>
     \<forall>x\<in>set (walk_hops h). s_node (h_at x) \<noteq> f_node f"
  "walk_legs risk w planes tr s ev hops branch ns = (tr1, cs) \<Longrightarrow> router_down w f \<Longrightarrow>
     \<forall>c\<in>set cs. \<forall>x\<in>set (walk_hops c). s_node (h_at x) \<noteq> f_node f"
proof (induction risk w planes tr s via path and risk w planes tr s ev hops branch ns
    arbitrary: tr1 h and tr1 cs rule: walk_walk_legs.induct)
  case (1 risk w planes tr s via path)
  obtain tr2 d hops where a: "arrive w planes tr s path = (tr2, d, hops)"
    by (metis prod_cases3)
  obtain tr3 "next" where l: "walk_legs risk w planes tr2 s (d_evidence d) hops (path @ [s]) (take max_fanout hops) = (tr3, next)"
    by fastforce
  show ?case
  proof (cases "hops = []")
    case True
    then show ?thesis using 1(2,4) a by (auto simp: walk.simps)
  next
    case False
    then have "h = Hop s via d next" using 1(2) a l by (auto simp: walk.simps)
    then show ?thesis using 1(1) [OF a [symmetric] refl False l 1(3)] 1(4) by auto
  qed
next
  case (2 risk w planes tr s ev hops branch)
  then show ?case by simp
next
  case (3 risk w planes tr s ev hops branch n ns)
  obtain tr2 r where r: "resolve_step risk w tr s n (segment_of w s hops n) ev = (tr2, r)"
    by fastforce
  show ?case
  proof (cases r)
    case (Inl c)
    obtain tr3 hs where l: "walk_legs risk w planes tr2 s ev hops branch ns = (tr3, hs)" by fastforce
    have "walk_hops c = [c]" "s_node (h_at c) = []"
      using resolve_step_Inl(1,3) [OF r [unfolded Inl]] by (cases c; simp)+
    then show ?thesis
      using 3(4) 3(1) [OF r [symmetric] Inl l 3(5)] 3(5) r Inl l by (auto simp: router_down_def)
  next
    case (Inr s')
    obtain tr3 c where c: "walk risk w planes tr2 s' (Some (segment_of w s hops n)) branch = (tr3, c)" by fastforce
    obtain tr4 hs where l: "walk_legs risk w planes tr3 s ev hops branch ns = (tr4, hs)" by fastforce
    show ?thesis
      using 3(4) 3(2) [OF r [symmetric] Inr c 3(5) router_cut [OF 3(5) r [unfolded Inr]]]
        3(3) [OF r [symmetric] Inr c [symmetric] l 3(5)] r Inr c l by auto
  qed
qed

lemma run_avoids:
  assumes "run w planes tr s = (tr1, h)" "router_down w f" "s_node s \<noteq> f_node f" "x \<in> set (walk_hops h)"
  shows "s_node (h_at x) \<noteq> f_node f"
  using walk_avoids(1) [OF assms(1) [unfolded run_def walk_from_def] assms(2,3)] assms(4) by blast

section \<open>The loop over the destinations\<close>

text \<open>What the loop keeps: the counts, the distinct destinations in order, the spent visits, and
  that each affected destination is the rating of its pair of walks.\<close>

definition rated :: "walker \<Rightarrow> failure \<Rightarrow> state \<Rightarrow> affected \<Rightarrow> bool" where
  "rated w f src a \<longleftrightarrow> (\<exists>tr tr' before after touched spent stopped.
     walk_pair w f src (af_dest a) tr = (tr', before, after, touched, spent, stopped)
     \<and> rating (w\<lparr>w_dest := af_dest a\<rparr>) f before after touched = (af_impact a, af_reason a)
     \<and> af_impact a \<noteq> ImpactNone \<and> af_owners a = owners w (af_dest a) \<and> af_after a = Some after)"

lemma sim_dest_cases:
  obtains tr before after touched spent stopped i why where
    "walk_pair w f src d (ss_trace st) = (tr, before, after, touched, spent, stopped)"
    "rating (w\<lparr>w_dest := d\<rparr>) f before after touched = (i, why)"
    "ss_trace (sim_dest w f src d st) = tr" "ss_spent (sim_dest w f src d st) = ss_spent st + spent"
    "ss_considered (sim_dest w f src d st) = Suc (ss_considered st)" "ss_skipped (sim_dest w f src d st) = ss_skipped st"
    "ss_unchanged (sim_dest w f src d st) = (if i = ImpactNone then Suc (ss_unchanged st) else ss_unchanged st)"
    "ss_affected (sim_dest w f src d st) = (if i = ImpactNone then ss_affected st else ss_affected st @
       [\<lparr>af_dest = d, af_owners = owners w d, af_impact = i, af_reason = why, af_after = Some after\<rparr>])"
proof -
  obtain tr before after touched spent stopped where p:
    "walk_pair w f src d (ss_trace st) = (tr, before, after, touched, spent, stopped)"
    by (metis prod.exhaust)
  obtain i why where r: "rating (w\<lparr>w_dest := d\<rparr>) f before after touched = (i, why)" by fastforce
  show thesis
    by (rule that [OF p r]) (simp_all add: sim_dest_def p r Let_def)
qed

definition sim_ok :: "walker \<Rightarrow> failure \<Rightarrow> state \<Rightarrow> addr list \<Rightarrow> sim_state \<Rightarrow> bool" where
  "sim_ok w f src done st \<longleftrightarrow>
     ss_considered st = ss_unchanged st + length (ss_affected st) \<and> ss_considered st = length done
     \<and> distinct (map af_dest (ss_affected st)) \<and> af_dest ` set (ss_affected st) \<subseteq> set done
     \<and> ss_spent st \<le> max_sim_states + 2 * int max_states
     \<and> (\<forall>a\<in>set (ss_affected st). rated w f src a)"

lemma walk_pair_spent: "walk_pair w f src d tr = (tr', before, after, touched, spent, stopped) \<Longrightarrow> spent \<le> 2 * int max_states"
  by (auto simp: walk_pair_def Let_def split: prod.splits if_splits)

lemma sim_dest_ok:
  assumes "sim_ok w f src done st" "d \<notin> set done" "ss_spent st < max_sim_states"
  shows "sim_ok w f src (done @ [d]) (sim_dest w f src d st)"
proof -
  obtain tr before after touched spent stopped i why where
    p: "walk_pair w f src d (ss_trace st) = (tr, before, after, touched, spent, stopped)"
    and r: "rating (w\<lparr>w_dest := d\<rparr>) f before after touched = (i, why)"
    and st: "ss_spent (sim_dest w f src d st) = ss_spent st + spent"
    "ss_considered (sim_dest w f src d st) = Suc (ss_considered st)"
    "ss_unchanged (sim_dest w f src d st) = (if i = ImpactNone then Suc (ss_unchanged st) else ss_unchanged st)"
    "ss_affected (sim_dest w f src d st) = (if i = ImpactNone then ss_affected st else ss_affected st @
       [\<lparr>af_dest = d, af_owners = owners w d, af_impact = i, af_reason = why, af_after = Some after\<rparr>])"
    by (rule sim_dest_cases)
  have "rated w f src \<lparr>af_dest = d, af_owners = owners w d, af_impact = i, af_reason = why, af_after = Some after\<rparr>"
    if "i \<noteq> ImpactNone"
    using that by (simp add: rated_def) (use p r in blast)
  moreover have "ss_spent st + spent \<le> max_sim_states + 2 * int max_states"
    using walk_pair_spent [OF p] assms(3) by simp
  ultimately show ?thesis
    using assms(1,2) unfolding sim_ok_def st by auto
qed

lemma sim_dests_ok:
  assumes "sim_ok w f src done st" "distinct (done @ ds)"
  obtains more rest where "ds = more @ rest" "sim_ok w f src (done @ more) (sim_dests w f src ds st)"
    "rest = [] \<or> ss_skipped (sim_dests w f src ds st)" "ss_skipped st \<longrightarrow> ss_skipped (sim_dests w f src ds st)"
  using assms
proof (induction ds arbitrary: "done" st thesis)
  case Nil
  then show ?case by simp
next
  case (Cons d ds)
  show ?case
  proof (cases "max_sim_states \<le> ss_spent st")
    case True
    then show ?thesis
      using Cons(2) [of "[]" "d # ds"] Cons(3) by (simp add: sim_ok_def)
  next
    case False
    have "sim_ok w f src (done @ [d]) (sim_dest w f src d st)"
      using sim_dest_ok [OF Cons(3)] Cons(4) False by simp
    moreover have "distinct ((done @ [d]) @ ds)" using Cons(4) by simp
    ultimately obtain more rest where m: "ds = more @ rest"
      "sim_ok w f src ((done @ [d]) @ more) (sim_dests w f src ds (sim_dest w f src d st))"
      "rest = [] \<or> ss_skipped (sim_dests w f src ds (sim_dest w f src d st))"
      "ss_skipped (sim_dest w f src d st) \<longrightarrow> ss_skipped (sim_dests w f src ds (sim_dest w f src d st))"
      by (rule Cons(1) [rotated])
    have "ss_skipped (sim_dest w f src d st) = ss_skipped st"
      by (rule sim_dest_cases [of w f src d st])
    then show ?thesis
      using Cons(2) [of "d # more" rest] m False by simp
  qed
qed

section \<open>The listed walks\<close>

lemma list_walks_fields:
  "map af_dest (fst (list_walks n xs)) = map af_dest xs"
  "length (fst (list_walks n xs)) = length xs"
  by (induction n xs rule: list_walks.induct) (auto split: prod.splits)

lemma list_walks_in:
  "a \<in> set (fst (list_walks n xs)) \<Longrightarrow> \<exists>b\<in>set xs. a = b \<or> a = b\<lparr>af_after := None\<rparr>"
  by (induction n xs rule: list_walks.induct) (auto split: prod.splits if_splits)

text \<open>Listed walks: all but the last of them hold fewer than \<open>max_states\<close> hops together.\<close>

fun within_limit :: "nat \<Rightarrow> nat list \<Rightarrow> bool" where
  "within_limit n [] = True"
| "within_limit n (k # ks) = ((k = 0 \<or> n < max_states) \<and> within_limit (n + k) ks)"

lemma list_walks_limit:
  "within_limit n (map (\<lambda>a. walk_size (af_after a)) (fst (list_walks n xs)))"
proof (induction n xs rule: list_walks.induct)
  case (2 n a xs)
  show ?case
  proof (cases "max_states \<le> n")
    case True
    then show ?thesis using 2(1) by (simp add: walk_size_def)
  next
    case False
    then show ?thesis using 2(2) by (auto split: prod.splits)
  qed
qed simp

lemma within_limit_sum: "within_limit n ks \<Longrightarrow> (\<forall>k\<in>set ks. k \<le> m) \<Longrightarrow> n \<le> max_states + m \<Longrightarrow> n + sum_list ks \<le> max_states + m"
  by (induction n ks rule: within_limit.induct) auto

section \<open>Ratings\<close>

definition sound_rating :: "walker \<Rightarrow> failure \<Rightarrow> hop \<Rightarrow> hop \<Rightarrow> bool \<Rightarrow> impact \<Rightarrow> bool" where
  "sound_rating w f before after touched i \<longleftrightarrow>
     (case i of
        ImpactNone \<Rightarrow> \<not> touched \<and> reach_of before \<noteq> ReachUnknown
          \<and> (w_gw w = None \<and> w_adj w = None \<and> w_policy w = None \<longrightarrow> bgp_forwarding after = None)
      | ImpactRedundancyLost \<Rightarrow> touched \<and> reach_of before = ReachOK \<and> reach_of after = ReachOK
          \<and> w_gw w = None \<and> w_policy w = None
          \<and> (w_adj w = None \<longrightarrow> bgp_forwarding after = None \<and> far_leg f after = None)
      | ImpactReachabilityLost \<Rightarrow> touched \<and> reach_of before = ReachOK \<and> reach_of after = ReachFailed
          \<and> w_adj w = None \<and> w_policy w = None
          \<and> (w_gw w = None \<and> \<not> gone w f (w_dest w) \<longrightarrow>
               fst (protocol_loss w after None) \<or> snd (protocol_loss w after None) = None)
      | ImpactUnknown \<Rightarrow> True)"

lemma rate_sound:
  assumes "rate before after touched = (i, why)"
  shows "i = ImpactNone \<Longrightarrow> \<not> touched \<and> before \<noteq> ReachUnknown"
    "i = ImpactRedundancyLost \<Longrightarrow> touched \<and> before = ReachOK \<and> after = ReachOK"
    "i = ImpactReachabilityLost \<Longrightarrow> touched \<and> before = ReachOK \<and> after = ReachFailed"
  using assms by (cases before; auto simp: rate_def split: if_splits)+

lemma guard_sound:
  "fst (guard_policy w touched r) = i \<Longrightarrow> i \<noteq> ImpactUnknown \<Longrightarrow> i = fst r \<and> (w_policy w = None \<or> \<not> touched)"
  "fst (guard_adjacency w r) = i \<Longrightarrow> i \<noteq> ImpactUnknown \<Longrightarrow> i = fst r \<and> (i = ImpactReachabilityLost \<longrightarrow> w_adj w = None)"
  "fst (guard_gateway w r) = i \<Longrightarrow> i \<noteq> ImpactUnknown \<Longrightarrow> i = fst r \<and> (i = ImpactRedundancyLost \<longrightarrow> w_gw w = None)"
  "fst (guard_far w f after r) = i \<Longrightarrow> i \<noteq> ImpactUnknown \<Longrightarrow> i = fst r
     \<and> (i = ImpactRedundancyLost \<and> w_gw w = None \<and> w_adj w = None \<longrightarrow> far_leg f after = None)"
  "fst (guard_bgp w after r) = i \<Longrightarrow> i \<noteq> ImpactUnknown \<Longrightarrow> i = fst r
     \<and> ((i = ImpactNone \<or> i = ImpactRedundancyLost) \<and> w_gw w = None \<and> w_adj w = None \<and> w_policy w = None
        \<longrightarrow> bgp_forwarding after = None)"
  "fst (guard_protocol w f d after r) = i \<Longrightarrow> i \<noteq> ImpactUnknown \<Longrightarrow> i = fst r
     \<and> (i = ImpactReachabilityLost \<and> w_gw w = None \<and> w_adj w = None \<and> w_policy w = None \<and> \<not> gone w f d
        \<longrightarrow> fst (protocol_loss w after None) \<or> snd (protocol_loss w after None) = None)"
  by (auto simp: guard_policy_def guard_adjacency_def guard_gateway_def guard_far_def guard_bgp_def guard_protocol_def
      split: if_splits option.splits prod.splits bool.splits)

lemma rating_sound:
  assumes "rating w f before after touched = (i, why)"
  shows "sound_rating w f before after touched i"
proof (cases "i = ImpactUnknown")
  case False
  let ?r0 = "rate (reach_of before) (reach_of after) touched"
  let ?r1 = "guard_policy w touched ?r0"
  let ?r2 = "guard_adjacency w ?r1"
  let ?r3 = "guard_gateway w ?r2"
  let ?r4 = "guard_far w f after ?r3"
  let ?r5 = "guard_bgp w after ?r4"
  have e: "fst (guard_protocol w f (w_dest w) after ?r5) = i"
    using assms by (simp add: rating_def)
  note g5 = guard_sound(6) [OF e False]
  note g4 = guard_sound(5) [OF g5 [THEN conjunct1, symmetric] False]
  note g3 = guard_sound(4) [OF g4 [THEN conjunct1, symmetric] False]
  note g2 = guard_sound(3) [OF g3 [THEN conjunct1, symmetric] False]
  note g1 = guard_sound(2) [OF g2 [THEN conjunct1, symmetric] False]
  note g0 = guard_sound(1) [OF g1 [THEN conjunct1, symmetric] False]
  obtain why0 where r: "rate (reach_of before) (reach_of after) touched = (i, why0)"
    using g0 by (cases ?r0) simp
  show ?thesis
    using rate_sound [OF r] g0 [THEN conjunct2] g1 [THEN conjunct2] g2 [THEN conjunct2] g3 [THEN conjunct2]
      g4 [THEN conjunct2] g5 [THEN conjunct2] False
    by (cases i; simp add: sound_rating_def; blast)
qed (simp add: sound_rating_def)


section \<open>The simulation\<close>

lemma destinations_distinct:
  assumes "destinations w extra = Inr dests"
  shows "distinct dests" "set dests = unmap ` set extra \<union> fst ` set (w_rows w)"
  using assms by (auto simp: destinations_def Let_def rev_image_eqI split: list.splits)

lemma sim_start_ok: "sim_ok w f src [] (start_sim\<lparr>ss_skipped := b\<rparr>)"
  by (simp add: sim_ok_def start_sim_def max_sim_states_def)

interpretation affected_order: compare_preorder "\<lambda>a b. addr_compare (af_dest a) (af_dest b)"
  by (rule compare_preorder_key [OF addr_order.compare_preorder_axioms])

lemma addr_sorted:
  "sorted (map af_dest (sort_func (\<lambda>a b. addr_compare (af_dest a) (af_dest b)) xs))"
  using affected_order.sorted_sort_func [of xs]
  by (simp add: sorted_func_def sorted_map less_eq_addr_def)

text \<open>A simulation is a run of the loop over its destinations, sorted and listed.\<close>

lemma simulate_parts:
  assumes "simulate f policies fail extra = Inr s"
  obtains fail' w dests sim_end "done" rest where
    "select_failure f policies fail = Inr (fail', w)" "destinations w extra = Inr dests"
    "take max_destinations dests = done @ rest" "sim_ok w fail' (fl_source f) done sim_end"
    "sim_considered s = ss_considered sim_end" "sim_unchanged s = ss_unchanged sim_end"
    "sim_affected s = fst (list_walks 0 (sort_func (\<lambda>a b. addr_compare (af_dest a) (af_dest b)) (ss_affected sim_end)))"
    "\<not> sim_truncated s \<Longrightarrow> rest = [] \<and> length dests \<le> max_destinations"
proof -
  obtain fail' w where sel: "select_failure f policies fail = Inr (fail', w)"
    using assms by (cases "select_failure f policies fail") (auto simp: simulate_def)
  obtain dests where d: "destinations w extra = Inr dests"
    using assms sel by (cases "destinations w extra") (auto simp: simulate_def)
  let ?start = "start_sim\<lparr>ss_skipped := max_destinations < length dests\<rparr>"
  have "distinct ([] @ take max_destinations dests)" using destinations_distinct(1) [OF d] by simp
  then obtain "done" rest where m: "take max_destinations dests = done @ rest"
    "sim_ok w fail' (fl_source f) ([] @ done) (sim_dests w fail' (fl_source f) (take max_destinations dests) ?start)"
    "rest = [] \<or> ss_skipped (sim_dests w fail' (fl_source f) (take max_destinations dests) ?start)"
    "ss_skipped ?start \<longrightarrow> ss_skipped (sim_dests w fail' (fl_source f) (take max_destinations dests) ?start)"
    by (rule sim_dests_ok [OF sim_start_ok])
  let ?final = "sim_dests w fail' (fl_source f) (take max_destinations dests) ?start"
  obtain listed short where l:
    "list_walks 0 (sort_func (\<lambda>a b. addr_compare (af_dest a) (af_dest b)) (ss_affected ?final)) = (listed, short)"
    by fastforce
  have s: "s = simulate_over w fail' (fl_source f) dests"
    using assms sel d by (simp add: simulate_def)
  have skip: "max_destinations < length dests \<longrightarrow> ss_skipped ?final" using m(4) by (metis sim_state.select_convs(6) sim_state.surjective sim_state.update_convs(6))
  show thesis
  proof (rule that [OF sel d m(1)])
    show "sim_ok w fail' (fl_source f) done ?final" using m(2) by simp
    show "rest = [] \<and> length dests \<le> max_destinations" if "\<not> sim_truncated s"
    proof -
      have "\<not> ss_skipped ?final" using that by (simp add: s simulate_over_def finish_sim_def l)
      then show ?thesis using m(3) skip by linarith
    qed
  qed (simp_all add: s simulate_over_def finish_sim_def l)
qed

lemma simulate_affected:
  assumes "simulate f policies fail extra = Inr s" "a \<in> set (sim_affected s)"
  obtains fail' w b where "select_failure f policies fail = Inr (fail', w)" "rated w fail' (fl_source f) b"
    "a = b \<or> a = b\<lparr>af_after := None\<rparr>"
  using assms(1)
proof (rule simulate_parts)
  fix fail' w dests sim_end "done" rest
  assume "select_failure f policies fail = Inr (fail', w)" "sim_ok w fail' (fl_source f) done sim_end"
    "sim_affected s = fst (list_walks 0 (sort_func (\<lambda>a b. addr_compare (af_dest a) (af_dest b)) (ss_affected sim_end)))"
  note sel = this
  obtain b where "b \<in> set (ss_affected sim_end)" "a = b \<or> a = b\<lparr>af_after := None\<rparr>"
    using list_walks_in [OF assms(2) [unfolded sel(3)]] by auto
  moreover have "rated w fail' (fl_source f) b" using sel(2) calculation(1) by (simp add: sim_ok_def)
  ultimately show thesis using that [OF sel(1)] by blast
qed

text \<open>Two routers, of which the second holds the only address: one destination to simulate.\<close>

definition pair_net :: topology where
  "pair_net =
     \<lparr>fl_source = at ''r1'' ''default'', fl_source_addr = ZeroAddr,
      fl_model = [sample_fib ''r1'' [] [sample_route (Prefix sample_dest 33) ''static'' [\<lparr>nh_addr = sample_dest, nh_iface = ''e0''\<rparr>]],
                  sample_fib ''r2'' [sample_iface ''lo'' (Prefix sample_dest 33)] []],
      fl_checks = [], fl_boundaries = [], fl_tunnels = []\<rparr>"

definition sample_sim :: "failure \<Rightarrow> failure_error + simulation" where
  "sample_sim f = simulate pair_net [] f []"

text \<open>
  C33. What a rating rests on. A destination is rated as lost only when the recorded
  forwarding proves delivery before the failure and certainly fails after it, and never for
  an adjacency or a policy; redundancy is rated as lost only when delivery is proven before
  and after, and then no node off the failure still lists a cut leg and no surviving hop
  forwards by BGP; a destination without impact is never listed.
\<close>

theorem simulate_ratings_sound:
  assumes "simulate f policies fail extra = Inr s" "a \<in> set (sim_affected s)"
  shows "\<exists>fail' w tr tr' before after touched spent stopped.
     select_failure f policies fail = Inr (fail', w)
     \<and> walk_pair w fail' (fl_source f) (af_dest a) tr = (tr', before, after, touched, spent, stopped)
     \<and> af_impact a \<noteq> ImpactNone
     \<and> sound_rating (w\<lparr>w_dest := af_dest a\<rparr>) fail' before after touched (af_impact a)"
  using assms
proof (rule simulate_affected)
  fix fail' w b
  assume sel: "select_failure f policies fail = Inr (fail', w)" and rated: "rated w fail' (fl_source f) b"
    and ab: "a = b \<or> a = b\<lparr>af_after := None\<rparr>"
  then have b: "af_dest b = af_dest a" "af_impact b = af_impact a" "af_reason b = af_reason a" by auto
  with rated obtain tr tr' before after touched spent stopped where
    "walk_pair w fail' (fl_source f) (af_dest a) tr = (tr', before, after, touched, spent, stopped)"
    and r: "rating (w\<lparr>w_dest := af_dest a\<rparr>) fail' before after touched = (af_impact a, af_reason a)"
    and "af_impact a \<noteq> ImpactNone"
    by (auto simp: rated_def)
  with sel rating_sound [OF r] show ?thesis by blast
qed

theorem simulate_ratings_sound_witness:
  "\<exists>w before after tr. reach_of before = ReachOK \<and> reach_of after = ReachFailed
     \<and> (\<exists>tr' touched spent stopped.
          walk_pair w (lost_link ''r1'' ''e0'') (at ''r1'' ''default'') sample_dest tr = (tr', before, after, touched, spent, stopped))"
proof -
  have "case sample_sim (lost_link ''r1'' ''e0'') of Inl _ \<Rightarrow> False
      | Inr s \<Rightarrow> (case filter (\<lambda>a. af_dest a = sample_dest \<and> af_impact a = ImpactReachabilityLost) (sim_affected s) of
          [] \<Rightarrow> False | _ # _ \<Rightarrow> True)"
    by code_simp
  then obtain s a xs where s: "simulate pair_net [] (lost_link ''r1'' ''e0'') [] = Inr s"
    and "filter (\<lambda>a. af_dest a = sample_dest \<and> af_impact a = ImpactReachabilityLost) (sim_affected s) = a # xs"
    by (auto simp: sample_sim_def split: sum.splits list.splits)
  then have "a \<in> set (filter (\<lambda>a. af_dest a = sample_dest \<and> af_impact a = ImpactReachabilityLost) (sim_affected s))" by simp
  then have a: "a \<in> set (sim_affected s)" "af_dest a = sample_dest" "af_impact a = ImpactReachabilityLost" by simp_all
  have src: "fl_source pair_net = at ''r1'' ''default''" by (simp add: pair_net_def)
  from simulate_ratings_sound [OF s a(1)] obtain fail' w tr tr' before after touched spent stopped where
    "select_failure pair_net [] (lost_link ''r1'' ''e0'') = Inr (fail', w)"
    and p: "walk_pair w fail' (at ''r1'' ''default'') sample_dest tr = (tr', before, after, touched, spent, stopped)"
    and r: "sound_rating (w\<lparr>w_dest := sample_dest\<rparr>) fail' before after touched ImpactReachabilityLost"
    unfolding a src by (elim exE conjE) (rule that)
  moreover have "case select_failure pair_net [] (lost_link ''r1'' ''e0'') of Inl _ \<Rightarrow> False
      | Inr (fail', w) \<Rightarrow> fail' = lost_link ''r1'' ''e0''"
    by code_simp
  ultimately have "fail' = lost_link ''r1'' ''e0''" by simp
  moreover have "reach_of before = ReachOK" "reach_of after = ReachFailed"
    using r by (simp_all add: sound_rating_def)
  ultimately show ?thesis using p by blast
qed


text \<open>
  C34. A failed router carries nothing: in a simulation of its failure, no listed walk has a
  hop at that router, in any routing domain, and the source of the simulation is another
  node.
\<close>

theorem failed_router_avoided:
  assumes "simulate f policies fail extra = Inr s" "f_policy fail = None" "f_hop fail = NoHop" "f_ospf fail = []"
    "f_iface fail = []" "a \<in> set (sim_affected s)" "af_after a = Some h" "x \<in> set (walk_hops h)"
  shows "s_node (h_at x) \<noteq> f_node fail \<and> s_node (fl_source f) \<noteq> f_node fail"
  using assms(1,6)
proof (rule simulate_affected)
  fix fail' w b
  assume sel: "select_failure f policies fail = Inr (fail', w)" and rated: "rated w fail' (fl_source f) b"
    and ab: "a = b \<or> a = b\<lparr>af_after := None\<rparr>"
  let ?w0 = "new_walker f ZeroAddr"
  have "check_failure ?w0 (fl_source f) fail = Inr ()" and w: "w = ?w0" "fail' = fail"
    using sel assms(2-4) by (cases "check_failure ?w0 (fl_source f) fail"; auto simp: select_failure_def Let_def)+
  then have ok: "f_node fail \<noteq> []" "s_node (fl_source f) \<noteq> f_node fail"
    using assms(5) by (auto simp: check_failure_def split: if_splits)
  have "af_after b = Some h" "b = a" using ab assms(7) by auto
  with rated obtain tr tr' before touched spent stopped where
    p: "walk_pair w fail' (fl_source f) (af_dest a) tr = (tr', before, h, touched, spent, stopped)"
    by (auto simp: rated_def)
  obtain tr1 h1 where r: "run (failing w fail' (af_dest a)) forwarding_planes (tr\<lparr>tr_touched := False\<rparr>) (fl_source f) = (tr1, h1)"
    by fastforce
  have "h1 = h" using p r by (auto simp: walk_pair_def Let_def split: prod.splits if_splits)
  moreover have "router_down (failing w fail' (af_dest a)) fail"
    using ok(1) assms(5) by (simp add: router_down_def failing_def w new_walker_def Let_def)
  ultimately show ?thesis
    using run_avoids [OF r _ ok(2)] assms(8) ok(2) by blast
qed

theorem failed_router_avoided_witness:
  "\<exists>(a :: affected) h. af_impact a = ImpactReachabilityLost \<and> af_after a = Some h
     \<and> (\<forall>x\<in>set (walk_hops h). s_node (h_at x) \<noteq> ''r2'')"
proof -
  have "case sample_sim (lost_link ''r2'' []) of Inl _ \<Rightarrow> False
      | Inr s \<Rightarrow> (case filter (\<lambda>a. af_impact a = ImpactReachabilityLost \<and> af_after a \<noteq> None) (sim_affected s) of
          [] \<Rightarrow> False | _ # _ \<Rightarrow> True)"
    by code_simp
  then obtain s a xs where s: "simulate pair_net [] (lost_link ''r2'' []) [] = Inr s"
    and "filter (\<lambda>a. af_impact a = ImpactReachabilityLost \<and> af_after a \<noteq> None) (sim_affected s) = a # xs"
    by (auto simp: sample_sim_def split: sum.splits list.splits)
  then have "a \<in> set (filter (\<lambda>a. af_impact a = ImpactReachabilityLost \<and> af_after a \<noteq> None) (sim_affected s))" by simp
  then obtain h where a: "a \<in> set (sim_affected s)" "af_impact a = ImpactReachabilityLost" "af_after a = Some h" by auto
  have "s_node (h_at x) \<noteq> ''r2''" if "x \<in> set (walk_hops h)" for x
    using failed_router_avoided [OF s _ _ _ _ a(1,3) that] by (simp add: lost_link_def)
  with a show ?thesis by blast
qed

text \<open>
  The bounds of a simulation. At most 256 destinations are considered, each of them is
  either unchanged or listed once in address order, and when the simulation does not say it
  was truncated, every address an interface of the file holds and every named destination
  was considered. The listed walks stop at the output bound: the walks before the last one
  hold fewer than 512 hops.
\<close>

theorem simulate_bounded:
  assumes "simulate f policies fail extra = Inr s"
  shows "sim_considered s = sim_unchanged s + length (sim_affected s) \<and> sim_considered s \<le> max_destinations
     \<and> sorted_wrt (<) (map af_dest (sim_affected s))
     \<and> within_limit 0 (map (\<lambda>a. walk_size (af_after a)) (sim_affected s))
     \<and> (\<not> sim_truncated s \<longrightarrow>
          sim_considered s = card (unmap ` set extra \<union> fst ` set (address_rows (w_obs (new_walker f ZeroAddr)))))"
  using assms
proof (rule simulate_parts)
  fix fail' w dests sim_end "done" rest
  assume sel: "select_failure f policies fail = Inr (fail', w)" and d: "destinations w extra = Inr dests"
    and split: "take max_destinations dests = done @ rest" and ok: "sim_ok w fail' (fl_source f) done sim_end"
    and s: "sim_considered s = ss_considered sim_end" "sim_unchanged s = ss_unchanged sim_end"
    "sim_affected s = fst (list_walks 0 (sort_func (\<lambda>a b. addr_compare (af_dest a) (af_dest b)) (ss_affected sim_end)))"
    and whole: "\<not> sim_truncated s \<Longrightarrow> rest = [] \<and> length dests \<le> max_destinations"
  let ?sorted = "sort_func (\<lambda>a b. addr_compare (af_dest a) (af_dest b)) (ss_affected sim_end)"
  have rows: "w_rows w = address_rows (w_obs (new_walker f ZeroAddr))"
    using sel by (auto simp: select_failure_def new_walker_def Let_def split: option.splits if_splits)
  have "length done \<le> max_destinations"
    using arg_cong [OF split, of length] by simp
  moreover have "distinct (map af_dest ?sorted)"
    using ok by (simp add: sim_ok_def distinct_map)
  then have "sorted_wrt (<) (map af_dest (sim_affected s))"
    unfolding s(3) list_walks_fields(1) using addr_sorted strict_sorted_iff by blast
  moreover have "sim_considered s = card (unmap ` set extra \<union> fst ` set (w_rows w))" if "\<not> sim_truncated s"
  proof -
    have "done = dests" using split whole [OF that] by simp
    then show ?thesis
      using ok s(1) destinations_distinct [OF d] by (simp add: sim_ok_def distinct_card [symmetric])
  qed
  ultimately show ?thesis
    using ok s list_walks_limit [of 0 ?sorted] rows by (simp add: sim_ok_def list_walks_fields)
qed

theorem simulate_bounded_witness:
  "\<exists>s. simulate pair_net [] (lost_link ''r2'' []) [] = Inr s \<and> \<not> sim_truncated s \<and> sim_considered s = 1
     \<and> card (fst ` set (address_rows (w_obs (new_walker pair_net ZeroAddr)))) = 1"
proof -
  have "case sample_sim (lost_link ''r2'' []) of Inl _ \<Rightarrow> False
      | Inr s \<Rightarrow> \<not> sim_truncated s \<and> sim_considered s = 1"
    by code_simp
  then obtain s where s: "simulate pair_net [] (lost_link ''r2'' []) [] = Inr s" "\<not> sim_truncated s" "sim_considered s = 1"
    by (auto simp: sample_sim_def split: sum.splits)
  from simulate_bounded [OF s(1)] s show ?thesis by simp
qed

section \<open>Protocols that may reroute\<close>

text \<open>The branches that end at a node whose every next hop the failure removes for certain.\<close>

fun lost_paths :: "hop \<Rightarrow> hop list list" where
  "lost_paths (Hop s via d next) =
     (let h = Hop s via d next
      in if next \<noteq> [] \<and> (\<forall>c\<in>set next. h_kind c = KindFailed) then (if reach_of h = ReachFailed then [[h]] else [])
         else map (\<lambda>p. h # p) (concat (map lost_paths next)))"

lemma foldl_first: "foldl (\<lambda>first r. if first = None then g r else first) b rs =
    (if b \<noteq> None then b else (case List.map_filter g rs of [] \<Rightarrow> None | x # _ \<Rightarrow> Some x))"
  by (induction rs arbitrary: b) (auto simp: map_filter_def split: list.splits)

lemma first_loss_cases:
  "fst (first_loss rs) \<longleftrightarrow> (\<exists>r\<in>set rs. fst r)"
  "\<not> fst (first_loss rs) \<Longrightarrow> snd (first_loss rs) \<noteq> None \<longleftrightarrow> (\<exists>r\<in>set rs. snd r \<noteq> None)"
proof -
  show "fst (first_loss rs) \<longleftrightarrow> (\<exists>r\<in>set rs. fst r)" by (simp add: first_loss_def)
  assume "\<not> fst (first_loss rs)"
  then have "snd (first_loss rs) = (case List.map_filter snd rs of [] \<Rightarrow> None | x # _ \<Rightarrow> Some x)"
    by (auto simp: first_loss_def foldl_first split: if_splits)
  also have "\<dots> \<noteq> None \<longleftrightarrow> List.map_filter snd rs \<noteq> []" by (simp split: list.splits)
  also have "\<dots> \<longleftrightarrow> (\<exists>r\<in>set rs. snd r \<noteq> None)" by (auto simp: map_filter_def filter_empty_conv)
  finally show "snd (first_loss rs) \<noteq> None \<longleftrightarrow> (\<exists>r\<in>set rs. snd r \<noteq> None)" .
qed

lemma protocol_loss_paths:
  "fst (protocol_loss w h on) \<longleftrightarrow> on = None \<and> (\<exists>p\<in>set (lost_paths h). \<forall>x\<in>set p. protocol_rows w x = [])"
  "\<not> fst (protocol_loss w h on) \<Longrightarrow> snd (protocol_loss w h on) \<noteq> None \<longleftrightarrow> lost_paths h \<noteq> []"
proof (induction w h on rule: protocol_loss.induct)
  case (1 w s via d "next" on)
  let ?h = "Hop s via d next"
  let ?on = "if on = None \<and> protocol_rows w ?h \<noteq> [] then Some ?h else on"
  {
    case 1
    show ?case
    proof (cases "next \<noteq> [] \<and> (\<forall>c\<in>set next. h_kind c = KindFailed)")
      case True
      then show ?thesis by (auto simp: Let_def)
    next
      case False
      then have "fst (protocol_loss w ?h on) \<longleftrightarrow> (\<exists>c\<in>set next. fst (protocol_loss w c ?on))"
        by (simp only: protocol_loss.simps Let_def if_False first_loss_cases set_map bex_simps)
      also have "\<dots> \<longleftrightarrow> ?on = None \<and> (\<exists>c\<in>set next. \<exists>p\<in>set (lost_paths c). \<forall>x\<in>set p. protocol_rows w x = [])"
        using "1.IH"(1) [OF refl refl False] by blast
      also have "\<dots> \<longleftrightarrow> on = None \<and> (\<exists>p\<in>set (lost_paths ?h). \<forall>x\<in>set p. protocol_rows w x = [])"
        using False by (auto simp: Let_def)
      finally show ?thesis .
    qed
  next
    case 2
    show ?case
    proof (cases "next \<noteq> [] \<and> (\<forall>c\<in>set next. h_kind c = KindFailed)")
      case True
      then show ?thesis using 2 by (auto simp: Let_def split: if_splits)
    next
      case False
      then have eq: "protocol_loss w ?h on = first_loss (map (\<lambda>c. protocol_loss w c ?on) next)"
        by (simp only: protocol_loss.simps Let_def if_False)
      have no: "\<not> fst (protocol_loss w c ?on)" if "c \<in> set next" for c
        using 2 that unfolding eq first_loss_cases(1) by auto
      have "snd (protocol_loss w ?h on) \<noteq> None \<longleftrightarrow> (\<exists>c\<in>set next. snd (protocol_loss w c ?on) \<noteq> None)"
        using first_loss_cases(2) 2 unfolding eq by auto
      also have "\<dots> \<longleftrightarrow> (\<exists>c\<in>set next. lost_paths c \<noteq> [])"
        using "1.IH"(2) [OF refl refl False] no by blast
      also have "\<dots> \<longleftrightarrow> lost_paths ?h \<noteq> []"
        using False by (auto simp: Let_def)
      finally show ?thesis .
    qed
  }
qed


text \<open>
  C35. The search for a loss that no protocol can undo is exact: it answers that the loss
  stands precisely when some branch ends with every next hop cut and no hop on it forwards
  by an OSPF or BGP route, and it names a hop precisely when such branches exist and each of
  them has one.
\<close>

theorem protocol_loss_exact:
  "(fst (protocol_loss w h None) \<longleftrightarrow> (\<exists>p\<in>set (lost_paths h). \<forall>x\<in>set p. protocol_rows w x = []))
   \<and> (fst (protocol_loss w h None) = False \<and> snd (protocol_loss w h None) \<noteq> None \<longleftrightarrow>
        lost_paths h \<noteq> [] \<and> (\<forall>p\<in>set (lost_paths h). \<exists>x\<in>set p. protocol_rows w x \<noteq> []))"
  using protocol_loss_paths [of w h None] by auto

definition cut_walk :: "string \<Rightarrow> hop" where
  "cut_walk name =
     (let seg = \<lparr>seg_from = ''r1'', seg_vrf = ''default'', seg_iface = ''e0'', seg_hop = ZeroAddr,
                seg_outcome = OutcomeNone, seg_checks = []\<rparr>
      in Hop (at ''r1'' ''default'') None
           \<lparr>d_kind = KindForward, d_basis = Some FIB, d_prefix = None, d_proven = True, d_shadowed = [],
            d_hops = [\<lparr>nh_addr = ZeroAddr, nh_iface = ''e0''\<rparr>],
            d_evidence = [\<lparr>sup_source = ''lab'', sup_at = [], sup_origin = name, sup_absent = False\<rparr>],
            d_agreement = AgreementUnset, d_reason = NoReason\<rparr>
           [failed_leaf seg (lost_link ''r2'' [])])"

theorem protocol_loss_exact_witness:
  "list_ex (list_all (\<lambda>x. protocol_rows (new_walker pair_net sample_dest) x = [])) (lost_paths (cut_walk ''static''))
   \<and> list_all (list_ex (\<lambda>x. protocol_rows (new_walker pair_net sample_dest) x \<noteq> [])) (lost_paths (cut_walk ''ospf''))"
proof -
  have "fst (protocol_loss (new_walker pair_net sample_dest) (cut_walk ''static'') None)"
    "fst (protocol_loss (new_walker pair_net sample_dest) (cut_walk ''ospf'') None) = False
       \<and> snd (protocol_loss (new_walker pair_net sample_dest) (cut_walk ''ospf'') None) \<noteq> None"
    by code_simp+
  then show ?thesis
    using protocol_loss_exact [of "new_walker pair_net sample_dest" "cut_walk ''static''"]
      protocol_loss_exact [of "new_walker pair_net sample_dest" "cut_walk ''ospf''"]
    by (simp add: list_all_iff list_ex_iff)
qed

end
