(* ===== verification/Blast.thy ===== *)
theory Blast
  imports Simulate_Laws
begin

text \<open>
  One failure from several sources, \<^verbatim>\<open>blast.go\<close>: the modelled sources, the
  single-source simulation of each, the walks they list together, and the ratings counted by
  owner. A Go map of counters is an association list with one entry for each key.
\<close>

definition max_blast_sources :: nat where "max_blast_sources = 64"

section \<open>Sources\<close>

definition compare_starts :: "state \<Rightarrow> state \<Rightarrow> int" where
  "compare_starts a b = cmp_or [three_way (s_node a) (s_node b), three_way (s_vrf a) (s_vrf b)]"

definition modeled_sources :: "topology \<Rightarrow> state list" where
  "modeled_sources f =
     sort_func compare_starts (foldl append_new [] [at (o_node ob) (o_vrf ob). ob \<leftarrow> fl_model f, o_plane ob \<in> set read_planes])"

datatype source_error = NoDomain string string | NoNode string | SeveralDomains string "string list"

definition resolve_source :: "topology \<Rightarrow> string \<Rightarrow> string \<Rightarrow> source_error + state" where
  "resolve_source f node vrf =
     (case map s_vrf (filter (\<lambda>s. s_node s = node \<and> (vrf = [] \<or> s_vrf s = vrf)) (modeled_sources f)) of
        [] \<Rightarrow> Inl (if vrf \<noteq> [] then NoDomain vrf node else NoNode node)
      | [v] \<Rightarrow> Inr (at node v)
      | vrfs \<Rightarrow> Inl (SeveralDomains node vrfs))"

definition removes_source :: "failure \<Rightarrow> state \<Rightarrow> bool" where
  "removes_source fail s \<longleftrightarrow>
     f_node fail \<noteq> [] \<and> f_node fail = s_node s \<and> f_iface fail = [] \<and> f_ospf fail = [] \<and> f_hop fail = NoHop
     \<and> f_vrf fail = []"

section \<open>Walks listed together\<close>

fun share_affected :: "nat \<Rightarrow> affected list \<Rightarrow> nat \<times> affected list \<times> bool" where
  "share_affected shown [] = (shown, [], False)"
| "share_affected shown (a # xs) =
     (if af_after a = None then (case share_affected shown xs of (n, ys, short) \<Rightarrow> (n, a # ys, short))
      else if max_states \<le> shown
        then (case share_affected shown xs of (n, ys, short) \<Rightarrow> (n, a\<lparr>af_after := None\<rparr> # ys, True))
      else (case share_affected (shown + walk_size (af_after a)) xs of (n, ys, short) \<Rightarrow> (n, a # ys, short)))"

fun share_walks :: "nat \<Rightarrow> simulation list \<Rightarrow> simulation list" where
  "share_walks shown [] = []"
| "share_walks shown (s # sims) =
     (case share_affected shown (sim_affected s) of (n, xs, short) \<Rightarrow>
        s\<lparr>sim_affected := xs, sim_truncated := sim_truncated s \<or> short\<rparr> # share_walks n sims)"

section \<open>Counting by owner\<close>

record counts =
  ct_reachability :: nat
  ct_redundancy :: nat
  ct_unknown :: nat

definition no_counts :: counts where
  "no_counts = \<lparr>ct_reachability = 0, ct_redundancy = 0, ct_unknown = 0\<rparr>"

fun add_count :: "impact \<Rightarrow> counts \<Rightarrow> counts" where
  "add_count ImpactReachabilityLost c = c\<lparr>ct_reachability := ct_reachability c + 1\<rparr>"
| "add_count ImpactRedundancyLost c = c\<lparr>ct_redundancy := ct_redundancy c + 1\<rparr>"
| "add_count ImpactUnknown c = c\<lparr>ct_unknown := ct_unknown c + 1\<rparr>"
| "add_count ImpactNone c = c"

definition total :: "counts \<Rightarrow> nat" where
  "total c = ct_reachability c + ct_redundancy c + ct_unknown c"

fun bump :: "impact \<Rightarrow> ('k \<times> counts) list \<Rightarrow> 'k \<Rightarrow> ('k \<times> counts) list" where
  "bump i [] k = [(k, add_count i no_counts)]"
| "bump i ((k', c) # kcs) k = (if k' = k then (k', add_count i c) # kcs else (k', c) # bump i kcs k)"

record summary =
  sm_unchanged :: nat
  sm_ratings :: counts
  sm_unowned :: counts
  sm_nodes :: "(string \<times> counts) list"
  sm_domains :: "(state \<times> counts) list"

definition count_rating :: "summary \<Rightarrow> affected \<Rightarrow> summary" where
  "count_rating sm a =
     sm\<lparr>sm_ratings := add_count (af_impact a) (sm_ratings sm),
        sm_unowned := (if af_owners a = [] then add_count (af_impact a) (sm_unowned sm) else sm_unowned sm),
        sm_domains := foldl (bump (af_impact a)) (sm_domains sm) (af_owners a),
        sm_nodes := foldl (bump (af_impact a)) (sm_nodes sm) (foldl append_new [] (map s_node (af_owners a)))\<rparr>"

definition count_source :: "summary \<Rightarrow> simulation \<Rightarrow> summary" where
  "count_source sm s = foldl count_rating (sm\<lparr>sm_unchanged := sm_unchanged sm + sim_unchanged s\<rparr>) (sim_affected s)"

definition no_summary :: summary where
  "no_summary = \<lparr>sm_unchanged = 0, sm_ratings = no_counts, sm_unowned = no_counts, sm_nodes = [], sm_domains = []\<rparr>"

definition sort_groups :: "summary \<Rightarrow> summary" where
  "sort_groups sm = sm\<lparr>sm_nodes := sort_func (\<lambda>a b. three_way (fst a) (fst b)) (sm_nodes sm),
     sm_domains := sort_func (\<lambda>a b. compare_starts (fst a) (fst b)) (sm_domains sm)\<rparr>"

definition summarize :: "simulation list \<Rightarrow> summary" where
  "summarize sims = sort_groups (foldl count_source no_summary sims)"

section \<open>The run\<close>

record blast =
  bl_failure :: failure
  bl_summary :: summary
  bl_truncated :: bool
  bl_skipped :: nat
  bl_excluded :: "state list"
  bl_sources :: "simulation list"

definition blast_candidates :: "topology \<Rightarrow> bool \<Rightarrow> state list \<Rightarrow> state list" where
  "blast_candidates f all_of named = remdups_adj (sort_func compare_starts (if all_of then modeled_sources f else named))"

definition finish_blast :: "failure \<Rightarrow> nat \<Rightarrow> state list \<Rightarrow> simulation list \<Rightarrow> blast" where
  "finish_blast fail skipped excluded sims =
     \<lparr>bl_failure = (case sims of [] \<Rightarrow> fail | s # _ \<Rightarrow> sim_failure s), bl_summary = summarize sims,
      bl_truncated = (0 < skipped \<or> (\<exists>s\<in>set sims. sim_truncated s)), bl_skipped = skipped,
      bl_excluded = excluded, bl_sources = sims\<rparr>"

definition simulate_blast ::
  "topology \<Rightarrow> (policy_selector \<times> policy_evaluation) list \<Rightarrow> failure \<Rightarrow> bool \<Rightarrow> state list \<Rightarrow> addr list
     \<Rightarrow> failure_error + blast" where
  "simulate_blast f policies fail all_of named extra =
     (if f_policy fail \<noteq> None then Inl PolicyOneSource
      else
        (let sources = blast_candidates f all_of named;
             excluded = filter (removes_source fail) sources;
             wanted = filter (\<lambda>s. \<not> removes_source fail s) sources
         in if sources = [] then Inl NoSources
            else if excluded \<noteq> [] \<and> \<not> all_of then Inl (SourceFails (s_node (hd excluded)))
            else rbind (collect (\<lambda>s. simulate (f\<lparr>fl_source := s\<rparr>) policies fail extra) (take max_blast_sources wanted))
              (\<lambda>sims. Inr (finish_blast fail (length wanted - max_blast_sources) excluded (share_walks 0 sims)))))"


section \<open>What sharing the listing keeps\<close>

text \<open>A simulation whose walks may have been left out, and nothing else changed.\<close>

definition fewer_walks :: "simulation \<Rightarrow> simulation \<Rightarrow> bool" where
  "fewer_walks s t \<longleftrightarrow>
     (\<exists>xs short. t = s\<lparr>sim_affected := xs, sim_truncated := sim_truncated s \<or> short\<rparr>
        \<and> list_all2 (\<lambda>a b. b = a \<or> b = a\<lparr>af_after := None\<rparr>) (sim_affected s) xs
        \<and> (\<not> short \<longrightarrow> xs = sim_affected s))"

lemma share_affected_keeps:
  "share_affected shown xs = (n, ys, short) \<Longrightarrow>
     list_all2 (\<lambda>a b. b = a \<or> b = a\<lparr>af_after := None\<rparr>) xs ys \<and> (\<not> short \<longrightarrow> ys = xs)"
  by (induction shown xs arbitrary: n ys short rule: share_affected.induct) (fastforce split: if_splits prod.splits)+

lemma share_walks_keeps: "list_all2 fewer_walks sims (share_walks shown sims)"
proof (induction shown sims rule: share_walks.induct)
  case (2 shown s sims)
  obtain n xs short where a: "share_affected shown (sim_affected s) = (n, xs, short)" by (metis prod_cases3)
  then have "fewer_walks s (s\<lparr>sim_affected := xs, sim_truncated := sim_truncated s \<or> short\<rparr>)"
    using share_affected_keeps [OF a] unfolding fewer_walks_def by blast
  then show ?case using 2 a by simp
qed simp

lemma share_affected_limit:
  "share_affected shown xs = (n, ys, short) \<Longrightarrow>
     n = shown + sum_list (map (\<lambda>a. walk_size (af_after a)) ys)
     \<and> within_limit shown (map (\<lambda>a. walk_size (af_after a)) ys)"
  by (induction shown xs arbitrary: n ys short rule: share_affected.induct)
    (fastforce simp: walk_size_def split: if_splits prod.splits)+

lemma within_limit_append:
  "within_limit n (xs @ ys) \<longleftrightarrow> within_limit n xs \<and> within_limit (n + sum_list xs) ys"
  by (induction n xs rule: within_limit.induct) (auto simp: add.assoc)

lemma share_walks_limit:
  "within_limit shown (map (\<lambda>a. walk_size (af_after a)) (concat (map sim_affected (share_walks shown sims))))"
proof (induction shown sims rule: share_walks.induct)
  case (2 shown s sims)
  obtain n xs short where a: "share_affected shown (sim_affected s) = (n, xs, short)" by (metis prod_cases3)
  from share_affected_limit [OF a] 2 a show ?case by (auto simp: within_limit_append)
qed simp

section \<open>Counters\<close>

text \<open>How many ratings of one kind a list of ratings holds.\<close>

definition with_impact :: "impact \<Rightarrow> affected list \<Rightarrow> nat" where
  "with_impact i xs = length (filter (\<lambda>a. af_impact a = i) xs)"

lemma map_of_bump: "map_of (bump i kcs k) = (map_of kcs)(k \<mapsto> add_count i (case map_of kcs k of None \<Rightarrow> no_counts | Some c \<Rightarrow> c))"
  by (induction i kcs k rule: bump.induct) (auto simp: fun_eq_iff)

lemma keys_bump: "set (map fst (bump i kcs k)) = insert k (set (map fst kcs))"
  by (induction i kcs k rule: bump.induct) auto

lemma distinct_bump: "distinct (map fst (bump i kcs k)) = distinct (map fst kcs)"
  by (induction i kcs k rule: bump.induct) (auto simp: keys_bump [simplified])

definition count_of :: "impact \<Rightarrow> counts \<Rightarrow> nat" where
  "count_of i c = (case i of ImpactReachabilityLost \<Rightarrow> ct_reachability c | ImpactRedundancyLost \<Rightarrow> ct_redundancy c
     | ImpactUnknown \<Rightarrow> ct_unknown c | ImpactNone \<Rightarrow> 0)"

definition group_count :: "impact \<Rightarrow> ('k \<times> counts) list \<Rightarrow> 'k \<Rightarrow> nat" where
  "group_count i kcs k = (case map_of kcs k of None \<Rightarrow> 0 | Some c \<Rightarrow> count_of i c)"

lemma count_of_simps [simp]:
  "i \<noteq> ImpactNone \<Longrightarrow> count_of i (add_count j c) = count_of i c + (if i = j then 1 else 0)"
  "count_of i no_counts = 0"
  by (cases i; cases j; simp add: count_of_def no_counts_def)+

lemma group_count_bump:
  "i \<noteq> ImpactNone \<Longrightarrow> group_count i (bump j kcs k') k = group_count i kcs k + (if i = j \<and> k = k' then 1 else 0)"
  by (auto simp: group_count_def map_of_bump split: option.splits)

lemma group_count_foldl:
  "i \<noteq> ImpactNone \<Longrightarrow> distinct ks \<Longrightarrow>
     group_count i (foldl (bump j) kcs ks) k = group_count i kcs k + (if i = j \<and> k \<in> set ks then 1 else 0)"
  by (induction ks arbitrary: kcs) (auto simp: group_count_bump)

lemma distinct_foldl_bump: "distinct (map fst (foldl (bump j) kcs ks)) = distinct (map fst kcs)"
  by (induction ks arbitrary: kcs) (auto simp: distinct_bump)

lemma with_impact_simps [simp]:
  "with_impact i [] = 0" "with_impact i (a # xs) = (if af_impact a = i then 1 else 0) + with_impact i xs"
  "with_impact i (xs @ ys) = with_impact i xs + with_impact i ys"
  by (simp_all add: with_impact_def)

text \<open>What a summary counts, over the ratings it has seen.\<close>

definition counts_ratings :: "affected list \<Rightarrow> summary \<Rightarrow> bool" where
  "counts_ratings xs sm \<longleftrightarrow>
     (\<forall>i. i \<noteq> ImpactNone \<longrightarrow>
        count_of i (sm_ratings sm) = with_impact i xs
        \<and> count_of i (sm_unowned sm) = with_impact i (filter (\<lambda>a. af_owners a = []) xs)
        \<and> (\<forall>k. group_count i (sm_nodes sm) k = with_impact i (filter (\<lambda>a. k \<in> s_node ` set (af_owners a)) xs))
        \<and> (\<forall>s. group_count i (sm_domains sm) s = with_impact i (filter (\<lambda>a. s \<in> set (af_owners a)) xs)))
     \<and> distinct (map fst (sm_nodes sm)) \<and> distinct (map fst (sm_domains sm))"

lemma counts_ratings_start: "counts_ratings [] (no_summary\<lparr>sm_unchanged := n\<rparr>)"
  by (simp add: counts_ratings_def no_summary_def group_count_def)

lemma count_rating_step:
  assumes "counts_ratings xs sm" "distinct (af_owners a)"
  shows "counts_ratings (xs @ [a]) (count_rating sm a)"
  using assms
  by (auto simp: counts_ratings_def count_rating_def group_count_foldl distinct_foldl_bump)

lemma count_ratings:
  "counts_ratings xs sm \<Longrightarrow> (\<forall>a\<in>set ys. distinct (af_owners a)) \<Longrightarrow>
     counts_ratings (xs @ ys) (foldl count_rating sm ys) \<and> sm_unchanged (foldl count_rating sm ys) = sm_unchanged sm"
proof (induction ys arbitrary: xs sm)
  case (Cons a ys)
  from Cons(1) [OF count_rating_step [OF Cons(2)]] Cons(3) show ?case
    by (simp add: count_rating_def)
qed simp

lemma count_sources:
  "counts_ratings xs sm \<Longrightarrow> (\<forall>s\<in>set sims. \<forall>a\<in>set (sim_affected s). distinct (af_owners a)) \<Longrightarrow>
     counts_ratings (xs @ concat (map sim_affected sims)) (foldl count_source sm sims)
     \<and> sm_unchanged (foldl count_source sm sims) = sm_unchanged sm + sum_list (map sim_unchanged sims)"
proof (induction sims arbitrary: xs sm)
  case (Cons s sims)
  have "counts_ratings xs (sm\<lparr>sm_unchanged := sm_unchanged sm + sim_unchanged s\<rparr>)"
    using Cons(2) by (simp add: counts_ratings_def)
  from count_ratings [OF this, of "sim_affected s"] Cons(3)
  have "counts_ratings (xs @ sim_affected s) (count_source sm s)"
    "sm_unchanged (count_source sm s) = sm_unchanged sm + sim_unchanged s"
    by (simp_all add: count_source_def)
  from Cons(1) [OF this(1)] this(2) Cons(3) show ?case by simp
qed simp

lemma map_of_perm:
  assumes "distinct (map fst kcs)"
  shows "map_of (sort_func c kcs) k = map_of kcs k"
proof -
  have "distinct (map fst (sort_func c kcs))" using assms by (simp add: distinct_map)
  then have "map_of (sort_func c kcs) k = Some v \<longleftrightarrow> map_of kcs k = Some v" for v
    using assms by (simp add: map_of_eq_Some_iff)
  then show ?thesis by (metis not_Some_eq)
qed

lemma summarize_counts:
  assumes "\<forall>s\<in>set sims. \<forall>a\<in>set (sim_affected s). distinct (af_owners a)"
  shows "counts_ratings (concat (map sim_affected sims)) (summarize sims)"
    "sm_unchanged (summarize sims) = sum_list (map sim_unchanged sims)"
proof -
  have "counts_ratings [] no_summary" using counts_ratings_start [of 0] by (simp add: no_summary_def)
  note c = count_sources [OF this assms]
  then show "counts_ratings (concat (map sim_affected sims)) (summarize sims)"
    by (simp add: summarize_def counts_ratings_def sort_groups_def group_count_def map_of_perm distinct_map)
  show "sm_unchanged (summarize sims) = sum_list (map sim_unchanged sims)"
    using c by (simp add: summarize_def sort_groups_def no_summary_def)
qed


section \<open>Sources in order\<close>

interpretation start_order: compare_order compare_starts
proof (rule compare_order_keysI [where ds = "[\<lambda>a b. three_way (s_node a) (s_node b), \<lambda>a b. three_way (s_vrf a) (s_vrf b)]"])
  show "compare_preorder d" if "d \<in> set [\<lambda>a b. three_way (s_node a) (s_node b), \<lambda>a b. three_way (s_vrf a) (s_vrf b)]" for d
    using that by (auto intro: compare_preorder_key [OF compare_preorder_three_way])
qed (auto simp: compare_starts_def)

lemma set_modeled_sources:
  "s \<in> set (modeled_sources f) \<longleftrightarrow>
     (\<exists>ob\<in>set (fl_model f). o_plane ob \<in> set read_planes \<and> o_node ob = s_node s \<and> o_vrf ob = s_vrf s)"
  by (cases s) (auto simp: modeled_sources_def)

lemma distinct_modeled_sources: "distinct (modeled_sources f)"
  by (simp add: modeled_sources_def)

lemma distinct_sources: "distinct (blast_candidates f all_of named)"
  unfolding blast_candidates_def
  by (rule start_order.distinct_compact [OF start_order.sorted_sort_func])

lemma finish_sim_source: "sim_source (finish_sim w f src st) = src"
  by (simp add: finish_sim_def split: prod.split)

lemma simulate_source: "simulate f policies fail extra = Inr s \<Longrightarrow> sim_source s = fl_source f"
  by (auto simp: simulate_def simulate_over_def finish_sim_source)

lemma simulate_owners:
  assumes "simulate f policies fail extra = Inr s" "a \<in> set (sim_affected s)"
  shows "distinct (af_owners a)"
  using assms
proof (rule simulate_affected)
  fix fail' w b
  assume "rated w fail' (fl_source f) b" "a = b \<or> a = b\<lparr>af_after := None\<rparr>"
  then show ?thesis by (auto simp: rated_def owners_def)
qed

lemma blast_parts:
  assumes "simulate_blast f policies fail all_of named extra = Inr b"
  obtains sims where
    "list_all2 (\<lambda>s u. simulate (f\<lparr>fl_source := s\<rparr>) policies fail extra = Inr u)
       (take max_blast_sources (filter (\<lambda>s. \<not> removes_source fail s) (blast_candidates f all_of named))) sims"
    "bl_sources b = share_walks 0 sims" "bl_summary b = summarize (bl_sources b)"
    "bl_skipped b = length (filter (\<lambda>s. \<not> removes_source fail s) (blast_candidates f all_of named)) - max_blast_sources"
    "bl_excluded b = filter (removes_source fail) (blast_candidates f all_of named)"
    "bl_truncated b \<longleftrightarrow> 0 < bl_skipped b \<or> (\<exists>s\<in>set (bl_sources b). sim_truncated s)"
    "all_of \<or> bl_excluded b = []"
  using assms
  by (auto simp: simulate_blast_def finish_blast_def Let_def collect_Inr_iff split: if_splits)

definition sample_blast :: "failure_error + blast" where
  "sample_blast = simulate_blast pair_net [] (lost_link ''r1'' ''e0'') True [] []"

lemma sample_blast_runs:
  "\<exists>b. sample_blast = Inr b \<and> map sim_source (bl_sources b) = [at ''r1'' ''default'', at ''r2'' ''default'']
     \<and> count_of ImpactReachabilityLost (sm_ratings (bl_summary b)) = 1"
proof -
  have "case sample_blast of Inl _ \<Rightarrow> False
      | Inr b \<Rightarrow> map sim_source (bl_sources b) = [at ''r1'' ''default'', at ''r2'' ''default'']
          \<and> count_of ImpactReachabilityLost (sm_ratings (bl_summary b)) = 1"
    by code_simp
  then show ?thesis by (auto split: sum.splits)
qed

text \<open>
  C36. A run from several sources is the single-source simulation of each of them: every
  source that the failure does not remove, in canonical order and up to the source bound,
  gets exactly its own simulation, in which at most listed walks are missing and only then
  the simulation is marked as truncated. The walks of all sources together respect the output bound
  of one simulation.
\<close>

theorem blast_refines_simulations:
  assumes "simulate_blast f policies fail all_of named extra = Inr b"
  shows "list_all2 (\<lambda>s t. \<exists>u. simulate (f\<lparr>fl_source := s\<rparr>) policies fail extra = Inr u \<and> fewer_walks u t \<and> sim_source t = s)
       (take max_blast_sources (filter (\<lambda>s. \<not> removes_source fail s) (blast_candidates f all_of named))) (bl_sources b)
     \<and> distinct (map sim_source (bl_sources b))
     \<and> within_limit 0 (map (\<lambda>a. walk_size (af_after a)) (concat (map sim_affected (bl_sources b))))"
  using assms
proof (rule blast_parts)
  fix sims
  let ?wanted = "take max_blast_sources (filter (\<lambda>s. \<not> removes_source fail s) (blast_candidates f all_of named))"
  assume sims: "list_all2 (\<lambda>s u. simulate (f\<lparr>fl_source := s\<rparr>) policies fail extra = Inr u) ?wanted sims"
    and b: "bl_sources b = share_walks 0 sims"
  have "list_all2 (\<lambda>s t. \<exists>u. simulate (f\<lparr>fl_source := s\<rparr>) policies fail extra = Inr u \<and> fewer_walks u t \<and> sim_source t = s)
      ?wanted (bl_sources b)"
    unfolding b
    by (rule list_all2_trans [OF _ sims share_walks_keeps]) (auto dest: simulate_source simp: fewer_walks_def)
  moreover from this have "map sim_source (bl_sources b) = ?wanted"
    by (induction rule: list_all2_induct) auto
  then have "distinct (map sim_source (bl_sources b))"
    using distinct_sources [of f all_of named] by (simp add: distinct_take)
  ultimately show ?thesis using share_walks_limit [of 0 sims] b by simp
qed

theorem blast_refines_simulations_witness:
  "\<exists>u t. simulate (pair_net\<lparr>fl_source := at ''r1'' ''default''\<rparr>) [] (lost_link ''r1'' ''e0'') [] = Inr u \<and> fewer_walks u t"
proof -
  obtain b where b: "simulate_blast pair_net [] (lost_link ''r1'' ''e0'') True [] [] = Inr b"
    and s: "map sim_source (bl_sources b) = [at ''r1'' ''default'', at ''r2'' ''default'']"
    using sample_blast_runs unfolding sample_blast_def by (elim exE conjE) (rule that)
  have "at ''r1'' ''default'' \<in> sim_source ` set (bl_sources b)" unfolding set_map [symmetric] s by simp
  then obtain t where t: "t \<in> set (bl_sources b)" "sim_source t = at ''r1'' ''default''" by auto
  from list_all2_rightD [OF blast_refines_simulations [OF b, THEN conjunct1] t(1)] t(2) show ?thesis
    by metis
qed

text \<open>
  The summary counts each rating where it belongs. For every impact, the ratings count
  all affected destinations of all sources, the unowned ones those no modelled node holds, a
  node group those some routing domain of the node holds, each once, and a domain group
  those the domain holds; each group is listed once.
\<close>

theorem blast_counts:
  assumes "simulate_blast f policies fail all_of named extra = Inr b" "i \<noteq> ImpactNone"
  shows "count_of i (sm_ratings (bl_summary b)) = with_impact i (concat (map sim_affected (bl_sources b)))
     \<and> count_of i (sm_unowned (bl_summary b))
         = with_impact i (filter (\<lambda>a. af_owners a = []) (concat (map sim_affected (bl_sources b))))
     \<and> group_count i (sm_nodes (bl_summary b)) node
         = with_impact i (filter (\<lambda>a. node \<in> s_node ` set (af_owners a)) (concat (map sim_affected (bl_sources b))))
     \<and> group_count i (sm_domains (bl_summary b)) s
         = with_impact i (filter (\<lambda>a. s \<in> set (af_owners a)) (concat (map sim_affected (bl_sources b))))
     \<and> sm_unchanged (bl_summary b) = sum_list (map sim_unchanged (bl_sources b))
     \<and> distinct (map fst (sm_nodes (bl_summary b))) \<and> distinct (map fst (sm_domains (bl_summary b)))"
  using assms(1)
proof (rule blast_parts)
  fix sims
  let ?wanted = "take max_blast_sources (filter (\<lambda>s. \<not> removes_source fail s) (blast_candidates f all_of named))"
  assume sims: "list_all2 (\<lambda>s u. simulate (f\<lparr>fl_source := s\<rparr>) policies fail extra = Inr u) ?wanted sims"
    and b: "bl_sources b = share_walks 0 sims" "bl_summary b = summarize (bl_sources b)"
  have "\<forall>u\<in>set sims. \<forall>a\<in>set (sim_affected u). distinct (af_owners a)"
    using list_all2_rightD [OF sims] simulate_owners by blast
  moreover have "\<exists>u\<in>set sims. fewer_walks u t" if "t \<in> set (bl_sources b)" for t
    using list_all2_rightD [OF share_walks_keeps, of t] that unfolding b(1) by blast
  ultimately have "\<forall>t\<in>set (bl_sources b). \<forall>a\<in>set (sim_affected t). distinct (af_owners a)"
    by (fastforce simp: fewer_walks_def dest: list_all2_rightD)
  from summarize_counts [OF this] assms(2) show ?thesis
    unfolding b(2) counts_ratings_def by blast
qed

theorem blast_counts_witness:
  "\<exists>b :: blast. count_of ImpactReachabilityLost (sm_ratings (bl_summary b)) = 1
     \<and> with_impact ImpactReachabilityLost (concat (map sim_affected (bl_sources b))) = 1"
proof -
  obtain b where b: "simulate_blast pair_net [] (lost_link ''r1'' ''e0'') True [] [] = Inr b"
    and s: "count_of ImpactReachabilityLost (sm_ratings (bl_summary b)) = 1"
    using sample_blast_runs unfolding sample_blast_def by (elim exE conjE) (rule that)
  from blast_counts [OF b, of ImpactReachabilityLost, THEN conjunct1] s show ?thesis
    by (intro exI [of _ b] conjI) simp_all
qed

text \<open>
  A named source is resolved exactly when it names one modelled routing domain: the
  answer is that domain, and every other name is refused.
\<close>

theorem resolve_source_exact:
  "resolve_source f node vrf = Inr s \<longleftrightarrow>
     {t. s_node t = node \<and> (vrf = [] \<or> s_vrf t = vrf)
         \<and> (\<exists>ob\<in>set (fl_model f). o_plane ob \<in> set read_planes \<and> o_node ob = s_node t \<and> o_vrf ob = s_vrf t)} = {s}"
proof -
  let ?named = "filter (\<lambda>t. s_node t = node \<and> (vrf = [] \<or> s_vrf t = vrf)) (modeled_sources f)"
  have "resolve_source f node vrf = Inr s \<longleftrightarrow> (\<exists>v. map s_vrf ?named = [v] \<and> s = at node v)"
    unfolding resolve_source_def by (auto split: list.splits)
  also have "\<dots> \<longleftrightarrow> ?named = [s]"
  proof
    assume "\<exists>v. map s_vrf ?named = [v] \<and> s = at node v"
    then obtain t where t: "?named = [t]" "s = at node (s_vrf t)" by auto
    then have "t \<in> set ?named" by simp
    then have "s_node t = node" by simp
    with t show "?named = [s]" by simp
  next
    assume n: "?named = [s]"
    then have "s \<in> set ?named" by simp
    then have "s_node s = node" by simp
    with n show "\<exists>v. map s_vrf ?named = [v] \<and> s = at node v" by auto
  qed
  also have "\<dots> \<longleftrightarrow> set ?named = {s}"
    by (rule distinct_single) (simp add: distinct_modeled_sources)
  also have "set ?named = {t. s_node t = node \<and> (vrf = [] \<or> s_vrf t = vrf)
      \<and> (\<exists>ob\<in>set (fl_model f). o_plane ob \<in> set read_planes \<and> o_node ob = s_node t \<and> o_vrf ob = s_vrf t)}"
    using set_modeled_sources [of _ f] by auto
  finally show ?thesis .
qed

end
