(* ===== verification/Report.thy ===== *)
theory Report
  imports Blast
begin

text \<open>
  The whole explanation, \<^verbatim>\<open>Explain\<close> of \<^verbatim>\<open>walk.go\<close>: the two walks
  compared, the return route and the drift of the same walker.
\<close>

record report =
  rp_walks :: explanation
  rp_asymmetry :: "asymmetry option"
  rp_drift :: "drift option"

definition explain :: "topology \<Rightarrow> addr \<Rightarrow> report" where
  "explain f dest =
     (case explain_walks f dest of (e, w) \<Rightarrow>
        \<lparr>rp_walks = e, rp_asymmetry = asymmetry_of w f e, rp_drift = drift_of w e\<rparr>)"

end
