(* ===== verification/Ospf.thy ===== *)
theory Ospf
  imports Netmodel
begin

text \<open>
  The OSPF reading of a model, \<^verbatim>\<open>internal/ospf/ospf.go\<close>: what the recorded
  attributes say of each adjacency, each configured area, each expected neighbor and each
  declared link. The phases append to one list of findings; here each phase returns the
  findings it adds and \<open>analyze\<close> concatenates them in the code's order and sorts them.
  A Go map from a key to the records of that key is the list of its groups in the order of
  first occurrence; the final sort is what fixes the order of the report. The parameter
  \<open>q\<close> stands for \<^verbatim>\<open>strconv.Quote\<close>, whose table of printable runes is not
  modelled; it only renders values inside details.
\<close>

section \<open>Vocabulary\<close>

definition key_state :: string where "key_state = ''ospf.state''"
definition key_area :: string where "key_area = ''ospf.area''"
definition key_router_id :: string where "key_router_id = ''ospf.router_id''"
definition key_effective_area :: string where "key_effective_area = ''ospf.effective_area''"
definition key_passive :: string where "key_passive = ''ospf.passive''"

definition neighbor_vocabulary :: "string list" where
  "neighbor_vocabulary =
     [''down'', ''attempt'', ''init'', ''2-way'', ''exstart'', ''exchange'', ''loading'', ''full'']"

datatype strength = Reported | ConsistentWith | StrengthUnknown | StrengthConflicting

fun strength_text :: "strength \<Rightarrow> string" where
  "strength_text Reported = ''reported''"
| "strength_text ConsistentWith = ''consistent_with''"
| "strength_text StrengthUnknown = ''unknown''"
| "strength_text StrengthConflicting = ''conflicting''"

datatype ospf_kind =
  NeighborState | MissingNeighbor | AreaMismatch | AttributeConflict | IncompleteAttributes
| RouterIDUnconfirmed | DeclaredLinkOneSided

fun ospf_kind_text :: "ospf_kind \<Rightarrow> string" where
  "ospf_kind_text NeighborState = ''neighbor_state''"
| "ospf_kind_text MissingNeighbor = ''missing_neighbor''"
| "ospf_kind_text AreaMismatch = ''area_mismatch''"
| "ospf_kind_text AttributeConflict = ''attribute_conflict''"
| "ospf_kind_text IncompleteAttributes = ''incomplete_attributes''"
| "ospf_kind_text RouterIDUnconfirmed = ''router_id_unconfirmed''"
| "ospf_kind_text DeclaredLinkOneSided = ''declared_link_one_sided''"

datatype limit =
  LimitFull | LimitTwoWay | LimitBeforeFull | LimitStatesConflict | LimitMissingConsistent
| LimitMissingUnknown | LimitMissingConflict | LimitAreaMismatch | LimitAttributeConflict
| LimitIncomplete | LimitRouterID | LimitDeclaredArea | LimitDeclaredRecorded
| LimitDeclaredOneSided | LimitDeclaredIncomplete | LimitMissingPassive | LimitMissingPassiveBoth

fun limit_text :: "limit \<Rightarrow> string" where
  "limit_text LimitFull =
      ''FULL is the reporter's own claim. It does not prove that the link carries traffic ''
      @ ''or that the destination is reachable.''"
| "limit_text LimitTwoWay =
      ''2-way is the normal stable state between two non-designated routers on a broadcast ''
      @ ''network. Alone it shows no fault.''"
| "limit_text LimitBeforeFull =
      ''A state before FULL is what the reporter says. It names no root cause and does not ''
      @ ''prove the far side is down.''"
| "limit_text LimitStatesConflict =
      ''Sources disagree about this neighbor state. No state is chosen, and the newest ''
      @ ''timestamp does not decide.''"
| "limit_text LimitMissingConsistent =
      ''The reporter marks its neighbor list complete, and that list holds OSPF records but ''
      @ ''none for this neighbor. The flag does not show that every OSPF source was ''
      @ ''collected. The omission does not prove the adjacency is down.''"
| "limit_text LimitMissingUnknown =
      ''The evidence cannot show whether the neighbor is absent. Nothing is concluded about ''
      @ ''the adjacency.''"
| "limit_text LimitMissingConflict =
      ''One complete neighbor list lacks a record that another source reports. Neither ''
      @ ''source is chosen.''"
| "limit_text LimitAreaMismatch =
      ''The configured areas differ on the two ends of a link that both sides report. That ''
      @ ''is consistent with a failed adjacency. It does not name a cause.''"
| "limit_text LimitAttributeConflict =
      ''Sources or values disagree about one OSPF attribute. No value is chosen.''"
| "limit_text LimitIncomplete =
      ''The attribute is missing or cannot be read, so no conclusion rests on it.''"
| "limit_text LimitRouterID =
      ''A neighbor record reports this router ID, and the peer's node reports none that ''
      @ ''matches. A router ID never names a peer, so nothing is matched by it.''"
| "limit_text LimitDeclaredArea =
      ''Both ends declare this link, and the effective areas FRR reports for its two ''
      @ ''interfaces differ. The declaration is supplied by the user. The captures may have ''
      @ ''been taken at different times, shown on the evidence rows. A failed adjacency would ''
      @ ''fit this reading, but the evidence does not show one.''"
| "limit_text LimitDeclaredRecorded =
      ''Both ends declare this link, the effective areas differ, and an OSPF neighbor ''
      @ ''record reports the link. Both cannot hold at once, so no area is chosen. The ''
      @ ''declaration is supplied by the user, and the captures may have been taken at ''
      @ ''different times, shown on the evidence rows. FRR shows one area per interface name, ''
      @ ''so the interface's area may not be the area of this adjacency.''"
| "limit_text LimitDeclaredOneSided =
      ''Only one end declares this link, so the declaration does not confirm that the link ''
      @ ''exists. The effective areas of the two interfaces differ. No area is chosen and no ''
      @ ''cause is shown.''"
| "limit_text LimitDeclaredIncomplete =
      ''An end of this declared link has no effective area, or one that cannot be read, so ''
      @ ''the areas are not compared. Nothing is concluded about the link.''"
| "limit_text LimitMissingPassive =
      ''A passive OSPF interface sends no hellos, which is consistent with the expected ''
      @ ''adjacency not forming. The reading rests on the passive value one end reports, a ''
      @ ''link both ends declare, and no OSPF record for the pair. It does not show that the ''
      @ ''neighbor is down, and it does not say why the interface is passive.''"
| "limit_text LimitMissingPassiveBoth =
      ''Both ends report passive OSPF, which is consistent with the expected adjacency not ''
      @ ''forming. The reading rests on the passive values the two ends report, a link both ''
      @ ''ends declare, and no OSPF record for the pair. It does not show that the neighbor ''
      @ ''is down, and it does not say why either interface is passive.''"

section \<open>Data\<close>

record ospf_evidence =
  oe_source :: string
  oe_at :: string
  oe_plane :: string
  oe_node :: string
  oe_vrf :: string
  oe_iface :: string
  oe_peer :: string
  oe_remote :: string
  oe_state :: string
  oe_area :: string
  oe_effective :: string
  oe_router_id :: string
  oe_passive :: string
  oe_note :: string

record ospf_finding =
  of_kind :: ospf_kind
  of_strength :: strength
  of_node :: string
  of_vrf :: string
  of_iface :: string
  of_peer :: string
  of_remote :: string
  of_detail :: string
  of_limit :: limit
  of_evidence :: "ospf_evidence list"

text \<open>One directed neighbor identity, the same link seen from the far side, and the identity
  that leaves the remote interface out.\<close>

record link =
  lk_node :: string
  lk_vrf :: string
  lk_iface :: string
  lk_peer :: string
  lk_remote :: string

definition mirror :: "link \<Rightarrow> link" where
  "mirror l = \<lparr>lk_node = lk_peer l, lk_vrf = lk_vrf l, lk_iface = lk_remote l, lk_peer = lk_node l,
               lk_remote = lk_iface l\<rparr>"

type_synonym link_pair = "string \<times> string \<times> string \<times> string"

definition pair_of :: "link \<Rightarrow> link_pair" where
  "pair_of l = (lk_node l, lk_vrf l, lk_iface l, lk_peer l)"

definition compare_link :: "link \<Rightarrow> link \<Rightarrow> int" where
  "compare_link a b =
     cmp_or [three_way (lk_node a) (lk_node b), three_way (lk_vrf a) (lk_vrf b),
             three_way (lk_iface a) (lk_iface b), three_way (lk_peer a) (lk_peer b),
             three_way (lk_remote a) (lk_remote b)]"

record nbr_record =
  nr_prov :: provenance
  nr_plane :: plane
  nr_link :: link
  nr_attrs :: "attribute list"

record inventory =
  in_prov :: provenance
  in_plane :: plane
  in_node :: string
  in_vrf :: string
  in_complete :: bool
  in_ospf :: bool
  in_neighbors :: "nbr_record list"

definition absence_counts :: "inventory \<Rightarrow> bool" where
  "absence_counts i \<longleftrightarrow> in_complete i \<and> in_ospf i"

record iface_row =
  ir_prov :: provenance
  ir_plane :: plane
  ir_node :: string
  ir_vrf :: string
  ir_iface :: string
  ir_attrs :: "attribute list"

record area =
  ar_n :: "32 word"
  ar_rows :: "ospf_evidence list"

record analysis =
  an_inv :: "inventory list"
  an_ifaces :: "iface_row list"

section \<open>Attributes\<close>

definition carries_ospf :: "attribute list \<Rightarrow> bool" where
  "carries_ospf attrs \<longleftrightarrow> (\<exists>a\<in>set attrs. has_prefix (attr_key a) ''ospf.'')"

definition values_of :: "attribute list \<Rightarrow> string \<Rightarrow> string list" where
  "values_of attrs key = map attr_value (filter (\<lambda>a. attr_key a = key) attrs)"

text \<open>\<^verbatim>\<open>strconv.ParseUint\<close> in base 10: digits only, at least one.\<close>

definition digit_value :: "char \<Rightarrow> int option" where
  "digit_value c = (if CHR ''0'' \<le> c \<and> c \<le> CHR ''9'' then Some (of_char c - 48) else None)"

fun digits_value :: "int \<Rightarrow> string \<Rightarrow> int option" where
  "digits_value acc [] = Some acc"
| "digits_value acc (c # cs) =
     (case digit_value c of None \<Rightarrow> None | Some d \<Rightarrow> digits_value (10 * acc + d) cs)"

definition parse_uint :: "nat \<Rightarrow> string \<Rightarrow> int option" where
  "parse_uint b s =
     (if s = [] then None
      else case digits_value 0 s of None \<Rightarrow> None | Some n \<Rightarrow> if n < 2 ^ b then Some n else None)"

text \<open>\<^verbatim>\<open>netip.ParseAddr\<close> on the dotted IPv4 form: four fields without leading zeros.\<close>

fun split_on :: "char \<Rightarrow> string \<Rightarrow> string list" where
  "split_on sep [] = [[]]"
| "split_on sep (c # cs) =
     (if c = sep then [] # split_on sep cs
      else case split_on sep cs of f # fs \<Rightarrow> (c # f) # fs | [] \<Rightarrow> [[c]])"

definition parse_octet :: "string \<Rightarrow> int option" where
  "parse_octet s = (if 1 < length s \<and> hd s = CHR ''0'' then None else parse_uint 8 s)"

definition parse_dotted :: "string \<Rightarrow> 32 word option" where
  "parse_dotted s =
     (case map parse_octet (split_on (CHR ''.'') s) of
        [Some a, Some b, Some c, Some d] \<Rightarrow> Some (of_int (((a * 256 + b) * 256 + c) * 256 + d))
      | _ \<Rightarrow> None)"

definition parse_area :: "string \<Rightarrow> 32 word option" where
  "parse_area s =
     (case parse_uint 32 (trim_space s) of
        Some n \<Rightarrow> Some (of_int n)
      | None \<Rightarrow> parse_dotted (trim_space s))"

definition parse_router_id :: "string \<Rightarrow> 32 word option" where
  "parse_router_id s = parse_dotted (trim_space s)"

definition quoted :: "(string \<Rightarrow> string) \<Rightarrow> string list \<Rightarrow> string" where
  "quoted q vs = join (map q vs) '', ''"

section \<open>Evidence rows\<close>

definition record_evidence :: "string \<Rightarrow> nbr_record \<Rightarrow> ospf_evidence" where
  "record_evidence nt r =
     \<lparr>oe_source = source (nr_prov r), oe_at = utc_text (collected_at (nr_prov r)),
      oe_plane = plane_text (nr_plane r), oe_node = lk_node (nr_link r), oe_vrf = lk_vrf (nr_link r),
      oe_iface = lk_iface (nr_link r), oe_peer = lk_peer (nr_link r), oe_remote = lk_remote (nr_link r),
      oe_state = join (values_of (nr_attrs r) key_state) '', '',
      oe_area = join (values_of (nr_attrs r) key_area) '', '', oe_effective = [],
      oe_router_id = join (values_of (nr_attrs r) key_router_id) '', '', oe_passive = [], oe_note = nt\<rparr>"

definition iface_evidence :: "string \<Rightarrow> iface_row \<Rightarrow> ospf_evidence" where
  "iface_evidence nt r =
     \<lparr>oe_source = source (ir_prov r), oe_at = utc_text (collected_at (ir_prov r)),
      oe_plane = plane_text (ir_plane r), oe_node = ir_node r, oe_vrf = ir_vrf r,
      oe_iface = ir_iface r, oe_peer = [], oe_remote = [], oe_state = [],
      oe_area = join (values_of (ir_attrs r) key_area) '', '',
      oe_effective = join (values_of (ir_attrs r) key_effective_area) '', '',
      oe_router_id = join (values_of (ir_attrs r) key_router_id) '', '', oe_passive = [], oe_note = nt\<rparr>"

definition passive_evidence :: "string \<Rightarrow> iface_row \<Rightarrow> ospf_evidence" where
  "passive_evidence v r = (iface_evidence ''ospf.passive as reported'' r)\<lparr>oe_passive := v\<rparr>"

definition inv_evidence :: "inventory \<Rightarrow> string \<Rightarrow> ospf_evidence" where
  "inv_evidence i nt =
     \<lparr>oe_source = source (in_prov i), oe_at = utc_text (collected_at (in_prov i)),
      oe_plane = plane_text (in_plane i), oe_node = in_node i, oe_vrf = in_vrf i, oe_iface = [],
      oe_peer = [], oe_remote = [], oe_state = [], oe_area = [], oe_effective = [], oe_router_id = [],
      oe_passive = [], oe_note = nt\<rparr>"

definition evidence_of :: "nbr_record list \<Rightarrow> string \<Rightarrow> ospf_evidence list" where
  "evidence_of recs nt = map (record_evidence nt) recs"

definition evidence_key :: "ospf_evidence \<Rightarrow> string" where
  "evidence_key e =
     join [oe_source e, oe_at e, oe_plane e, oe_node e, oe_vrf e, oe_iface e, oe_peer e, oe_remote e,
           oe_state e, oe_area e, oe_effective e, oe_router_id e, oe_passive e, oe_note e] [CHR 0x00]"

definition finding_key :: "ospf_finding \<Rightarrow> string" where
  "finding_key f =
     concat (map (\<lambda>s. s @ [CHR 0x00])
       [ospf_kind_text (of_kind f), strength_text (of_strength f), of_node f, of_vrf f, of_iface f,
        of_peer f, of_remote f, of_detail f, limit_text (of_limit f)])
     @ concat (map (\<lambda>e. evidence_key e @ [CHR 0x01]) (of_evidence f))"

text \<open>\<^verbatim>\<open>analysis.add\<close>: the evidence sorted, without repeated neighbours.\<close>

definition add_finding ::
  "ospf_kind \<Rightarrow> strength \<Rightarrow> link \<Rightarrow> string \<Rightarrow> limit \<Rightarrow> ospf_evidence list \<Rightarrow> ospf_finding" where
  "add_finding k s l detail lim ev =
     \<lparr>of_kind = k, of_strength = s, of_node = lk_node l, of_vrf = lk_vrf l, of_iface = lk_iface l,
      of_peer = lk_peer l, of_remote = lk_remote l, of_detail = detail, of_limit = lim,
      of_evidence = remdups_adj (sort_func (\<lambda>x y. three_way (evidence_key x) (evidence_key y)) ev)\<rparr>"

section \<open>Indexing the observations\<close>

fun ospf_plane :: "plane \<Rightarrow> bool" where
  "ospf_plane Control = True"
| "ospf_plane Configured = True"
| "ospf_plane Intended = True"
| "ospf_plane p = False"

definition record_of :: "observation \<Rightarrow> neighbor \<Rightarrow> nbr_record" where
  "record_of ob n =
     \<lparr>nr_prov = o_prov ob, nr_plane = o_plane ob,
      nr_link = \<lparr>lk_node = o_node ob, lk_vrf = o_vrf ob, lk_iface = n_local n, lk_peer = n_node n,
                 lk_remote = n_remote n\<rparr>,
      nr_attrs = n_attrs n\<rparr>"

definition inventory_of :: "observation \<Rightarrow> inventory" where
  "inventory_of ob =
     \<lparr>in_prov = o_prov ob, in_plane = o_plane ob, in_node = o_node ob, in_vrf = o_vrf ob,
      in_complete = o_neighbors_complete ob, in_ospf = (\<exists>n\<in>set (o_neighbors ob). carries_ospf (n_attrs n)),
      in_neighbors = map (record_of ob) (o_neighbors ob)\<rparr>"

definition rows_in :: "observation \<Rightarrow> iface_row list" where
  "rows_in ob =
     [\<lparr>ir_prov = o_prov ob, ir_plane = o_plane ob, ir_node = o_node ob, ir_vrf = o_vrf ob,
       ir_iface = i_name i, ir_attrs = i_attrs i\<rparr>. i \<leftarrow> o_ifaces ob,
       carries_ospf (i_attrs i) \<and> o_plane ob \<noteq> Intended]"

definition collect_ospf :: "observation list \<Rightarrow> analysis" where
  "collect_ospf obs =
     (let read = filter (\<lambda>ob. ospf_plane (o_plane ob)) obs
      in \<lparr>an_inv = map inventory_of read, an_ifaces = concat (map rows_in read)\<rparr>)"

text \<open>A map from keys to the elements that have them, in the order the keys first occur.\<close>

definition groups_by :: "('a \<Rightarrow> 'k) \<Rightarrow> 'a list \<Rightarrow> ('k \<times> 'a list) list" where
  "groups_by key xs =
     map (\<lambda>k. (k, filter (\<lambda>x. key x = k) xs)) (foldl append_new [] (map key xs))"

definition records_in :: "(plane \<Rightarrow> bool) \<Rightarrow> analysis \<Rightarrow> nbr_record list" where
  "records_in P a = concat (map in_neighbors (filter (\<lambda>i. P (in_plane i)) (an_inv a)))"

end
