(* ===== verification/Ospf_Phases.thy ===== *)
theory Ospf_Phases
  imports Ospf
begin

text \<open>
  The phases of \<^verbatim>\<open>Analyze\<close> in \<^verbatim>\<open>internal/ospf/ospf.go\<close>, each a
  function from the indexed evidence to the findings it adds.
\<close>

section \<open>Neighbor states\<close>

text \<open>What the records of one neighbor pair say: values in the order they first occur.\<close>

definition state_values :: "nbr_record list \<Rightarrow> string list" where
  "state_values recs = concat (map (\<lambda>r. values_of (nr_attrs r) key_state) recs)"

definition state_word :: "string \<Rightarrow> string" where
  "state_word v = to_lower (trim_space v)"

definition known_states :: "nbr_record list \<Rightarrow> string list" where
  "known_states recs =
     foldl append_new [] (filter (\<lambda>s. s \<in> set neighbor_vocabulary) (map state_word (state_values recs)))"

definition unreadable_states :: "nbr_record list \<Rightarrow> string list" where
  "unreadable_states recs =
     foldl append_new [] (filter (\<lambda>v. state_word v \<notin> set neighbor_vocabulary) (state_values recs))"

definition missing_states :: "nbr_record list \<Rightarrow> nat" where
  "missing_states recs = length (filter (\<lambda>r. values_of (nr_attrs r) key_state = []) recs)"

definition remote_ifaces :: "nbr_record list \<Rightarrow> string list" where
  "remote_ifaces recs =
     foldl append_new [] (filter (\<lambda>i. i \<noteq> []) (map (lk_remote \<circ> nr_link) recs))"

text \<open>Readable values rendered, and the values that do not parse.\<close>

definition readable :: "(string \<Rightarrow> 'a option) \<Rightarrow> string list \<Rightarrow> 'a list" where
  "readable p vs = foldl append_new [] (List.map_filter p vs)"

definition unparsed :: "(string \<Rightarrow> 'a option) \<Rightarrow> string list \<Rightarrow> string list" where
  "unparsed p vs = foldl append_new [] (filter (\<lambda>v. p v = None) vs)"

definition area_text :: "32 word \<Rightarrow> string" where
  "area_text n = int_dec (uint n)"

definition record_areas :: "nbr_record list \<Rightarrow> string list" where
  "record_areas recs = concat (map (\<lambda>r. values_of (nr_attrs r) key_area) recs)"

definition record_ids :: "nbr_record list \<Rightarrow> string list" where
  "record_ids recs = concat (map (\<lambda>r. values_of (nr_attrs r) key_router_id) recs)"

definition and_join :: "string list \<Rightarrow> string" where
  "and_join xs = join xs '' and ''"

definition state_gap :: "nbr_record list \<Rightarrow> bool" where
  "state_gap recs \<longleftrightarrow> 0 < missing_states recs \<or> unreadable_states recs \<noteq> []"

definition gap_reasons :: "(string \<Rightarrow> string) \<Rightarrow> nbr_record list \<Rightarrow> string list" where
  "gap_reasons q recs =
     (if 0 < missing_states recs
      then [int_dec (int (missing_states recs)) @ '' record(s) carry no '' @ key_state] else [])
     @ (if unreadable_states recs \<noteq> []
        then [key_state @ '' '' @ quoted q (unreadable_states recs) @ '' is not an OSPF neighbor state''] else [])
     @ (if unparsed parse_area (record_areas recs) \<noteq> []
        then [key_area @ '' '' @ quoted q (unparsed parse_area (record_areas recs)) @ '' is not an OSPF area''] else [])
     @ (if unparsed parse_router_id (record_ids recs) \<noteq> []
        then [key_router_id @ '' '' @ quoted q (unparsed parse_router_id (record_ids recs))
              @ '' is not a dotted IPv4 router ID''] else [])
     @ (if state_gap recs \<and> length (known_states recs) = 1
        then [''no state is reported for this neighbor''] else [])"

definition limit_for_state :: "string \<Rightarrow> limit" where
  "limit_for_state s = (if s = ''full'' then LimitFull else if s = ''2-way'' then LimitTwoWay else LimitBeforeFull)"

definition id_rows :: "analysis \<Rightarrow> link \<Rightarrow> (iface_row \<times> 32 word) list" where
  "id_rows a l =
     [(r, ip). r \<leftarrow> an_ifaces a, ir_plane r = Control \<and> ir_node r = lk_peer l \<and> ir_vrf r = lk_vrf l,
       Some ip \<leftarrow> map parse_router_id (values_of (ir_attrs r) key_router_id)]"

definition confirm_router_id :: "analysis \<Rightarrow> link \<Rightarrow> 32 word \<Rightarrow> ospf_evidence list \<Rightarrow> ospf_finding list" where
  "confirm_router_id a l ip ev =
     (let disagree = map (\<lambda>(r, _). iface_evidence ''peer's own interface'' r)
                       (filter (\<lambda>(r, other). other \<noteq> ip) (id_rows a l));
          confirmed = list_ex (\<lambda>(r, other). other = ip) (id_rows a l)
      in if disagree \<noteq> []
         then [add_finding AttributeConflict StrengthConflicting l
                 (lk_peer l @ '' reports a router ID other than '' @ text4 ip) LimitAttributeConflict (ev @ disagree)]
         else if \<not> confirmed
         then [add_finding RouterIDUnconfirmed StrengthUnknown l
                 (''router ID '' @ text4 ip @ '' is reported for '' @ lk_peer l @ '', which reports no matching ID'')
                 LimitRouterID ev]
         else [])"

definition group_link :: "link_pair \<Rightarrow> nbr_record list \<Rightarrow> link" where
  "group_link p recs =
     (case p of (node, vrf, iface, peer) \<Rightarrow>
        \<lparr>lk_node = node, lk_vrf = vrf, lk_iface = iface, lk_peer = peer,
         lk_remote = (case remote_ifaces recs of [x] \<Rightarrow> x | _ \<Rightarrow> [])\<rparr>)"

definition gap_findings :: "(string \<Rightarrow> string) \<Rightarrow> link \<Rightarrow> nbr_record list \<Rightarrow> ospf_finding list" where
  "gap_findings q l recs =
     (if gap_reasons q recs \<noteq> []
      then [add_finding IncompleteAttributes StrengthUnknown l (join (gap_reasons q recs) ''; '') LimitIncomplete
              (evidence_of recs [])]
      else [])"

definition state_findings :: "link \<Rightarrow> nbr_record list \<Rightarrow> ospf_finding list" where
  "state_findings l recs =
     (if 1 < length (remote_ifaces recs)
      then [add_finding AttributeConflict StrengthConflicting l
              (''remote interface values disagree: '' @ and_join (remote_ifaces recs)) LimitAttributeConflict
              (evidence_of recs [])]
      else if 1 < length (known_states recs)
      then [add_finding NeighborState StrengthConflicting l (''reports states '' @ and_join (known_states recs))
              LimitStatesConflict (evidence_of recs [])]
      else if length (known_states recs) = 1 \<and> \<not> state_gap recs
      then [add_finding NeighborState Reported l (''reports state '' @ hd (known_states recs))
              (limit_for_state (hd (known_states recs))) (evidence_of recs [])]
      else [])"

definition area_findings :: "link \<Rightarrow> nbr_record list \<Rightarrow> ospf_finding list" where
  "area_findings l recs =
     (let areas = readable parse_area (record_areas recs)
      in if 1 < length areas
         then [add_finding AttributeConflict StrengthConflicting l
                 (key_area @ '' values disagree: '' @ and_join (map area_text areas)) LimitAttributeConflict
                 (evidence_of recs [])]
         else [])"

definition id_findings :: "analysis \<Rightarrow> link \<Rightarrow> nbr_record list \<Rightarrow> ospf_finding list" where
  "id_findings a l recs =
     (case readable parse_router_id (record_ids recs) of
        [] \<Rightarrow> []
      | [ip] \<Rightarrow> confirm_router_id a l ip (evidence_of recs [])
      | ids \<Rightarrow> [add_finding AttributeConflict StrengthConflicting l
                 (key_router_id @ '' values disagree: '' @ and_join (map text4 ids)) LimitAttributeConflict
                 (evidence_of recs [])])"

definition neighbor_group :: "(string \<Rightarrow> string) \<Rightarrow> analysis \<Rightarrow> link_pair \<Rightarrow> nbr_record list \<Rightarrow> ospf_finding list" where
  "neighbor_group q a p recs =
     (let l = group_link p recs
      in gap_findings q l recs @ state_findings l recs @ area_findings l recs @ id_findings a l recs)"

definition control_records :: "analysis \<Rightarrow> nbr_record list" where
  "control_records a = filter (\<lambda>r. carries_ospf (nr_attrs r)) (records_in (\<lambda>p. p = Control) a)"

definition neighbor_states :: "(string \<Rightarrow> string) \<Rightarrow> analysis \<Rightarrow> ospf_finding list" where
  "neighbor_states q a =
     concat (map (\<lambda>(p, recs). neighbor_group q a p recs) (groups_by (pair_of \<circ> nr_link) (control_records a)))"

section \<open>Configured areas\<close>

definition iface_link :: "string \<times> string \<times> string \<Rightarrow> link" where
  "iface_link k = (case k of (node, vrf, iface) \<Rightarrow>
     \<lparr>lk_node = node, lk_vrf = vrf, lk_iface = iface, lk_peer = [], lk_remote = []\<rparr>)"

definition iface_key :: "iface_row \<Rightarrow> string \<times> string \<times> string" where
  "iface_key r = (ir_node r, ir_vrf r, ir_iface r)"

definition area_rows :: "analysis \<Rightarrow> iface_row list" where
  "area_rows a = filter (\<lambda>r. ir_plane r = Configured \<and> values_of (ir_attrs r) key_area \<noteq> []) (an_ifaces a)"

definition row_areas :: "string \<Rightarrow> iface_row list \<Rightarrow> string list" where
  "row_areas key rows = concat (map (\<lambda>r. values_of (ir_attrs r) key) rows)"

definition area_group :: "(string \<Rightarrow> string) \<Rightarrow> string \<times> string \<times> string \<Rightarrow> iface_row list \<Rightarrow> ospf_finding list" where
  "area_group q k rows =
     (let nums = readable parse_area (row_areas key_area rows);
          bad = unparsed parse_area (row_areas key_area rows);
          ev = map (iface_evidence []) rows
      in if bad \<noteq> []
         then [add_finding IncompleteAttributes StrengthUnknown (iface_link k)
                 (key_area @ '' '' @ quoted q bad @ '' is not an OSPF area'') LimitIncomplete ev]
         else if length nums = 1 then []
         else [add_finding AttributeConflict StrengthConflicting (iface_link k)
                 (key_area @ '' values disagree: '' @ and_join (map area_text nums)) LimitAttributeConflict ev])"

definition interface_areas :: "(string \<Rightarrow> string) \<Rightarrow> analysis \<Rightarrow> ospf_finding list" where
  "interface_areas q a =
     concat (map (\<lambda>(k, rows). area_group q k rows) (groups_by iface_key (area_rows a)))"

text \<open>The map the phase fills: the interfaces whose rows all parse and name one area.\<close>

definition configured_area :: "analysis \<Rightarrow> string \<times> string \<times> string \<Rightarrow> area option" where
  "configured_area a k =
     (let rows = filter (\<lambda>r. iface_key r = k) (area_rows a)
      in if unparsed parse_area (row_areas key_area rows) \<noteq> [] then None
         else case readable parse_area (row_areas key_area rows) of
           [n] \<Rightarrow> Some \<lparr>ar_n = n, ar_rows = map (iface_evidence []) rows\<rparr>
         | _ \<Rightarrow> None)"

section \<open>Expected neighbors\<close>

text \<open>The operational inventories of the node and routing domain a link names.\<close>

definition inventories_at :: "analysis \<Rightarrow> link \<Rightarrow> inventory list" where
  "inventories_at a l =
     filter (\<lambda>i. in_plane i = Control \<and> in_node i = lk_node l \<and> in_vrf i = lk_vrf l) (an_inv a)"

definition pair_in :: "link \<Rightarrow> inventory \<Rightarrow> nbr_record list" where
  "pair_in l i = filter (\<lambda>r. pair_of (nr_link r) = pair_of l \<and> carries_ospf (nr_attrs r)) (in_neighbors i)"

definition shows_remote :: "link \<Rightarrow> nbr_record \<Rightarrow> bool" where
  "shows_remote l r \<longleftrightarrow> lk_remote (nr_link r) = [] \<or> lk_remote (nr_link r) = lk_remote l"

record expectation =
  ex_present :: "ospf_evidence list"
  ex_named :: "ospf_evidence list"
  ex_omitted :: "ospf_evidence list"
  ex_other :: "ospf_evidence list"
  ex_others :: "string list"

definition no_expectation :: expectation where
  "no_expectation = \<lparr>ex_present = [], ex_named = [], ex_omitted = [], ex_other = [], ex_others = []\<rparr>"

definition consult :: "link \<Rightarrow> expectation \<Rightarrow> inventory \<Rightarrow> expectation" where
  "consult l x i =
     (let hits = filter (shows_remote l) (pair_in l i);
          here = filter (\<lambda>r. \<not> shows_remote l r) (pair_in l i);
          x = x\<lparr>ex_present := ex_present x @ evidence_of hits ''operational record'',
                ex_others := foldl append_new (ex_others x) (map (lk_remote \<circ> nr_link) here)\<rparr>
      in if hits \<noteq> [] then x
         else if here \<noteq> []
         then x\<lparr>ex_named := ex_named x @ evidence_of here ''operational record names another remote interface''\<rparr>
         else if absence_counts i
         then x\<lparr>ex_omitted := ex_omitted x @
                [inv_evidence i ''complete neighbor list with OSPF records; no OSPF record for this neighbor'']\<rparr>
         else x\<lparr>ex_other := ex_other x @
                [inv_evidence i ''list is partial or holds no OSPF records; no OSPF record for this neighbor'']\<rparr>)"

definition consulted :: "analysis \<Rightarrow> link \<Rightarrow> expectation" where
  "consulted a l = foldl (consult l) no_expectation (inventories_at a l)"

definition expected_finding :: "analysis \<Rightarrow> link \<Rightarrow> ospf_evidence list \<Rightarrow> ospf_finding list" where
  "expected_finding a l ev =
     (let x = consulted a l
      in if ex_present x \<noteq> [] \<and> ex_omitted x \<noteq> []
         then [add_finding MissingNeighbor StrengthConflicting l
                 (lk_node l @ '' reports the neighbor, and its complete neighbor list with OSPF records does not'')
                 LimitMissingConflict (ev @ ex_present x @ ex_omitted x)]
         else if ex_present x \<noteq> [] then []
         else if ex_named x \<noteq> []
         then [add_finding MissingNeighbor StrengthUnknown l
                 (''the operational inventory of '' @ lk_node l @ '' names remote interface '' @ and_join (ex_others x)
                  @ '' for '' @ lk_peer l @ '', not the expected '' @ lk_remote l
                  @ '', so the expected neighbor is not shown'')
                 LimitMissingUnknown (ev @ ex_named x)]
         else if ex_omitted x \<noteq> []
         then [add_finding MissingNeighbor ConsistentWith l
                 (''the complete neighbor list of '' @ lk_node l @ '', which holds OSPF records, has no OSPF record of ''
                  @ lk_peer l @ '' on '' @ lk_iface l)
                 LimitMissingConsistent (ev @ ex_omitted x)]
         else if inventories_at a l = []
         then [add_finding MissingNeighbor StrengthUnknown l
                 (''no operational inventory from '' @ lk_node l @ '' to check the expected neighbor'')
                 LimitMissingUnknown ev]
         else [add_finding MissingNeighbor StrengthUnknown l
                 (''the operational inventory of '' @ lk_node l
                  @ '' is partial or holds no OSPF records, so a missing record proves nothing'')
                 LimitMissingUnknown (ev @ ex_other x)])"

definition expected :: "analysis \<Rightarrow> link \<Rightarrow> nbr_record list \<Rightarrow> ospf_finding list" where
  "expected a l recs =
     (let ev = evidence_of recs ''expected neighbor''
      in if lk_remote l = []
         then [add_finding MissingNeighbor StrengthUnknown l
                 ''expected neighbor names no remote interface, so the far end cannot be matched''
                 LimitMissingUnknown ev]
         else expected_finding a l ev)"

definition expected_records :: "analysis \<Rightarrow> nbr_record list" where
  "expected_records a =
     filter (\<lambda>r. carries_ospf (nr_attrs r)) (records_in (\<lambda>p. p = Configured \<or> p = Intended) a)"

definition expected_neighbors :: "analysis \<Rightarrow> ospf_finding list" where
  "expected_neighbors a =
     concat (map (\<lambda>((_, l), recs). expected a l recs) (groups_by (\<lambda>r. (nr_plane r, nr_link r)) (expected_records a)))"

section \<open>Area mismatches\<close>

definition near_end :: "link \<Rightarrow> string \<times> string \<times> string" where
  "near_end l = (lk_node l, lk_vrf l, lk_iface l)"

definition links_by :: "(plane \<Rightarrow> bool) \<Rightarrow> analysis \<Rightarrow> (link \<times> nbr_record list) list" where
  "links_by P a = groups_by nr_link (records_in P a)"

definition area_difference :: "string \<Rightarrow> 32 word \<Rightarrow> 32 word \<Rightarrow> link \<Rightarrow> string" where
  "area_difference what na nb l =
     what @ '' area '' @ area_text na @ '' on '' @ lk_node l @ '' '' @ lk_iface l @ '' and area '' @ area_text nb
     @ '' on '' @ lk_peer l @ '' '' @ lk_remote l @ '' differ''"

definition area_mismatch :: "analysis \<Rightarrow> (link \<times> nbr_record list) list \<Rightarrow> link \<Rightarrow> nbr_record list \<Rightarrow> ospf_finding list" where
  "area_mismatch a by_link l recs =
     (if lk_remote l = [] \<or> 0 \<le> compare_link l (mirror l) then []
      else case map_of by_link (mirror l) of
        None \<Rightarrow> []
      | Some mrecs \<Rightarrow>
          (case (configured_area a (near_end l), configured_area a (near_end (mirror l))) of
             (Some aa, Some ab) \<Rightarrow>
               if ar_n aa = ar_n ab then []
               else [add_finding AreaMismatch ConsistentWith l
                       (area_difference ''configured'' (ar_n aa) (ar_n ab) l @ '' over a link both sides report'')
                       LimitAreaMismatch
                       (ar_rows aa @ ar_rows ab @ evidence_of recs ''link reported by this side''
                        @ evidence_of mrecs ''link reported by the far side'')]
           | _ \<Rightarrow> []))"

definition area_mismatches :: "analysis \<Rightarrow> ospf_finding list" where
  "area_mismatches a =
     (let by_link = links_by (\<lambda>p. p = Control) a
      in concat (map (\<lambda>(l, recs). area_mismatch a by_link l recs) by_link))"

section \<open>Declared links\<close>

datatype end_state = EndMissing | EndAmbiguous | EndUsable

definition end_word :: "end_state \<Rightarrow> string" where
  "end_word s = (if s = EndMissing then ''missing'' else ''ambiguous'')"

definition rows_at :: "analysis \<Rightarrow> string \<times> string \<times> string \<Rightarrow> string \<Rightarrow> iface_row list" where
  "rows_at a k key =
     filter (\<lambda>r. ir_plane r = Control \<and> iface_key r = k \<and> values_of (ir_attrs r) key \<noteq> []) (an_ifaces a)"

definition effective_area :: "analysis \<Rightarrow> string \<times> string \<times> string \<Rightarrow> 32 word \<times> end_state \<times> ospf_evidence list" where
  "effective_area a k =
     (let rows = rows_at a k key_effective_area;
          nums = readable parse_area (row_areas key_effective_area rows);
          bad = unparsed parse_area (row_areas key_effective_area rows);
          ev = map (iface_evidence ''effective area as reported'') rows
      in if ev = [] then (0, EndMissing, [])
         else if bad = [] \<and> length nums = 1 then (hd nums, EndUsable, ev)
         else (0, EndAmbiguous, ev))"

definition declared_links :: "analysis \<Rightarrow> (link \<times> nbr_record list) list" where
  "declared_links a =
     groups_by nr_link (filter (\<lambda>r. lk_remote (nr_link r) \<noteq> []) (records_in (\<lambda>p. p = Intended) a))"

definition pair_records :: "analysis \<Rightarrow> link \<Rightarrow> nbr_record list" where
  "pair_records a l = concat (map (pair_in l) (inventories_at a l))"

definition operational_records :: "analysis \<Rightarrow> link \<Rightarrow> nbr_record list" where
  "operational_records a l = filter (shows_remote l) (pair_records a l)"

definition end_part :: "string \<Rightarrow> string \<Rightarrow> end_state \<Rightarrow> string list" where
  "end_part node iface s = (if s \<noteq> EndUsable then [node @ '' '' @ iface @ '' is '' @ end_word s] else [])"

definition areas_differ :: "analysis \<Rightarrow> link \<Rightarrow> bool \<Rightarrow> string \<Rightarrow> ospf_evidence list \<Rightarrow> ospf_finding" where
  "areas_differ a l mutual ends ev =
     (let op = operational_records a l @ operational_records a (mirror l)
      in if \<not> mutual
         then add_finding DeclaredLinkOneSided StrengthUnknown l
                (ends @ '' over a link declared from one end only'') LimitDeclaredOneSided ev
         else if op \<noteq> []
         then add_finding AreaMismatch StrengthUnknown l
                (ends @ '' over a link declared from both ends, and an OSPF neighbor record reports the link'')
                LimitDeclaredRecorded (ev @ evidence_of op ''operational record'')
         else add_finding AreaMismatch ConsistentWith l (ends @ '' over a link declared from both ends'')
                LimitDeclaredArea ev)"

definition declared_area :: "analysis \<Rightarrow> (link \<times> nbr_record list) list \<Rightarrow> link \<Rightarrow> nbr_record list \<Rightarrow> ospf_finding list" where
  "declared_area a declared l recs =
     (let mutual = map_of declared (mirror l) \<noteq> None;
          (na, sa, ra) = effective_area a (near_end l);
          (nb, sb, rb) = effective_area a (near_end (mirror l));
          ev = ra @ rb @ evidence_of recs ''declared link, this end''
               @ (case map_of declared (mirror l) of
                    None \<Rightarrow> [] | Some mrecs \<Rightarrow> evidence_of mrecs ''declared link, far end'')
      in if mutual \<and> 0 \<le> compare_link l (mirror l) then []
         else if sa = EndUsable \<and> sb = EndUsable
         then if na = nb then []
              else [areas_differ a l mutual (area_difference ''effective'' na nb l) ev]
         else if \<not> mutual \<or> sa = EndMissing \<and> sb = EndMissing then []
         else [add_finding IncompleteAttributes StrengthUnknown l
                 (''effective area not compared over the declared link: ''
                  @ join (end_part (lk_node l) (lk_iface l) sa @ end_part (lk_peer l) (lk_remote l) sb) '', '')
                 LimitDeclaredIncomplete ev])"

definition declared_areas :: "analysis \<Rightarrow> ospf_finding list" where
  "declared_areas a =
     concat (map (\<lambda>(l, recs). declared_area a (declared_links a) l recs) (declared_links a))"

section \<open>Passive interfaces\<close>

definition passive_at :: "analysis \<Rightarrow> string \<times> string \<times> string \<Rightarrow> string \<times> ospf_evidence list" where
  "passive_at a k =
     (let rows = rows_at a k key_passive;
          vals = row_areas key_passive rows;
          t = (''true'' \<in> set vals); f = (''false'' \<in> set vals);
          v = (if t then ''true'' else ''false'')
      in if list_ex (\<lambda>v. v \<noteq> ''true'' \<and> v \<noteq> ''false'') vals then ([], [])
         else if t = f then ([], [])
         else (v, map (passive_evidence v) rows))"

definition passive_reading :: "link \<Rightarrow> string \<Rightarrow> string \<Rightarrow> (string \<times> limit) option" where
  "passive_reading l lp mp =
     (if lp = ''true'' \<and> mp = ''true''
      then Some (lk_node l @ '' '' @ lk_iface l @ '' and '' @ lk_peer l @ '' '' @ lk_remote l
             @ '' both report OSPF passive, which is consistent with the expected adjacency between them not forming'',
             LimitMissingPassiveBoth)
      else if lp = ''true''
      then Some (lk_node l @ '' '' @ lk_iface l
             @ '' reports OSPF passive, which is consistent with the expected adjacency with ''
             @ lk_peer l @ '' '' @ lk_remote l @ '' not forming'', LimitMissingPassive)
      else if mp = ''true''
      then Some (lk_peer l @ '' '' @ lk_remote l
             @ '' reports OSPF passive, which is consistent with the expected adjacency with ''
             @ lk_node l @ '' '' @ lk_iface l @ '' not forming'', LimitMissingPassive)
      else None)"

definition declared_passive_link :: "analysis \<Rightarrow> (link \<times> nbr_record list) list \<Rightarrow> link \<Rightarrow> nbr_record list \<Rightarrow> ospf_finding list" where
  "declared_passive_link a declared l recs =
     (case map_of declared (mirror l) of
        None \<Rightarrow> []
      | Some mrecs \<Rightarrow>
          if 0 \<le> compare_link l (mirror l) then []
          else (let (lp, lev) = passive_at a (near_end l); (mp, mev) = passive_at a (near_end (mirror l))
                in case passive_reading l lp mp of
                     None \<Rightarrow> []
                   | Some (detail, lim) \<Rightarrow>
                       if pair_records a l \<noteq> [] \<or> pair_records a (mirror l) \<noteq> [] then []
                       else [add_finding MissingNeighbor ConsistentWith l detail lim
                               (lev @ mev @ evidence_of recs ''declared link, this end''
                                @ evidence_of mrecs ''declared link, far end'')]))"

definition declared_passive :: "analysis \<Rightarrow> ospf_finding list" where
  "declared_passive a =
     concat (map (\<lambda>(l, recs). declared_passive_link a (declared_links a) l recs) (declared_links a))"

section \<open>The report\<close>

definition ospf_findings :: "(string \<Rightarrow> string) \<Rightarrow> analysis \<Rightarrow> ospf_finding list" where
  "ospf_findings q a =
     neighbor_states q a @ interface_areas q a @ expected_neighbors a @ area_mismatches a
     @ declared_areas a @ declared_passive a"

definition sort_findings :: "ospf_finding list \<Rightarrow> ospf_finding list" where
  "sort_findings fs = sort_func (\<lambda>x y. three_way (finding_key x) (finding_key y)) fs"

definition analyze :: "(string \<Rightarrow> string) \<Rightarrow> observation list \<Rightarrow> ospf_finding list" where
  "analyze q obs = sort_findings (ospf_findings q (collect_ospf obs))"

section \<open>Rendering\<close>

definition with_part :: "string \<Rightarrow> string \<Rightarrow> string" where
  "with_part lead s = (if s = [] then [] else lead @ s)"

definition finding_subject :: "ospf_finding \<Rightarrow> string" where
  "finding_subject f =
     of_node f @ with_part '' '' (of_iface f)
     @ (if of_peer f = [] then [] else '' to '' @ of_peer f @ with_part '' '' (of_remote f))
     @ '' (vrf '' @ of_vrf f @ '')''"

definition evidence_subject :: "ospf_evidence \<Rightarrow> string" where
  "evidence_subject e =
     oe_node e @ with_part '' '' (oe_iface e)
     @ (if oe_peer e = [] then [] else '' to '' @ oe_peer e @ with_part '' '' (oe_remote e))"

definition evidence_parts :: "ospf_evidence \<Rightarrow> string list" where
  "evidence_parts e =
     evidence_subject e # filter (\<lambda>s. s \<noteq> [])
       [with_part ''state '' (oe_state e), with_part ''area '' (oe_area e),
        with_part ''effective area '' (oe_effective e), with_part ''router ID '' (oe_router_id e),
        with_part ''ospf.passive '' (oe_passive e), oe_note e]"

definition evidence_text :: "ospf_evidence \<Rightarrow> string" where
  "evidence_text e =
     oe_source e @ '' at '' @ oe_at e @ '' ('' @ oe_plane e @ '' plane, vrf '' @ oe_vrf e @ ''): ''
     @ join (evidence_parts e) '', ''"

text \<open>The lines of \<^verbatim>\<open>Report.Text\<close> before each passes through \<^verbatim>\<open>textsafe.Clean\<close>.\<close>

definition finding_lines :: "ospf_finding \<Rightarrow> string list" where
  "finding_lines f =
     [''  '' @ ospf_kind_text (of_kind f) @ '' ['' @ strength_text (of_strength f) @ ''] '' @ finding_subject f
        @ '': '' @ of_detail f]
     @ map (\<lambda>e. ''    evidence: '' @ evidence_text e) (of_evidence f)
     @ [''    limit: '' @ limit_text (of_limit f)]"

definition report_lines :: "ospf_finding list \<Rightarrow> string list" where
  "report_lines fs =
     (if fs = [] then []
      else '''' # ''OSPF (from recorded evidence for every node in the file; nothing was probed):''
           # concat (map finding_lines fs))"

end
