(* ===== verification/Ospf_Laws.thy ===== *)
theory Ospf_Laws
  imports Ospf_Phases
begin

text \<open>
  What a finding of the OSPF reading rests on: which phase a finding comes from is read off
  its limit, and for the readings a user acts on (a reported state, a missing neighbor, a
  mismatch of areas, a passive end) the finding is there exactly when the records say so.
\<close>

section \<open>Groups\<close>

lemma set_groups_by: "(k, g) \<in> set (groups_by key xs) \<longleftrightarrow> k \<in> key ` set xs \<and> g = filter (\<lambda>x. key x = k) xs"
  by (auto simp: groups_by_def)

lemma ex_groups_by: "(\<exists>z\<in>set (groups_by key xs). P z) \<longleftrightarrow> (\<exists>k\<in>key ` set xs. P (k, filter (\<lambda>x. key x = k) xs))"
  by (auto simp: groups_by_def)

lemma map_of_keyed: "map_of (map (\<lambda>k. (k, f k)) ks) k = (if k \<in> set ks then Some (f k) else None)"
  by (induction ks) auto

lemma map_of_groups_by:
  "map_of (groups_by key xs) k = (if k \<in> key ` set xs then Some (filter (\<lambda>x. key x = k) xs) else None)"
  by (simp add: groups_by_def map_of_keyed)

lemma groups_by_Nil [simp]: "groups_by key [] = []"
  by (simp add: groups_by_def)

section \<open>Readable values\<close>

lemma foldl_append_new_Nil_iff [simp]: "foldl append_new [] xs = [] \<longleftrightarrow> xs = []"
  by (metis set_empty set_foldl_append_new sup_bot_left list.set(1))

lemma distinct_single_iff: "distinct xs \<Longrightarrow> xs = [x] \<longleftrightarrow> set xs = {x}"
  by (cases xs rule: remdups_adj.cases) auto

lemma single_append_new: "foldl append_new [] xs = [x] \<longleftrightarrow> set xs = {x}"
  by (simp add: distinct_single_iff)

lemma length_one_iff: "length xs = 1 \<longleftrightarrow> (\<exists>x. xs = [x])"
  by (metis One_nat_def length_0_conv length_Suc_conv)

lemma set_readable [simp]: "set (readable p vs) = {x. \<exists>v\<in>set vs. p v = Some x}"
  by (force simp: readable_def List.map_filter_def)

lemma distinct_readable [simp]: "distinct (readable p vs)"
  by (simp add: readable_def)

lemma unparsed_Nil_iff [simp]: "unparsed p vs = [] \<longleftrightarrow> (\<forall>v\<in>set vs. p v \<noteq> None)"
  by (auto simp: unparsed_def filter_empty_conv)

text \<open>All values parse and name one value.\<close>

lemma one_readable:
  "unparsed p vs = [] \<and> readable p vs = [x] \<longleftrightarrow> vs \<noteq> [] \<and> (\<forall>v\<in>set vs. p v = Some x)"
  by (subst distinct_single_iff; (simp; fail)?) (cases vs; fastforce)

lemma limit_for_state_in: "limit_for_state s \<in> {LimitFull, LimitTwoWay, LimitBeforeFull}"
  by (simp add: limit_for_state_def)

section \<open>Indexed evidence\<close>

lemma add_finding_simps [simp]:
  "of_kind (add_finding k s l d m ev) = k" "of_strength (add_finding k s l d m ev) = s"
  "of_node (add_finding k s l d m ev) = lk_node l" "of_vrf (add_finding k s l d m ev) = lk_vrf l"
  "of_iface (add_finding k s l d m ev) = lk_iface l" "of_peer (add_finding k s l d m ev) = lk_peer l"
  "of_remote (add_finding k s l d m ev) = lk_remote l" "of_detail (add_finding k s l d m ev) = d"
  "of_limit (add_finding k s l d m ev) = m"
  "set (of_evidence (add_finding k s l d m ev)) = set ev"
  by (simp_all add: add_finding_def)

lemma mirror_simps [simp]:
  "lk_node (mirror l) = lk_peer l" "lk_vrf (mirror l) = lk_vrf l" "lk_iface (mirror l) = lk_remote l"
  "lk_peer (mirror l) = lk_node l" "lk_remote (mirror l) = lk_iface l" "mirror (mirror l) = l"
  by (simp_all add: mirror_def)

interpretation link_order: compare_order compare_link
  by (rule compare_order_keysI [where ds = "[\<lambda>a b. three_way (lk_node a) (lk_node b),
        \<lambda>a b. three_way (lk_vrf a) (lk_vrf b), \<lambda>a b. three_way (lk_iface a) (lk_iface b),
        \<lambda>a b. three_way (lk_peer a) (lk_peer b), \<lambda>a b. three_way (lk_remote a) (lk_remote b)]"])
    (auto simp: compare_link_def simp del: cmp_or.simps intro: compare_key_three_way)

text \<open>The link a finding is about.\<close>

definition link_of :: "ospf_finding \<Rightarrow> link" where
  "link_of f = \<lparr>lk_node = of_node f, lk_vrf = of_vrf f, lk_iface = of_iface f, lk_peer = of_peer f,
               lk_remote = of_remote f\<rparr>"

lemma link_of_add [simp]: "link_of (add_finding k s l d m ev) = l"
  by (simp add: link_of_def)

lemma set_sort_findings [simp]: "set (sort_findings fs) = set fs"
  by (simp add: sort_findings_def)

lemma set_analyze: "set (analyze q obs) = set (ospf_findings q (collect_ospf obs))"
  by (simp add: analyze_def)

section \<open>The phase of a finding\<close>

text \<open>Each phase has limits of its own, apart from the two that only say a value is unusable.\<close>

lemma state_findings_limits:
  "f \<in> set (state_findings l recs) \<Longrightarrow>
     of_limit f \<in> {LimitFull, LimitTwoWay, LimitBeforeFull, LimitStatesConflict, LimitAttributeConflict}"
  using limit_for_state_in [of "hd (known_states recs)"]
  unfolding state_findings_def by (simp split: if_splits) auto

lemma confirm_limits:
  "f \<in> set (confirm_router_id a l ip ev) \<Longrightarrow> of_limit f \<in> {LimitAttributeConflict, LimitRouterID}"
  unfolding confirm_router_id_def Let_def by (simp split: if_splits)

lemma other_group_limits:
  "f \<in> set (gap_findings q l recs) \<Longrightarrow> of_limit f = LimitIncomplete"
  "f \<in> set (area_findings l recs) \<Longrightarrow> of_limit f = LimitAttributeConflict"
  "f \<in> set (id_findings a l recs) \<Longrightarrow> of_limit f \<in> {LimitAttributeConflict, LimitRouterID}"
    subgoal unfolding gap_findings_def by (simp split: if_splits)
    subgoal unfolding area_findings_def Let_def by (simp split: if_splits)
    subgoal unfolding id_findings_def
      by (cases "readable parse_router_id (record_ids recs)" rule: remdups_adj.cases) (simp_all add: confirm_limits [simplified])
  done

lemma neighbor_group_limits:
  "f \<in> set (neighbor_group q a p recs) \<Longrightarrow>
     of_limit f \<in> {LimitFull, LimitTwoWay, LimitBeforeFull, LimitStatesConflict, LimitAttributeConflict,
       LimitIncomplete, LimitRouterID}"
  unfolding neighbor_group_def Let_def set_append
  by (elim UnE; drule state_findings_limits other_group_limits; auto)

lemma area_group_limits: "f \<in> set (area_group q k rows) \<Longrightarrow> of_limit f \<in> {LimitAttributeConflict, LimitIncomplete}"
  by (auto simp: area_group_def Let_def split: if_splits)

lemma expected_limits:
  "f \<in> set (expected a l recs) \<Longrightarrow> of_limit f \<in> {LimitMissingUnknown, LimitMissingConflict, LimitMissingConsistent}"
  by (auto simp: expected_def expected_finding_def Let_def split: if_splits)

lemma area_mismatch_limits: "f \<in> set (area_mismatch a by_link l recs) \<Longrightarrow> of_limit f = LimitAreaMismatch"
  by (auto simp: area_mismatch_def split: if_splits option.splits)

lemma declared_area_limits:
  "f \<in> set (declared_area a declared l recs) \<Longrightarrow>
     of_limit f \<in> {LimitDeclaredOneSided, LimitDeclaredRecorded, LimitDeclaredArea, LimitDeclaredIncomplete}"
  by (auto simp: declared_area_def areas_differ_def Let_def split: if_splits prod.splits)

lemma passive_reading_limits:
  "passive_reading l lp mp = Some (d, m) \<Longrightarrow>
     m = (if lp = ''true'' \<and> mp = ''true'' then LimitMissingPassiveBoth else LimitMissingPassive)
     \<and> (lp = ''true'' \<or> mp = ''true'')"
  unfolding passive_reading_def by (simp only: split: if_splits) simp_all

lemma declared_passive_link_iff:
  "f \<in> set (declared_passive_link a declared l recs) \<longleftrightarrow>
     (\<exists>mrecs d m. map_of declared (mirror l) = Some mrecs \<and> compare_link l (mirror l) < 0
        \<and> passive_reading l (fst (passive_at a (near_end l))) (fst (passive_at a (near_end (mirror l)))) = Some (d, m)
        \<and> pair_records a l = [] \<and> pair_records a (mirror l) = []
        \<and> f = add_finding MissingNeighbor ConsistentWith l d m
             (snd (passive_at a (near_end l)) @ snd (passive_at a (near_end (mirror l)))
              @ evidence_of recs ''declared link, this end'' @ evidence_of mrecs ''declared link, far end''))"
proof (cases "map_of declared (mirror l)")
  case None
  then show ?thesis
    unfolding declared_passive_link_def by simp
next
  case (Some mrecs)
  obtain lp lev where lp: "passive_at a (near_end l) = (lp, lev)" by fastforce
  obtain mp mev where mp: "passive_at a (near_end (mirror l)) = (mp, mev)" by fastforce
  show ?thesis
  proof (cases "passive_reading l lp mp")
    case None
    with Some lp mp show ?thesis
      unfolding declared_passive_link_def by simp
  next
    case (Some x)
    obtain d m where "x = (d, m)" by fastforce
    with Some \<open>map_of declared (mirror l) = Some mrecs\<close> lp mp show ?thesis
      unfolding declared_passive_link_def by (cases "compare_link l (mirror l) < 0"; cases "pair_records a l"; simp)
  qed
qed

lemma declared_passive_limits:
  "f \<in> set (declared_passive_link a declared l recs) \<Longrightarrow> of_limit f \<in> {LimitMissingPassive, LimitMissingPassiveBoth}"
  unfolding declared_passive_link_iff by (elim exE conjE) (drule passive_reading_limits, simp)

lemma in_concat_map: "f \<in> set (concat (map (\<lambda>(k, g). h k g) xs)) \<longleftrightarrow> (\<exists>k g. (k, g) \<in> set xs \<and> f \<in> set (h k g))"
  by (induction xs) auto

lemma in_concat_map2:
  "f \<in> set (concat (map (\<lambda>((p, k), g). h k g) xs)) \<longleftrightarrow> (\<exists>p k g. ((p, k), g) \<in> set xs \<and> f \<in> set (h k g))"
  by (induction xs) auto

lemma neighbor_states_limits:
  "f \<in> set (neighbor_states q a) \<Longrightarrow>
     of_limit f \<in> {LimitFull, LimitTwoWay, LimitBeforeFull, LimitStatesConflict, LimitAttributeConflict,
       LimitIncomplete, LimitRouterID}"
  unfolding neighbor_states_def in_concat_map by (elim exE conjE) (rule neighbor_group_limits)

lemma interface_areas_limits:
  "f \<in> set (interface_areas q a) \<Longrightarrow> of_limit f \<in> {LimitAttributeConflict, LimitIncomplete}"
  unfolding interface_areas_def in_concat_map by (elim exE conjE) (rule area_group_limits)

lemma expected_neighbors_limits:
  "f \<in> set (expected_neighbors a) \<Longrightarrow>
     of_limit f \<in> {LimitMissingUnknown, LimitMissingConflict, LimitMissingConsistent}"
  unfolding expected_neighbors_def in_concat_map2 by (elim exE conjE) (rule expected_limits)

lemma area_mismatches_limits: "f \<in> set (area_mismatches a) \<Longrightarrow> of_limit f = LimitAreaMismatch"
  unfolding area_mismatches_def Let_def in_concat_map by (elim exE conjE) (rule area_mismatch_limits)

lemma declared_areas_limits:
  "f \<in> set (declared_areas a) \<Longrightarrow>
     of_limit f \<in> {LimitDeclaredOneSided, LimitDeclaredRecorded, LimitDeclaredArea, LimitDeclaredIncomplete}"
  unfolding declared_areas_def in_concat_map by (elim exE conjE) (rule declared_area_limits)

lemma declared_passives_limits:
  "f \<in> set (declared_passive a) \<Longrightarrow> of_limit f \<in> {LimitMissingPassive, LimitMissingPassiveBoth}"
  unfolding declared_passive_def in_concat_map by (elim exE conjE) (rule declared_passive_limits)

lemmas phase_limits = neighbor_states_limits interface_areas_limits expected_neighbors_limits
  area_mismatches_limits declared_areas_limits declared_passives_limits

lemma set_ospf_findings:
  "set (ospf_findings q a) = set (neighbor_states q a) \<union> set (interface_areas q a) \<union> set (expected_neighbors a)
     \<union> set (area_mismatches a) \<union> set (declared_areas a) \<union> set (declared_passive a)"
  by (simp add: ospf_findings_def Un_assoc)


text \<open>The findings with a limit of one phase are the findings of that phase.\<close>

lemma findings_of_limit:
  "of_limit f = LimitMissingConsistent \<Longrightarrow> f \<in> set (analyze q obs) \<longleftrightarrow> f \<in> set (expected_neighbors (collect_ospf obs))"
  "of_limit f = LimitAreaMismatch \<Longrightarrow> f \<in> set (analyze q obs) \<longleftrightarrow> f \<in> set (area_mismatches (collect_ospf obs))"
  "of_limit f = LimitDeclaredArea \<Longrightarrow> f \<in> set (analyze q obs) \<longleftrightarrow> f \<in> set (declared_areas (collect_ospf obs))"
  "of_limit f \<in> {LimitMissingPassive, LimitMissingPassiveBoth} \<Longrightarrow>
     f \<in> set (analyze q obs) \<longleftrightarrow> f \<in> set (declared_passive (collect_ospf obs))"
  "of_limit f \<in> {LimitFull, LimitTwoWay, LimitBeforeFull} \<Longrightarrow>
     f \<in> set (analyze q obs) \<longleftrightarrow> f \<in> set (neighbor_states q (collect_ospf obs))"
  unfolding set_analyze set_ospf_findings by (auto dest: phase_limits)

section \<open>Evidence as the observations hold it\<close>

lemma records_in_collect:
  "records_in P (collect_ospf obs) =
     concat (map (\<lambda>ob. map (record_of ob) (o_neighbors ob)) (filter (\<lambda>ob. ospf_plane (o_plane ob) \<and> P (o_plane ob)) obs))"
  by (induction obs) (auto simp: records_in_def collect_ospf_def inventory_of_def Let_def)

lemma record_of_simps [simp]:
  "nr_attrs (record_of ob n) = n_attrs n" "nr_plane (record_of ob n) = o_plane ob"
  "lk_node (nr_link (record_of ob n)) = o_node ob" "lk_vrf (nr_link (record_of ob n)) = o_vrf ob"
  "lk_iface (nr_link (record_of ob n)) = n_local n" "lk_peer (nr_link (record_of ob n)) = n_node n"
  "lk_remote (nr_link (record_of ob n)) = n_remote n"
  by (simp_all add: record_of_def)

text \<open>The neighbor rows of one plane that name a link, with or without OSPF attributes.\<close>

definition names_link :: "plane \<Rightarrow> observation list \<Rightarrow> link \<Rightarrow> bool" where
  "names_link p obs l \<longleftrightarrow>
     (\<exists>ob\<in>set obs. o_plane ob = p \<and> (\<exists>n\<in>set (o_neighbors ob). nr_link (record_of ob n) = l))"

definition expects :: "observation list \<Rightarrow> link \<Rightarrow> bool" where
  "expects obs l \<longleftrightarrow>
     (\<exists>ob\<in>set obs. (o_plane ob = Configured \<or> o_plane ob = Intended)
        \<and> (\<exists>n\<in>set (o_neighbors ob). nr_link (record_of ob n) = l \<and> carries_ospf (n_attrs n)))"

definition control_at :: "link \<Rightarrow> observation \<Rightarrow> bool" where
  "control_at l ob \<longleftrightarrow> o_plane ob = Control \<and> o_node ob = lk_node l \<and> o_vrf ob = lk_vrf l"

definition names_pair :: "observation \<Rightarrow> link \<Rightarrow> bool" where
  "names_pair ob l \<longleftrightarrow>
     (\<exists>n\<in>set (o_neighbors ob). n_local n = lk_iface l \<and> n_node n = lk_peer l \<and> carries_ospf (n_attrs n))"

definition lists_ospf :: "observation \<Rightarrow> bool" where
  "lists_ospf ob \<longleftrightarrow> o_neighbors_complete ob \<and> (\<exists>n\<in>set (o_neighbors ob). carries_ospf (n_attrs n))"

definition reporters :: "observation list \<Rightarrow> link_pair \<Rightarrow> nbr_record list" where
  "reporters obs p =
     [record_of ob n. ob \<leftarrow> obs, o_plane ob = Control, n \<leftarrow> o_neighbors ob,
        carries_ospf (n_attrs n) \<and> pair_of (nr_link (record_of ob n)) = p]"

lemma filter_map_concat: "filter P (map f xs) = concat (map (\<lambda>x. if P (f x) then [f x] else []) xs)"
  by (induction xs) auto

lemma control_records_collect:
  "filter (\<lambda>r. pair_of (nr_link r) = p) (control_records (collect_ospf obs)) = reporters obs p"
proof (induction obs)
  case (Cons ob obs)
  have "filter (\<lambda>r. carries_ospf (nr_attrs r) \<and> pair_of (nr_link r) = p) (map (record_of ob) (o_neighbors ob))
    = [record_of ob n. n \<leftarrow> o_neighbors ob, carries_ospf (n_attrs n) \<and> pair_of (nr_link (record_of ob n)) = p]"
    by (simp add: filter_map_concat)
  with Cons show ?case
    by (simp add: control_records_def records_in_collect reporters_def conj_commute)
qed (simp add: control_records_def records_in_collect reporters_def)

lemma control_records_mem:
  "p \<in> (pair_of \<circ> nr_link) ` set (control_records (collect_ospf obs)) \<longleftrightarrow> reporters obs p \<noteq> []"
  unfolding control_records_collect [symmetric] by (auto simp: filter_empty_conv)

lemma expected_records_collect:
  "(\<exists>r\<in>set (expected_records (collect_ospf obs)). nr_link r = l) \<longleftrightarrow> expects obs l"
  unfolding expected_records_def records_in_collect expects_def by (force elim!: ospf_plane.elims)

lemma names_link_collect:
  assumes "ospf_plane p"
  shows "l \<in> nr_link ` set (records_in (\<lambda>p'. p' = p) (collect_ospf obs)) \<longleftrightarrow> names_link p obs l"
  using assms unfolding records_in_collect names_link_def by force

lemma inventories_at_collect:
  "inventories_at (collect_ospf obs) l = map inventory_of (filter (control_at l) obs)"
  by (induction obs) (auto simp: inventories_at_def collect_ospf_def control_at_def inventory_of_def Let_def)

lemma pair_in_Nil_iff: "pair_in l (inventory_of ob) = [] \<longleftrightarrow> \<not> names_pair ob l" if "control_at l ob"
  using that by (auto simp: pair_in_def inventory_of_def names_pair_def pair_of_def control_at_def filter_empty_conv)

lemma absence_counts_inventory: "absence_counts (inventory_of ob) \<longleftrightarrow> lists_ospf ob"
  by (auto simp: absence_counts_def inventory_of_def lists_ospf_def)

section \<open>Interface attributes\<close>

text \<open>The values of one attribute that a plane reports for an interface.\<close>

definition iface_values :: "plane \<Rightarrow> string \<Rightarrow> observation list \<Rightarrow> string \<times> string \<times> string \<Rightarrow> string list" where
  "iface_values p key obs k =
     [v. ob \<leftarrow> obs, o_plane ob = p, i \<leftarrow> o_ifaces ob, (o_node ob, o_vrf ob, i_name i) = k,
       v \<leftarrow> values_of (i_attrs i) key]"

lemma values_of_carries: "has_prefix key ''ospf.'' \<Longrightarrow> values_of attrs key \<noteq> [] \<Longrightarrow> carries_ospf attrs"
  by (auto simp: values_of_def carries_ospf_def filter_empty_conv)

lemma set_iface_values:
  "v \<in> set (iface_values p key obs k) \<longleftrightarrow>
     (\<exists>ob\<in>set obs. o_plane ob = p \<and> (\<exists>i\<in>set (o_ifaces ob). (o_node ob, o_vrf ob, i_name i) = k
        \<and> v \<in> set (values_of (i_attrs i) key)))"
  by (auto simp: iface_values_def)

lemma set_ifaces_collect:
  "r \<in> set (an_ifaces (collect_ospf obs)) \<longleftrightarrow>
     (\<exists>ob\<in>set obs. ospf_plane (o_plane ob) \<and> o_plane ob \<noteq> Intended \<and> (\<exists>i\<in>set (o_ifaces ob). carries_ospf (i_attrs i)
        \<and> r = \<lparr>ir_prov = o_prov ob, ir_plane = o_plane ob, ir_node = o_node ob, ir_vrf = o_vrf ob,
               ir_iface = i_name i, ir_attrs = i_attrs i\<rparr>))"
  by (auto simp: collect_ospf_def rows_in_def Let_def)

lemma row_values_collect:
  assumes "has_prefix key ''ospf.''" "p \<in> {Control, Configured}"
  shows "v \<in> set (row_areas key (filter (\<lambda>r. ir_plane r = p \<and> iface_key r = k \<and> values_of (ir_attrs r) key \<noteq> [])
             (an_ifaces (collect_ospf obs)))) \<longleftrightarrow> v \<in> set (iface_values p key obs k)"
proof -
  have "v \<in> set (row_areas key (filter (\<lambda>r. ir_plane r = p \<and> iface_key r = k \<and> values_of (ir_attrs r) key \<noteq> [])
             (an_ifaces (collect_ospf obs))))
    \<longleftrightarrow> (\<exists>r\<in>set (an_ifaces (collect_ospf obs)). ir_plane r = p \<and> iface_key r = k \<and> v \<in> set (values_of (ir_attrs r) key))"
    by (auto simp: row_areas_def)
  also have "\<dots> \<longleftrightarrow> v \<in> set (iface_values p key obs k)"
  proof
    assume "\<exists>r\<in>set (an_ifaces (collect_ospf obs)). ir_plane r = p \<and> iface_key r = k \<and> v \<in> set (values_of (ir_attrs r) key)"
    then obtain r where "r \<in> set (an_ifaces (collect_ospf obs))" "ir_plane r = p" "iface_key r = k"
      "v \<in> set (values_of (ir_attrs r) key)"
      by blast
    then show "v \<in> set (iface_values p key obs k)"
      by (auto simp: set_ifaces_collect set_iface_values iface_key_def) blast
  next
    assume "v \<in> set (iface_values p key obs k)"
    then obtain ob i where ob: "ob \<in> set obs" "o_plane ob = p" "i \<in> set (o_ifaces ob)"
      "(o_node ob, o_vrf ob, i_name i) = k" "v \<in> set (values_of (i_attrs i) key)"
      unfolding set_iface_values by blast
    then have "carries_ospf (i_attrs i)"
      using values_of_carries [OF assms(1), of "i_attrs i"] by (cases "values_of (i_attrs i) key") simp_all
    then have "\<lparr>ir_prov = o_prov ob, ir_plane = o_plane ob, ir_node = o_node ob, ir_vrf = o_vrf ob,
        ir_iface = i_name i, ir_attrs = i_attrs i\<rparr> \<in> set (an_ifaces (collect_ospf obs))"
      unfolding set_ifaces_collect using ob assms(2) by (intro bexI [of _ ob] conjI bexI [of _ i]) auto
    then show "\<exists>r\<in>set (an_ifaces (collect_ospf obs)). ir_plane r = p \<and> iface_key r = k
        \<and> v \<in> set (values_of (ir_attrs r) key)"
      using ob by (elim bexI [rotated]) (simp add: iface_key_def)
  qed
  finally show ?thesis .
qed

section \<open>A reported state\<close>

text \<open>What lets a state be reported: every record of the pair has a state, every state of every
  record reads as the same known word, and the remote interfaces that are named are one.\<close>

definition agreed_state :: "nbr_record list \<Rightarrow> string \<Rightarrow> bool" where
  "agreed_state recs s \<longleftrightarrow>
     recs \<noteq> [] \<and> s \<in> set neighbor_vocabulary
     \<and> (\<forall>r\<in>set recs. values_of (nr_attrs r) key_state \<noteq> [] \<and> (\<forall>v\<in>set (values_of (nr_attrs r) key_state). state_word v = s))"

definition one_remote :: "nbr_record list \<Rightarrow> bool" where
  "one_remote recs \<longleftrightarrow> (\<exists>i. \<forall>r\<in>set recs. lk_remote (nr_link r) = [] \<or> lk_remote (nr_link r) = i)"

lemma distinct_short: "distinct xs \<Longrightarrow> \<not> 1 < length xs \<longleftrightarrow> (\<exists>x. set xs \<subseteq> {x})"
  by (cases xs rule: remdups_adj.cases) auto

lemma remote_ifaces_short: "\<not> 1 < length (remote_ifaces recs) \<longleftrightarrow> one_remote recs"
  by (subst distinct_short) (simp_all add: remote_ifaces_def one_remote_def subset_iff image_iff, blast)

lemma set_known_states [simp]:
  "set (known_states recs) = {s \<in> set neighbor_vocabulary. \<exists>r\<in>set recs. \<exists>v\<in>set (values_of (nr_attrs r) key_state). s = state_word v}"
  unfolding known_states_def state_values_def by (simp del: values_of_def) blast

lemma unreadable_states_Nil [simp]:
  "unreadable_states recs = [] \<longleftrightarrow>
     (\<forall>r\<in>set recs. \<forall>v\<in>set (values_of (nr_attrs r) key_state). state_word v \<in> set neighbor_vocabulary)"
  unfolding unreadable_states_def state_values_def by (auto simp: filter_empty_conv)

lemma missing_states_zero [simp]:
  "0 < missing_states recs \<longleftrightarrow> (\<exists>r\<in>set recs. values_of (nr_attrs r) key_state = [])"
  unfolding missing_states_def by (auto simp: filter_empty_conv)

lemma known_states_single: "known_states recs = [s] \<longleftrightarrow> set (known_states recs) = {s}"
  by (rule distinct_single_iff) (simp add: known_states_def)

lemma state_agreed:
  assumes "recs \<noteq> []"
  shows "known_states recs = [s] \<and> \<not> state_gap recs \<longleftrightarrow> agreed_state recs s"
proof
  assume a: "known_states recs = [s] \<and> \<not> state_gap recs"
  then have k: "set (known_states recs) = {s}" by simp
  from a have g: "\<forall>r\<in>set recs. values_of (nr_attrs r) key_state \<noteq> []
      \<and> (\<forall>v\<in>set (values_of (nr_attrs r) key_state). state_word v \<in> set neighbor_vocabulary)"
    unfolding state_gap_def by auto
  show "agreed_state recs s"
    unfolding agreed_state_def
  proof (intro conjI ballI)
    show "s \<in> set neighbor_vocabulary"
      using k unfolding set_known_states by blast
    show "state_word v = s" if "r \<in> set recs" "v \<in> set (values_of (nr_attrs r) key_state)" for r v
      using k g that unfolding set_known_states by blast
  qed (use assms g in auto)
next
  assume a: "agreed_state recs s"
  then obtain r v where "r \<in> set recs" "v \<in> set (values_of (nr_attrs r) key_state)"
    using assms unfolding agreed_state_def by (metis list.set_sel(1))
  with a have "set (known_states recs) = {s}"
    unfolding agreed_state_def set_known_states by (auto 0 4)
  with a show "known_states recs = [s] \<and> \<not> state_gap recs"
    unfolding known_states_single agreed_state_def state_gap_def by auto
qed

lemma state_findings_reported:
  "f \<in> set (state_findings l recs) \<and> of_strength f = Reported \<longleftrightarrow>
     one_remote recs \<and> (\<exists>s. known_states recs = [s] \<and> \<not> state_gap recs
        \<and> f = add_finding NeighborState Reported l (''reports state '' @ s) (limit_for_state s) (evidence_of recs []))"
proof (cases "one_remote recs")
  case False
  then have "1 < length (remote_ifaces recs)"
    using remote_ifaces_short by blast
  with False show ?thesis
    unfolding state_findings_def by (cases f) (simp add: add_finding_def)
next
  case True
  then have "\<not> 1 < length (remote_ifaces recs)"
    using remote_ifaces_short by blast
  with True show ?thesis
    unfolding state_findings_def
    by (cases "known_states recs" rule: remdups_adj.cases) (auto simp del: append.simps)
qed

lemma gap_not_reported: "f \<in> set (gap_findings q l recs) \<Longrightarrow> of_strength f \<noteq> Reported"
  unfolding gap_findings_def by (simp split: if_splits)

lemma area_not_reported: "f \<in> set (area_findings l recs) \<Longrightarrow> of_strength f \<noteq> Reported"
  unfolding area_findings_def Let_def by (simp split: if_splits)

lemma confirm_not_reported: "f \<in> set (confirm_router_id a l ip ev) \<Longrightarrow> of_strength f \<noteq> Reported"
  unfolding confirm_router_id_def Let_def by (simp split: if_splits)

lemma id_not_reported: "f \<in> set (id_findings a l recs) \<Longrightarrow> of_strength f \<noteq> Reported"
  unfolding id_findings_def
  by (cases "readable parse_router_id (record_ids recs)" rule: remdups_adj.cases) (simp_all add: confirm_not_reported)

lemma group_reported:
  assumes "recs \<noteq> []"
  shows "f \<in> set (neighbor_group q a p recs) \<and> of_strength f = Reported \<longleftrightarrow>
     one_remote recs \<and> (\<exists>s. agreed_state recs s
        \<and> f = add_finding NeighborState Reported (group_link p recs) (''reports state '' @ s) (limit_for_state s) (evidence_of recs []))"
proof -
  have "f \<in> set (neighbor_group q a p recs) \<and> of_strength f = Reported \<longleftrightarrow>
      f \<in> set (state_findings (group_link p recs) recs) \<and> of_strength f = Reported"
    unfolding neighbor_group_def Let_def set_append
    using gap_not_reported area_not_reported id_not_reported by blast
  also have "\<dots> \<longleftrightarrow> one_remote recs \<and> (\<exists>s. agreed_state recs s
        \<and> f = add_finding NeighborState Reported (group_link p recs) (''reports state '' @ s) (limit_for_state s) (evidence_of recs []))"
    unfolding state_findings_reported using state_agreed [OF assms] by blast
  finally show ?thesis .
qed

lemma others_not_reported:
  "f \<in> set (interface_areas q a) \<Longrightarrow> of_strength f \<noteq> Reported"
  "f \<in> set (expected_neighbors a) \<Longrightarrow> of_strength f \<noteq> Reported"
  "f \<in> set (area_mismatches a) \<Longrightarrow> of_strength f \<noteq> Reported"
  "f \<in> set (declared_areas a) \<Longrightarrow> of_strength f \<noteq> Reported"
  "f \<in> set (declared_passive a) \<Longrightarrow> of_strength f \<noteq> Reported"
    subgoal unfolding interface_areas_def in_concat_map area_group_def Let_def by (auto split: if_splits)
    subgoal unfolding expected_neighbors_def in_concat_map2 expected_def expected_finding_def Let_def
      by (elim exE conjE) (simp split: if_splits)
    subgoal unfolding area_mismatches_def Let_def in_concat_map area_mismatch_def
      by (elim exE conjE) (simp split: if_splits option.splits, auto)
    subgoal unfolding declared_areas_def in_concat_map declared_area_def areas_differ_def Let_def
      by (elim exE conjE) (simp split: if_splits prod.splits, auto)
    subgoal unfolding declared_passive_def in_concat_map declared_passive_link_iff
      by (elim exE conjE) simp
  done

lemma in_neighbor_states:
  "f \<in> set (neighbor_states q (collect_ospf obs)) \<longleftrightarrow>
     (\<exists>p. reporters obs p \<noteq> [] \<and> f \<in> set (neighbor_group q (collect_ospf obs) p (reporters obs p)))"
  unfolding neighbor_states_def in_concat_map set_groups_by control_records_mem comp_apply
    control_records_collect by blast

lemma reported_kind:
  "f \<in> set (analyze q obs) \<and> of_strength f = Reported \<longleftrightarrow>
     f \<in> set (neighbor_states q (collect_ospf obs)) \<and> of_strength f = Reported"
  unfolding set_analyze set_ospf_findings Un_iff
  using others_not_reported by blast

text \<open>
  A state is reported for a neighbor exactly when it is all its records say: the
  control-plane OSPF records of the pair are there, every one of them carries a state, all
  their states read as one word of the vocabulary, and they name at most one remote
  interface. A finding of that strength therefore never picks one of two states.
\<close>

theorem reported_state_exact:
  "(\<exists>f\<in>set (analyze q obs). of_strength f = Reported \<and> pair_of (link_of f) = p \<and> of_detail f = ''reports state '' @ s)
   \<longleftrightarrow> agreed_state (reporters obs p) s \<and> one_remote (reporters obs p)"
  (is "?l \<longleftrightarrow> ?r")
proof -
  have p: "pair_of (group_link p' recs) = p'" for p' recs
    by (cases p') (simp add: group_link_def pair_of_def)
  have g: "reporters obs p' \<noteq> [] \<and> f \<in> set (neighbor_group q (collect_ospf obs) p' (reporters obs p')) \<and> of_strength f = Reported
    \<longleftrightarrow> one_remote (reporters obs p') \<and> (\<exists>s. agreed_state (reporters obs p') s
        \<and> f = add_finding NeighborState Reported (group_link p' (reporters obs p')) (''reports state '' @ s)
             (limit_for_state s) (evidence_of (reporters obs p') []))" for p' f
    using group_reported [of "reporters obs p'" f q "collect_ospf obs" p']
    by (cases "reporters obs p' = []") (simp_all add: agreed_state_def del: append.simps)
  have "?l \<longleftrightarrow> (\<exists>f p'. (reporters obs p' \<noteq> []
      \<and> f \<in> set (neighbor_group q (collect_ospf obs) p' (reporters obs p')) \<and> of_strength f = Reported)
      \<and> pair_of (link_of f) = p \<and> of_detail f = ''reports state '' @ s)"
    unfolding Bex_def conj_assoc [symmetric] reported_kind
    unfolding in_neighbor_states by blast
  also have "\<dots> \<longleftrightarrow> ?r"
    unfolding g
  proof
    assume "\<exists>f p'. (one_remote (reporters obs p') \<and> (\<exists>s. agreed_state (reporters obs p') s
        \<and> f = add_finding NeighborState Reported (group_link p' (reporters obs p')) (''reports state '' @ s)
             (limit_for_state s) (evidence_of (reporters obs p') [])))
        \<and> pair_of (link_of f) = p \<and> of_detail f = ''reports state '' @ s"
    then show ?r by (elim exE conjE) (simp only: link_of_add add_finding_simps p same_append_eq)
  next
    assume ?r
    then show "\<exists>f p'. (one_remote (reporters obs p') \<and> (\<exists>s. agreed_state (reporters obs p') s
        \<and> f = add_finding NeighborState Reported (group_link p' (reporters obs p')) (''reports state '' @ s)
             (limit_for_state s) (evidence_of (reporters obs p') [])))
        \<and> pair_of (link_of f) = p \<and> of_detail f = ''reports state '' @ s"
      by (intro exI conjI) (auto simp only: link_of_add add_finding_simps p)
  qed
  finally show ?thesis .
qed

end
