(* ===== verification/Ospf_Readings.thy ===== *)
theory Ospf_Readings
  imports Ospf_Laws
begin

text \<open>
  The readings of \<^verbatim>\<open>internal/ospf/ospf.go\<close> that suggest a fault, each stated
  over the observations themselves: a neighbor missing from a complete list, configured areas
  that differ over a link, a passive end of a declared link. A last group says what the
  reading never looks at.
\<close>

section \<open>A missing neighbor\<close>

lemma consulted_fields:
  "ex_present (foldl (consult l) x is) = [] \<longleftrightarrow>
     ex_present x = [] \<and> (\<forall>i\<in>set is. filter (shows_remote l) (pair_in l i) = [])"
  "ex_named (foldl (consult l) x is) = [] \<longleftrightarrow>
     ex_named x = [] \<and> (\<forall>i\<in>set is. filter (shows_remote l) (pair_in l i) \<noteq> [] \<or> pair_in l i = [])"
  "ex_omitted (foldl (consult l) x is) = [] \<longleftrightarrow>
     ex_omitted x = [] \<and> (\<forall>i\<in>set is. pair_in l i \<noteq> [] \<or> \<not> absence_counts i)"
proof (induction "is" arbitrary: x)
  case (Cons i "is")
  have split: "filter (shows_remote l) (pair_in l i) = [] \<and> filter (\<lambda>r. \<not> shows_remote l r) (pair_in l i) = []
      \<longleftrightarrow> pair_in l i = []"
    by (auto simp: filter_empty_conv)
  case 1
  show ?case using Cons.IH(1) by (simp add: consult_def Let_def evidence_of_def)
  case 2
  show ?case using Cons.IH(2) split by (simp add: consult_def Let_def evidence_of_def) blast
  case 3
  show ?case using Cons.IH(3) split by (simp add: consult_def Let_def evidence_of_def) blast
qed simp_all

lemma no_expectation_simps [simp]:
  "ex_present no_expectation = []" "ex_named no_expectation = []" "ex_omitted no_expectation = []"
  by (simp_all add: no_expectation_def)

lemma consulted_none:
  "ex_present (consulted a l) = [] \<and> ex_named (consulted a l) = [] \<and> ex_omitted (consulted a l) \<noteq> [] \<longleftrightarrow>
     (\<forall>i\<in>set (inventories_at a l). pair_in l i = []) \<and> (\<exists>i\<in>set (inventories_at a l). absence_counts i)"
  unfolding consulted_def consulted_fields by auto

lemma expected_consistent:
  "(\<exists>f\<in>set (expected a l recs). of_limit f = LimitMissingConsistent \<and> link_of f = l') \<longleftrightarrow>
     l' = l \<and> lk_remote l \<noteq> [] \<and> ex_present (consulted a l) = [] \<and> ex_named (consulted a l) = []
     \<and> ex_omitted (consulted a l) \<noteq> []"
  unfolding expected_def expected_finding_def Let_def
  by (cases "lk_remote l = []"; cases "ex_present (consulted a l) = []"; cases "ex_omitted (consulted a l) = []";
      cases "ex_named (consulted a l) = []") auto

lemma in_expected_neighbors:
  "f \<in> set (expected_neighbors a) \<longleftrightarrow>
     (\<exists>r\<in>set (expected_records a). f \<in> set (expected a (nr_link r)
        (filter (\<lambda>r'. nr_plane r' = nr_plane r \<and> nr_link r' = nr_link r) (expected_records a))))"
  unfolding expected_neighbors_def in_concat_map2 set_groups_by by (auto simp: conj_commute)

lemma missing_neighbor_iff:
  "(\<exists>f\<in>set (analyze q obs). of_limit f = LimitMissingConsistent \<and> link_of f = l) \<longleftrightarrow>
     lk_remote l \<noteq> [] \<and> expects obs l
     \<and> (\<forall>ob\<in>set (filter (control_at l) obs). \<not> names_pair ob l)
     \<and> (\<exists>ob\<in>set (filter (control_at l) obs). lists_ospf ob)"
proof -
  let ?a = "collect_ospf obs"
  have "(\<exists>f\<in>set (analyze q obs). of_limit f = LimitMissingConsistent \<and> link_of f = l) \<longleftrightarrow>
      (\<exists>f. of_limit f = LimitMissingConsistent \<and> f \<in> set (expected_neighbors ?a) \<and> link_of f = l)"
    unfolding Bex_def using findings_of_limit(1) by blast
  also have "\<dots> \<longleftrightarrow> (\<exists>r\<in>set (expected_records ?a). \<exists>f\<in>set (expected ?a (nr_link r)
        (filter (\<lambda>r'. nr_plane r' = nr_plane r \<and> nr_link r' = nr_link r) (expected_records ?a))).
          of_limit f = LimitMissingConsistent \<and> link_of f = l)"
    unfolding in_expected_neighbors by blast
  also have "\<dots> \<longleftrightarrow> lk_remote l \<noteq> [] \<and> expects obs l \<and> ex_present (consulted ?a l) = []
      \<and> ex_named (consulted ?a l) = [] \<and> ex_omitted (consulted ?a l) \<noteq> []"
    unfolding expected_consistent expected_records_collect [symmetric] by blast
  also have "\<dots> \<longleftrightarrow> lk_remote l \<noteq> [] \<and> expects obs l
      \<and> (\<forall>i\<in>set (inventories_at ?a l). pair_in l i = []) \<and> (\<exists>i\<in>set (inventories_at ?a l). absence_counts i)"
    unfolding consulted_none by blast
  finally show ?thesis
    unfolding inventories_at_collect by (auto simp: pair_in_Nil_iff absence_counts_inventory)
qed

text \<open>
  C37. The reading that a neighbor is missing is made exactly when a configured or intended
  OSPF record expects the link and names its far interface, the control plane of the node
  has no OSPF record of that pair at all, on any remote interface, and at least one of its
  lists is marked complete and holds OSPF records. An incomplete list, or a complete one
  without OSPF records, never makes the reading.
\<close>

theorem missing_neighbor_exact:
  "(\<exists>f\<in>set (analyze q obs). of_limit f = LimitMissingConsistent \<and> link_of f = l) \<longleftrightarrow>
     lk_remote l \<noteq> [] \<and> expects obs l
     \<and> (\<forall>ob\<in>set (filter (control_at l) obs). \<not> names_pair ob l)
     \<and> (\<exists>ob\<in>set (filter (control_at l) obs). lists_ospf ob)"
  by (rule missing_neighbor_iff)

section \<open>Areas over a reported link\<close>

definition configured_as :: "observation list \<Rightarrow> string \<times> string \<times> string \<Rightarrow> 32 word \<Rightarrow> bool" where
  "configured_as obs k n \<longleftrightarrow>
     iface_values Configured key_area obs k \<noteq> []
     \<and> (\<forall>v\<in>set (iface_values Configured key_area obs k). parse_area v = Some n)"

lemma key_prefixes:
  "has_prefix key_area ''ospf.''" "has_prefix key_effective_area ''ospf.''" "has_prefix key_passive ''ospf.''"
  by code_simp+

lemma area_rows_at:
  "filter (\<lambda>r. iface_key r = k) (area_rows a) =
     filter (\<lambda>r. ir_plane r = Configured \<and> iface_key r = k \<and> values_of (ir_attrs r) key_area \<noteq> []) (an_ifaces a)"
  unfolding area_rows_def filter_filter by (rule filter_cong) auto

lemma one_value_collect:
  fixes obs :: "observation list"
  assumes "has_prefix key ''ospf.''" "p \<in> {Control, Configured}"
    and vs: "vs = row_areas key (filter (\<lambda>r. ir_plane r = p \<and> iface_key r = k \<and> values_of (ir_attrs r) key \<noteq> [])
      (an_ifaces (collect_ospf obs)))"
  shows "unparsed parse_area vs = [] \<and> readable parse_area vs = [n] \<longleftrightarrow>
      iface_values p key obs k \<noteq> [] \<and> (\<forall>v\<in>set (iface_values p key obs k). parse_area v = Some n)"
proof -
  have "set vs = set (iface_values p key obs k)"
    unfolding vs using row_values_collect [OF assms(1,2)] by blast
  then show ?thesis
    unfolding one_readable by (metis set_empty)
qed

lemma configured_area_iff:
  "(\<exists>aa. configured_area (collect_ospf obs) k = Some aa \<and> ar_n aa = n) \<longleftrightarrow> configured_as obs k n"
proof -
  have "(\<exists>aa. configured_area a k = Some aa \<and> ar_n aa = n) \<longleftrightarrow>
      unparsed parse_area (row_areas key_area (filter (\<lambda>r. iface_key r = k) (area_rows a))) = []
      \<and> readable parse_area (row_areas key_area (filter (\<lambda>r. iface_key r = k) (area_rows a))) = [n]" for a
    unfolding configured_area_def Let_def by (auto split: list.splits if_splits)
  then show ?thesis
    unfolding configured_as_def area_rows_at
    using one_value_collect [OF key_prefixes(1) _ refl, of Configured k obs n] by simp
qed

lemma area_mismatch_iff:
  "(\<exists>f\<in>set (area_mismatch a bl l recs). link_of f = l') \<longleftrightarrow>
     l' = l \<and> lk_remote l \<noteq> [] \<and> compare_link l (mirror l) < 0 \<and> map_of bl (mirror l) \<noteq> None
     \<and> (\<exists>aa ab. configured_area a (near_end l) = Some aa \<and> configured_area a (near_end (mirror l)) = Some ab
          \<and> ar_n aa \<noteq> ar_n ab)"
  unfolding area_mismatch_def
  by (cases "map_of bl (mirror l)"; cases "configured_area a (near_end l)";
      cases "configured_area a (near_end (mirror l))") (auto simp: not_le)

lemma ex_at_link: "(\<exists>k g. R k g \<and> l = k \<and> P k) \<longleftrightarrow> (\<exists>g. R l g) \<and> P l"
  by blast

lemma in_groups_by:
  "(\<exists>g. (k, g) \<in> set (groups_by key xs)) \<longleftrightarrow> k \<in> key ` set xs"
  "map_of (groups_by key xs) k \<noteq> None \<longleftrightarrow> k \<in> key ` set xs"
  by (auto simp: set_groups_by map_of_groups_by)

text \<open>
  A mismatch of configured areas is reported exactly once per link, from its smaller
  direction, and exactly when the control plane names the link from both sides and the
  configured rows of each end all parse and agree on one area, the two areas being
  different. Areas are compared as 32-bit numbers, so 0 and 0.0.0.0 never differ.
\<close>

theorem area_mismatch_exact:
  "(\<exists>f\<in>set (analyze q obs). of_limit f = LimitAreaMismatch \<and> link_of f = l) \<longleftrightarrow>
     lk_remote l \<noteq> [] \<and> compare_link l (mirror l) < 0
     \<and> names_link Control obs l \<and> names_link Control obs (mirror l)
     \<and> (\<exists>na nb. configured_as obs (near_end l) na \<and> configured_as obs (near_end (mirror l)) nb \<and> na \<noteq> nb)"
proof -
  let ?a = "collect_ospf obs"
  let ?bl = "links_by (\<lambda>p. p = Control) ?a"
  have named: "l \<in> nr_link ` set (records_in (\<lambda>p. p = Control) ?a) \<longleftrightarrow> names_link Control obs l" for l
    by (rule names_link_collect) simp
  have "(\<exists>f\<in>set (analyze q obs). of_limit f = LimitAreaMismatch \<and> link_of f = l) \<longleftrightarrow>
      (\<exists>f\<in>set (area_mismatches ?a). link_of f = l)"
    unfolding Bex_def using findings_of_limit(2) area_mismatches_limits by blast
  also have "\<dots> \<longleftrightarrow> (\<exists>k g. (k, g) \<in> set ?bl \<and> (\<exists>f\<in>set (area_mismatch ?a ?bl k g). link_of f = l))"
    unfolding area_mismatches_def Let_def Bex_def in_concat_map by blast
  also have "\<dots> \<longleftrightarrow> lk_remote l \<noteq> [] \<and> compare_link l (mirror l) < 0
     \<and> names_link Control obs l \<and> names_link Control obs (mirror l)
     \<and> (\<exists>aa ab. configured_area ?a (near_end l) = Some aa \<and> configured_area ?a (near_end (mirror l)) = Some ab
          \<and> ar_n aa \<noteq> ar_n ab)"
    unfolding area_mismatch_iff ex_at_link unfolding links_by_def in_groups_by named by (simp only: conj_ac)
  also have "(\<exists>aa ab. configured_area ?a (near_end l) = Some aa \<and> configured_area ?a (near_end (mirror l)) = Some ab
        \<and> ar_n aa \<noteq> ar_n ab) \<longleftrightarrow>
      (\<exists>na nb. (\<exists>aa. configured_area ?a (near_end l) = Some aa \<and> ar_n aa = na)
        \<and> (\<exists>ab. configured_area ?a (near_end (mirror l)) = Some ab \<and> ar_n ab = nb) \<and> na \<noteq> nb)"
    by blast
  finally show ?thesis
    unfolding configured_area_iff .
qed

section \<open>A passive end of a declared link\<close>

definition reports_passive :: "observation list \<Rightarrow> string \<times> string \<times> string \<Rightarrow> bool" where
  "reports_passive obs k \<longleftrightarrow>
     iface_values Control key_passive obs k \<noteq> [] \<and> (\<forall>v\<in>set (iface_values Control key_passive obs k). v = ''true'')"

lemma agreed_word:
  assumes "t \<noteq> f" "t \<noteq> []"
  shows "fst (if list_ex (\<lambda>v. v \<noteq> t \<and> v \<noteq> f) vals then ([], x)
          else if (t \<in> set vals) = (f \<in> set vals) then ([], y)
          else (if t \<in> set vals then t else f, z)) = t
    \<longleftrightarrow> vals \<noteq> [] \<and> (\<forall>v\<in>set vals. v = t)"
  using assms by (cases vals) (auto simp: list_ex_iff)

lemma passive_at_true:
  "fst (passive_at a k) = ''true'' \<longleftrightarrow>
     row_areas key_passive (rows_at a k key_passive) \<noteq> []
     \<and> (\<forall>v\<in>set (row_areas key_passive (rows_at a k key_passive)). v = ''true'')"
  unfolding passive_at_def Let_def by (rule agreed_word) simp_all

lemma passive_reading_some: "(\<exists>d m. passive_reading l lp mp = Some (d, m)) \<longleftrightarrow> lp = ''true'' \<or> mp = ''true''"
  unfolding passive_reading_def by (simp del: append.simps)

text \<open>An end that is read as passive.\<close>

definition passive_end :: "analysis \<Rightarrow> string \<times> string \<times> string \<Rightarrow> bool" where
  "passive_end a k \<longleftrightarrow> fst (passive_at a k) = ''true''"

lemma passive_end_reading:
  "(\<exists>d m. passive_reading l (fst (passive_at a k)) (fst (passive_at a k')) = Some (d, m)) \<longleftrightarrow> passive_end a k \<or> passive_end a k'"
  unfolding passive_end_def by (rule passive_reading_some)

lemma passive_at_iff: "passive_end (collect_ospf obs) k \<longleftrightarrow> reports_passive obs k"
proof -
  have "set (row_areas key_passive (rows_at (collect_ospf obs) k key_passive)) = set (iface_values Control key_passive obs k)"
    unfolding rows_at_def using row_values_collect [OF key_prefixes(3), of Control _ k obs] by blast
  then show ?thesis
    unfolding passive_end_def passive_at_true reports_passive_def by (metis set_empty)
qed

lemma pair_records_Nil:
  "pair_records (collect_ospf obs) l = [] \<longleftrightarrow> (\<forall>ob\<in>set (filter (control_at l) obs). \<not> names_pair ob l)"
  unfolding pair_records_def inventories_at_collect by (auto simp: pair_in_Nil_iff)

lemma declared_in:
  "(\<exists>g. (l, g) \<in> set (declared_links (collect_ospf obs))) \<longleftrightarrow> names_link Intended obs l \<and> lk_remote l \<noteq> []"
  "map_of (declared_links (collect_ospf obs)) l \<noteq> None \<longleftrightarrow> names_link Intended obs l \<and> lk_remote l \<noteq> []"
  unfolding declared_links_def in_groups_by using names_link_collect [of Intended l obs] by auto

lemma declared_passive_at:
  "(\<exists>f\<in>set (declared_passive_link a d l recs). link_of f = l') \<longleftrightarrow>
     l' = l \<and> map_of d (mirror l) \<noteq> None \<and> compare_link l (mirror l) < 0
     \<and> (passive_end a (near_end l) \<or> passive_end a (near_end (mirror l)))
     \<and> pair_records a l = [] \<and> pair_records a (mirror l) = []"
  (is "?l \<longleftrightarrow> ?r")
proof
  assume ?l
  then obtain f where f: "link_of f = l'" "f \<in> set (declared_passive_link a d l recs)" by blast
  obtain mrecs dt m where c: "map_of d (mirror l) = Some mrecs" "compare_link l (mirror l) < 0"
      "pair_records a l = []" "pair_records a (mirror l) = []"
    and p: "passive_reading l (fst (passive_at a (near_end l))) (fst (passive_at a (near_end (mirror l)))) = Some (dt, m)"
    and fl: "link_of f = l"
    using f(2) unfolding declared_passive_link_iff by (elim exE conjE) (rule that; simp only: link_of_add)
  have "l' = l" using f(1) fl by simp
  moreover have "passive_end a (near_end l) \<or> passive_end a (near_end (mirror l))"
    unfolding passive_end_reading [of l, symmetric] by (intro exI) (rule p)
  ultimately show ?r
    using c by blast
next
  assume r: ?r
  then obtain dt m where p: "passive_reading l (fst (passive_at a (near_end l))) (fst (passive_at a (near_end (mirror l)))) = Some (dt, m)"
    using passive_end_reading [of l a "near_end l" "near_end (mirror l)"] by blast
  obtain mrecs where mr: "map_of d (mirror l) = Some mrecs"
    using r by blast
  have c: "compare_link l (mirror l) < 0" "pair_records a l = []" "pair_records a (mirror l) = []"
    using r by blast+
  have "add_finding MissingNeighbor ConsistentWith l dt m
             (snd (passive_at a (near_end l)) @ snd (passive_at a (near_end (mirror l)))
              @ evidence_of recs ''declared link, this end'' @ evidence_of mrecs ''declared link, far end'')
      \<in> set (declared_passive_link a d l recs)"
    unfolding declared_passive_link_iff
    by (rule exI [of _ mrecs], rule exI [of _ dt], rule exI [of _ m]) (simp only: p mr c simp_thms)
  with r show ?l
    by (metis link_of_add)
qed

text \<open>
  A passive interface is read as a possible cause exactly when the intended plane
  declares the link from both ends with both interfaces named, one end at least reports
  passive on the control plane with every value saying true, and no control-plane OSPF record
  names the pair from either end. An end with a conflicting or unreadable value never makes
  the reading by itself, and a link is read once, from its smaller direction.
\<close>

theorem passive_reading_exact:
  "(\<exists>f\<in>set (analyze q obs). of_limit f \<in> {LimitMissingPassive, LimitMissingPassiveBoth} \<and> link_of f = l) \<longleftrightarrow>
     compare_link l (mirror l) < 0
     \<and> names_link Intended obs l \<and> names_link Intended obs (mirror l) \<and> lk_remote l \<noteq> [] \<and> lk_iface l \<noteq> []
     \<and> (reports_passive obs (near_end l) \<or> reports_passive obs (near_end (mirror l)))
     \<and> (\<forall>ob\<in>set (filter (control_at l) obs). \<not> names_pair ob l)
     \<and> (\<forall>ob\<in>set (filter (control_at (mirror l)) obs). \<not> names_pair ob (mirror l))"
proof -
  let ?a = "collect_ospf obs"
  let ?d = "declared_links ?a"
  have "(\<exists>f\<in>set (analyze q obs). of_limit f \<in> {LimitMissingPassive, LimitMissingPassiveBoth} \<and> link_of f = l) \<longleftrightarrow>
      (\<exists>f\<in>set (declared_passive ?a). link_of f = l)"
    unfolding Bex_def using findings_of_limit(4) declared_passives_limits by blast
  also have "\<dots> \<longleftrightarrow> (\<exists>k g. (k, g) \<in> set ?d \<and> (\<exists>f\<in>set (declared_passive_link ?a ?d k g). link_of f = l))"
    unfolding declared_passive_def Bex_def in_concat_map by blast
  also have "\<dots> \<longleftrightarrow> (names_link Intended obs l \<and> lk_remote l \<noteq> []) \<and> (names_link Intended obs (mirror l) \<and> lk_iface l \<noteq> [])
     \<and> compare_link l (mirror l) < 0
     \<and> (reports_passive obs (near_end l) \<or> reports_passive obs (near_end (mirror l)))
     \<and> (\<forall>ob\<in>set (filter (control_at l) obs). \<not> names_pair ob l)
     \<and> (\<forall>ob\<in>set (filter (control_at (mirror l)) obs). \<not> names_pair ob (mirror l))"
    unfolding declared_passive_at ex_at_link declared_in pair_records_Nil passive_at_iff mirror_simps ..
  finally show ?thesis
    by (simp only: conj_ac)
qed

section \<open>What the reading never looks at\<close>

text \<open>An observation without what the reading ignores: its routes and their completeness, the
  addresses and VLANs of its interfaces, the addresses of its neighbors, and the interfaces
  without OSPF attributes.\<close>

definition ospf_view :: "observation \<Rightarrow> observation" where
  "ospf_view ob = ob\<lparr>o_routes := [], o_routes_complete := False,
     o_ifaces := map (\<lambda>i. i\<lparr>i_addrs := [], i_vlan_known := False, i_vlan := 0\<rparr>)
       (filter (\<lambda>i. carries_ospf (i_attrs i)) (o_ifaces ob)),
     o_neighbors := map (\<lambda>n. n\<lparr>n_addr := ZeroAddr\<rparr>) (o_neighbors ob)\<rparr>"

lemma view_fields:
  "o_prov (ospf_view ob) = o_prov ob" "o_plane (ospf_view ob) = o_plane ob" "o_node (ospf_view ob) = o_node ob"
  "o_vrf (ospf_view ob) = o_vrf ob"
  "o_ifaces (ospf_view ob) = map (\<lambda>i. i\<lparr>i_addrs := [], i_vlan_known := False, i_vlan := 0\<rparr>)
       (filter (\<lambda>i. carries_ospf (i_attrs i)) (o_ifaces ob))"
  by (simp_all add: ospf_view_def)

lemma rows_of_kept:
  assumes "\<And>i. f (i\<lparr>i_addrs := [], i_vlan_known := False, i_vlan := 0\<rparr>) = f i"
  shows "concat (map (\<lambda>i. if carries_ospf (i_attrs i) \<and> b then [f i] else [])
      (map (\<lambda>i. i\<lparr>i_addrs := [], i_vlan_known := False, i_vlan := 0\<rparr>) (filter (\<lambda>i. carries_ospf (i_attrs i)) is)))
    = concat (map (\<lambda>i. if carries_ospf (i_attrs i) \<and> b then [f i] else []) is)"
  using assms by (induction "is") auto

lemma rows_in_view: "rows_in (ospf_view ob) = rows_in ob"
  unfolding rows_in_def view_fields by (rule rows_of_kept) simp

lemma inventory_of_view: "inventory_of (ospf_view ob) = inventory_of ob"
  by (simp add: inventory_of_def ospf_view_def record_of_def)

lemma ospf_view_plane: "o_plane (ospf_view ob) = o_plane ob"
  by (simp add: ospf_view_def)

definition holds_ospf :: "observation \<Rightarrow> bool" where
  "holds_ospf ob \<longleftrightarrow> list_ex (\<lambda>n. carries_ospf (n_attrs n)) (o_neighbors ob)
     \<or> list_ex (\<lambda>i. carries_ospf (i_attrs i)) (o_ifaces ob)"

lemma collect_view:
  "collect_ospf (map ospf_view (filter (\<lambda>ob. ospf_plane (o_plane ob)) obs)) = collect_ospf obs"
  by (simp add: collect_ospf_def Let_def filter_map comp_def ospf_view_plane inventory_of_view rows_in_view)

lemma no_ospf_rows:
  assumes "\<And>ob. ob \<in> set obs \<Longrightarrow> ospf_plane (o_plane ob) \<Longrightarrow> \<not> holds_ospf ob"
  shows "an_ifaces (collect_ospf obs) = []" "control_records (collect_ospf obs) = []"
    "expected_records (collect_ospf obs) = []"
    subgoal using assms by (auto simp: collect_ospf_def rows_in_def Let_def holds_ospf_def list_ex_iff)
    subgoal using assms by (auto simp: control_records_def records_in_collect filter_empty_conv holds_ospf_def list_ex_iff)
    subgoal using assms by (auto simp: expected_records_def records_in_collect filter_empty_conv holds_ospf_def list_ex_iff)
  done

lemma no_area: "an_ifaces a = [] \<Longrightarrow> configured_area a k = None"
  by (simp add: configured_area_def area_rows_def row_areas_def readable_def unparsed_def List.map_filter_def)

lemma no_effective: "an_ifaces a = [] \<Longrightarrow> effective_area a k = (0, EndMissing, [])"
  by (simp add: effective_area_def rows_at_def)

lemma no_passive: "an_ifaces a = [] \<Longrightarrow> passive_at a k = ([], [])"
  by (simp add: passive_at_def rows_at_def row_areas_def)

lemma no_rows_no_findings:
  assumes "an_ifaces a = []" "control_records a = []" "expected_records a = []"
  shows "ospf_findings q a = []"
proof -
  have "area_mismatch a bl l recs = []" for bl l recs
    by (simp add: area_mismatch_def no_area [OF assms(1)] split: option.splits)
  moreover have "declared_area a d l recs = []" for d l recs
    by (simp add: declared_area_def no_effective [OF assms(1)] Let_def)
  moreover have "declared_passive_link a d l recs = []" for d l recs
    by (simp add: declared_passive_link_def no_passive [OF assms(1)] passive_reading_def split: option.splits)
  ultimately show ?thesis
    by (simp add: ospf_findings_def neighbor_states_def interface_areas_def expected_neighbors_def area_mismatches_def
        declared_areas_def declared_passive_def area_rows_def assms Let_def split_def)
qed

text \<open>
  The reading depends on OSPF evidence alone: dropping every other plane, every route,
  every address and VLAN and every interface without an OSPF attribute leaves the report as it
  is, and a report with a finding means some control-plane, configured or intended
  observation holds an OSPF attribute.
\<close>

theorem reads_ospf_only:
  "analyze q (map ospf_view (filter (\<lambda>ob. ospf_plane (o_plane ob)) obs)) = analyze q obs
   \<and> (analyze q obs \<noteq> [] \<longrightarrow> (\<exists>ob\<in>set obs. ospf_plane (o_plane ob) \<and> holds_ospf ob))"
proof (intro conjI impI)
  show "analyze q (map ospf_view (filter (\<lambda>ob. ospf_plane (o_plane ob)) obs)) = analyze q obs"
    by (simp add: analyze_def collect_view)
  assume "analyze q obs \<noteq> []"
  then have "ospf_findings q (collect_ospf obs) \<noteq> []"
    by (auto simp: analyze_def sort_findings_def)
  then show "\<exists>ob\<in>set obs. ospf_plane (o_plane ob) \<and> holds_ospf ob"
    using no_rows_no_findings no_ospf_rows by blast
qed

section \<open>A sample\<close>

definition ospf_attr :: "string \<Rightarrow> string \<Rightarrow> attribute" where
  "ospf_attr k v = \<lparr>attr_key = k, attr_value = v\<rparr>"

definition ospf_sample :: "plane \<Rightarrow> string \<Rightarrow> interface list \<Rightarrow> neighbor list \<Rightarrow> observation" where
  "ospf_sample p node ifs nbs =
     \<lparr>o_prov = \<lparr>source = ''lab'', collected_at = Time 1 0\<rparr>, o_plane = p, o_node = node, o_vrf = ''default'',
      o_routes_complete = False, o_neighbors_complete = True, o_ifaces = ifs, o_neighbors = nbs, o_routes = []\<rparr>"

definition sample_nbr :: "string \<Rightarrow> string \<Rightarrow> string \<Rightarrow> attribute list \<Rightarrow> neighbor" where
  "sample_nbr i peer r attrs = \<lparr>n_local = i, n_node = peer, n_remote = r, n_addr = ZeroAddr, n_attrs = attrs\<rparr>"

text \<open>One neighbor that both spellings of a state call full, and one expected neighbor that the
  complete OSPF list of the same node leaves out.\<close>

definition ospf_lab :: "observation list" where
  "ospf_lab =
     [ospf_sample Control ''r1'' []
        [sample_nbr ''e0'' ''r2'' ''e0'' [ospf_attr ''ospf.state'' ''Full''],
         sample_nbr ''e0'' ''r2'' '''' [ospf_attr ''ospf.state'' '' full'']],
      ospf_sample Intended ''r1'' [] [sample_nbr ''e1'' ''r3'' ''e0'' [ospf_attr ''ospf.area'' ''0'']]]"

definition missing_link :: link where
  "missing_link = \<lparr>lk_node = ''r1'', lk_vrf = ''default'', lk_iface = ''e1'', lk_peer = ''r3'', lk_remote = ''e0''\<rparr>"



theorem reads_ospf_only_witness: "list_ex (\<lambda>ob. ospf_plane (o_plane ob) \<and> holds_ospf ob) ospf_lab"
proof -
  have "lk_remote missing_link \<noteq> []" "expects ospf_lab missing_link"
    "\<forall>ob\<in>set (filter (control_at missing_link) ospf_lab). \<not> names_pair ob missing_link"
    "\<exists>ob\<in>set (filter (control_at missing_link) ospf_lab). lists_ospf ob"
    by code_simp+
  then have "analyze (\<lambda>s. s) ospf_lab \<noteq> []"
    using missing_neighbor_iff [of "\<lambda>s. s" ospf_lab missing_link] by (metis empty_iff list.set(1))
  then show ?thesis
    using reads_ospf_only [of "\<lambda>s. s" ospf_lab] by (simp add: list_ex_iff)
qed

theorem missing_neighbor_exact_witness:
  "\<exists>f. f \<in> set (analyze (\<lambda>s. s) ospf_lab) \<and> of_limit f = LimitMissingConsistent \<and> link_of f = missing_link"
proof -
  have "lk_remote missing_link \<noteq> []" "expects ospf_lab missing_link"
    "\<forall>ob\<in>set (filter (control_at missing_link) ospf_lab). \<not> names_pair ob missing_link"
    "\<exists>ob\<in>set (filter (control_at missing_link) ospf_lab). lists_ospf ob"
    by code_simp+
  then show ?thesis
    using missing_neighbor_exact [of "\<lambda>s. s" ospf_lab missing_link] by blast
qed


text \<open>A link that the intent declares from both ends, one of which runs passive.\<close>

definition passive_lab :: "observation list" where
  "passive_lab =
     [ospf_sample Intended ''r1'' [] [sample_nbr ''e1'' ''r3'' ''e0'' []],
      ospf_sample Intended ''r3'' [] [sample_nbr ''e0'' ''r1'' ''e1'' []],
      ospf_sample Control ''r3''
        [\<lparr>i_name = ''e0'', i_vlan_known = False, i_vlan = 0, i_addrs = [],
          i_attrs = [ospf_attr ''ospf.passive'' ''true'']\<rparr>] []]"

theorem passive_reading_exact_witness:
  "\<exists>f. f \<in> set (analyze (\<lambda>s. s) passive_lab)
     \<and> of_limit f \<in> {LimitMissingPassive, LimitMissingPassiveBoth} \<and> link_of f = missing_link"
proof -
  have "compare_link missing_link (mirror missing_link) < 0"
    "names_link Intended passive_lab missing_link" "names_link Intended passive_lab (mirror missing_link)"
    "lk_remote missing_link \<noteq> []" "lk_iface missing_link \<noteq> []"
    "\<forall>ob\<in>set (filter (control_at missing_link) passive_lab). \<not> names_pair ob missing_link"
    "\<forall>ob\<in>set (filter (control_at (mirror missing_link)) passive_lab). \<not> names_pair ob (mirror missing_link)"
    by code_simp+
  moreover have "reports_passive passive_lab (near_end (mirror missing_link))"
    by code_simp
  ultimately show ?thesis
    using passive_reading_exact [of "\<lambda>s. s" passive_lab missing_link] by (simp only: simp_thms Bex_def)
qed

end
