(* ===== verification/Scheduler.thy ===== *)
theory Scheduler
  imports Prelude
begin

text \<open>
  The probe scheduler of \<^verbatim>\<open>internal/diagnostic/scheduler.go\<close> and the headless
  executor \<^verbatim>\<open>RunAll\<close> of \<^verbatim>\<open>runall.go\<close> that drives it. A worker is a
  goroutine between its start and the arrival of its result on the channel; which worker's
  result arrives next is not determined, so the executor is a step relation. What a probe
  does on the network is the parameter \<open>outcome\<close>: the results its worker may send, given
  the results of its dependencies. \<open>Finalize\<close>, which reads finished results against each
  other, comes after the last step and is not part of this theory.
\<close>

section \<open>Data\<close>

datatype status = StatusPass | StatusWarn | StatusFail | StatusSkip | StatusNA

text \<open>The fields the executor reads or writes; the other fields are the payload of the probe,
  with \<open>None\<close> for their zero values.\<close>

record 'a probe_result =
  rs_id :: string
  rs_status :: status
  rs_detail :: string
  rs_rest :: "'a option"

record probe =
  pr_id :: string
  pr_deps :: "string list"

definition blocks :: "'a probe_result \<Rightarrow> bool" where
  "blocks r \<longleftrightarrow> rs_status r = StatusFail \<or> rs_status r = StatusSkip"

text \<open>\<^verbatim>\<open>DepsState\<close>: are all dependencies done, and does one of them block. It stops at the
  first one without a result.\<close>

fun deps_state :: "string list \<Rightarrow> (string \<Rightarrow> 'a probe_result option) \<Rightarrow> bool \<Rightarrow> bool \<times> bool" where
  "deps_state [] res b = (True, b)"
| "deps_state (d # ds) res b =
     (case res d of None \<Rightarrow> (False, False) | Some r \<Rightarrow> deps_state ds res (b \<or> blocks r))"

definition skip_prereq :: "string \<Rightarrow> 'a probe_result" where
  "skip_prereq i = \<lparr>rs_id = i, rs_status = StatusSkip, rs_detail = ''skipped: a prerequisite failed'', rs_rest = None\<rparr>"

section \<open>The scheduler\<close>

text \<open>\<open>sc_dependents\<close> is the map of reverse edges, the empty list where it has no entry; a set
  of names is a map to true.\<close>

record scheduler =
  sc_probes :: "probe list"
  sc_remaining :: "int list"
  sc_blocked :: "bool list"
  sc_dependents :: "string \<Rightarrow> nat list"
  sc_started :: "string set"
  sc_completed :: "string set"
  sc_ready :: "nat list"
  sc_head :: nat

definition add_dep :: "(string \<Rightarrow> 'a probe_result option) \<Rightarrow> nat \<Rightarrow> scheduler \<Rightarrow> string \<Rightarrow> scheduler" where
  "add_dep res i s d =
     (case res d of
        Some r \<Rightarrow> s\<lparr>sc_blocked := (sc_blocked s)[i := sc_blocked s ! i \<or> blocks r]\<rparr>
      | None \<Rightarrow> s\<lparr>sc_remaining := (sc_remaining s)[i := sc_remaining s ! i + 1],
                 sc_dependents := (sc_dependents s)(d := sc_dependents s d @ [i])\<rparr>)"

definition add_probe :: "(string \<Rightarrow> 'a probe_result option) \<Rightarrow> scheduler \<Rightarrow> nat \<times> probe \<Rightarrow> scheduler" where
  "add_probe res s x =
     (case x of (i, p) \<Rightarrow>
        let s = foldl (add_dep res i) s (pr_deps p)
        in if sc_remaining s ! i = 0 then s\<lparr>sc_ready := sc_ready s @ [i]\<rparr> else s)"

definition empty_scheduler :: "probe list \<Rightarrow> string set \<Rightarrow> string set \<Rightarrow> scheduler" where
  "empty_scheduler ps started completed =
     \<lparr>sc_probes = ps, sc_remaining = replicate (length ps) 0, sc_blocked = replicate (length ps) False,
      sc_dependents = (\<lambda>_. []), sc_started = started, sc_completed = completed, sc_ready = [], sc_head = 0\<rparr>"

definition new_scheduler :: "probe list \<Rightarrow> string set \<Rightarrow> (string \<Rightarrow> 'a probe_result option) \<Rightarrow> scheduler" where
  "new_scheduler ps started res =
     foldl (add_probe res) (empty_scheduler ps started (dom res)) (zip [0..<length ps] ps)"

text \<open>\<^verbatim>\<open>Next\<close>: skip the queued probes whose name has started already.\<close>

function next_probe :: "scheduler \<Rightarrow> scheduler \<times> (nat \<times> bool) option" where
  "next_probe s =
     (if sc_head s < length (sc_ready s) then
        (let i = sc_ready s ! sc_head s; s' = s\<lparr>sc_head := sc_head s + 1\<rparr>; name = pr_id (sc_probes s ! i)
         in if name \<in> sc_started s then next_probe s'
            else (s'\<lparr>sc_started := insert name (sc_started s)\<rparr>, Some (i, sc_blocked s ! i)))
      else (s, None))"
  by pat_completeness auto
termination
  by (relation "measure (\<lambda>s. length (sc_ready s) - sc_head s)") auto

declare next_probe.simps [simp del]

definition release :: "bool \<Rightarrow> scheduler \<Rightarrow> nat \<Rightarrow> scheduler" where
  "release b s i =
     (let s = s\<lparr>sc_blocked := (sc_blocked s)[i := sc_blocked s ! i \<or> b],
                sc_remaining := (sc_remaining s)[i := sc_remaining s ! i - 1]\<rparr>
      in if sc_remaining s ! i = 0 then s\<lparr>sc_ready := sc_ready s @ [i]\<rparr> else s)"

definition complete_probe :: "scheduler \<Rightarrow> 'a probe_result \<Rightarrow> scheduler" where
  "complete_probe s r =
     (if rs_id r \<in> sc_completed s then s
      else foldl (release (blocks r)) (s\<lparr>sc_completed := insert (rs_id r) (sc_completed s)\<rparr>)
             (sc_dependents s (rs_id r)))"

section \<open>The executor\<close>

text \<open>A worker holds its probe and the results of the probe's dependencies at the time it was
  started. The code's map answers the zero result for a missing dependency, here
  \<open>None\<close>; \<^verbatim>\<open>Scheduler_Laws\<close> shows that no worker is started while one is missing.\<close>

type_synonym 'a worker = "probe \<times> (string \<Rightarrow> 'a probe_result option)"

record 'a run_state =
  ru_sched :: scheduler
  ru_results :: "string \<Rightarrow> 'a probe_result option"
  ru_running :: "'a worker list"

definition start_run :: "probe list \<Rightarrow> 'a run_state" where
  "start_run ps = \<lparr>ru_sched = new_scheduler ps {} (\<lambda>_. None :: 'a probe_result option),
                   ru_results = (\<lambda>_. None), ru_running = []\<rparr>"

definition deps_of :: "probe \<Rightarrow> (string \<Rightarrow> 'a probe_result option) \<Rightarrow> string \<Rightarrow> 'a probe_result option" where
  "deps_of p res = (\<lambda>d. if d \<in> set (pr_deps p) then res d else None)"

definition record_skip :: "'a run_state \<Rightarrow> scheduler \<Rightarrow> nat \<Rightarrow> 'a run_state" where
  "record_skip s sc i =
     (let name = pr_id (sc_probes sc ! i)
      in s\<lparr>ru_sched := complete_probe sc (skip_prereq name :: 'a probe_result),
           ru_results := (ru_results s)(name \<mapsto> skip_prereq name)\<rparr>)"

definition launch :: "'a run_state \<Rightarrow> scheduler \<Rightarrow> nat \<Rightarrow> 'a run_state" where
  "launch s sc i =
     (let p = sc_probes sc ! i
      in s\<lparr>ru_sched := sc, ru_running := ru_running s @ [(p, deps_of p (ru_results s))]\<rparr>)"

definition drop_nth :: "nat \<Rightarrow> 'b list \<Rightarrow> 'b list" where
  "drop_nth k xs = take k xs @ drop (Suc k) xs"

definition receive :: "'a run_state \<Rightarrow> scheduler \<Rightarrow> nat \<Rightarrow> 'a probe_result \<Rightarrow> 'a run_state" where
  "receive s sc k r =
     (let r = r\<lparr>rs_id := pr_id (fst (ru_running s ! k))\<rparr>
      in s\<lparr>ru_sched := complete_probe sc r, ru_results := (ru_results s)(rs_id r \<mapsto> r),
           ru_running := drop_nth k (ru_running s)\<rparr>)"

text \<open>
  One turn of the executor. While \<^verbatim>\<open>Next\<close> gives a probe, it is skipped or started; when
  it gives none, the executor waits for any worker's result.
\<close>

inductive run_step ::
  "(probe \<Rightarrow> (string \<Rightarrow> 'a probe_result option) \<Rightarrow> 'a probe_result \<Rightarrow> bool) \<Rightarrow> 'a run_state \<Rightarrow> 'a run_state \<Rightarrow> bool"
  for outcome where
  Skip: "next_probe (ru_sched s) = (sc, Some (i, True)) \<Longrightarrow> run_step outcome s (record_skip s sc i)"
| Launch: "next_probe (ru_sched s) = (sc, Some (i, False)) \<Longrightarrow> run_step outcome s (launch s sc i)"
| Receive: "next_probe (ru_sched s) = (sc, None) \<Longrightarrow> k < length (ru_running s) \<Longrightarrow>
     ru_running s ! k = (p, deps) \<Longrightarrow> outcome p deps r \<Longrightarrow> run_step outcome s (receive s sc k r)"

inductive_cases run_stepE: "run_step outcome s s'"

inductive run_reach ::
  "(probe \<Rightarrow> (string \<Rightarrow> 'a probe_result option) \<Rightarrow> 'a probe_result \<Rightarrow> bool) \<Rightarrow> probe list \<Rightarrow> nat \<Rightarrow> 'a run_state \<Rightarrow> bool"
  for outcome ps where
  Start: "run_reach outcome ps 0 (start_run ps)"
| Turn: "run_reach outcome ps n s \<Longrightarrow> run_step outcome s s' \<Longrightarrow> run_reach outcome ps (Suc n) s'"

text \<open>\<^verbatim>\<open>RunAll\<close> returns when the queue is empty and no worker runs.\<close>

definition run_done :: "'a run_state \<Rightarrow> bool" where
  "run_done s \<longleftrightarrow> snd (next_probe (ru_sched s)) = None \<and> ru_running s = []"

end
