(* ===== verification/Scheduler_Laws.thy ===== *)
theory Scheduler_Laws
  imports Scheduler
begin

text \<open>
  The counts and the queue of the scheduler mean what they should in every reachable state of
  the executor, a worker runs only with all its dependencies done and none of them
  blocking, every run ends, and what it ends with is the same for every order in which
  workers answer.
\<close>

section \<open>The fields of the scheduler\<close>

lemma next_probe_fields:
  "next_probe s = (s', x) \<Longrightarrow>
     sc_probes s' = sc_probes s \<and> sc_remaining s' = sc_remaining s \<and> sc_blocked s' = sc_blocked s
     \<and> sc_dependents s' = sc_dependents s \<and> sc_completed s' = sc_completed s \<and> sc_ready s' = sc_ready s"
proof (induction s rule: next_probe.induct)
  case (1 s)
  then show ?case
    by (subst (asm) (2) next_probe.simps) (auto simp: Let_def split: if_splits)
qed

lemma next_probe_some:
  "next_probe s = (s', Some (i, b)) \<Longrightarrow>
     i \<in> set (sc_ready s) \<and> b = sc_blocked s ! i \<and> pr_id (sc_probes s ! i) \<notin> sc_started s
     \<and> sc_started s' = insert (pr_id (sc_probes s ! i)) (sc_started s)"
proof (induction s rule: next_probe.induct)
  case (1 s)
  then show ?case
    by (subst (asm) (2) next_probe.simps) (auto simp: Let_def split: if_splits)
qed

lemma next_probe_none: "next_probe s = (s', None) \<Longrightarrow> sc_started s' = sc_started s"
proof (induction s rule: next_probe.induct)
  case (1 s)
  then show ?case
    by (subst (asm) (2) next_probe.simps) (auto simp: Let_def split: if_splits)
qed

text \<open>The probes before the head of the queue have started.\<close>

definition head_started :: "scheduler \<Rightarrow> bool" where
  "head_started s \<longleftrightarrow>
     sc_head s \<le> length (sc_ready s)
     \<and> (\<forall>j<sc_head s. pr_id (sc_probes s ! (sc_ready s ! j)) \<in> sc_started s)"

lemma next_probe_head: "head_started s \<Longrightarrow> next_probe s = (s', x) \<Longrightarrow> head_started s'"
proof (induction s rule: next_probe.induct)
  case (1 s)
  show ?case
  proof (cases "sc_head s < length (sc_ready s) \<and> pr_id (sc_probes s ! (sc_ready s ! sc_head s)) \<in> sc_started s")
    case True
    then have "next_probe (s\<lparr>sc_head := sc_head s + 1\<rparr>) = (s', x)"
      using "1.prems"(2) by (subst (asm) next_probe.simps) (simp add: Let_def)
    moreover have "head_started (s\<lparr>sc_head := sc_head s + 1\<rparr>)"
      using True "1.prems"(1) by (auto simp: head_started_def less_Suc_eq)
    ultimately show ?thesis
      using "1.IH" True by blast
  next
    case False
    then show ?thesis
      using "1.prems" by (subst (asm) next_probe.simps) (auto simp: Let_def head_started_def less_Suc_eq split: if_splits)
  qed
qed

lemma next_probe_drained:
  "head_started s \<Longrightarrow> next_probe s = (s', None) \<Longrightarrow> i \<in> set (sc_ready s) \<Longrightarrow> pr_id (sc_probes s ! i) \<in> sc_started s"
proof (induction s rule: next_probe.induct)
  case (1 s)
  show ?case
  proof (cases "sc_head s < length (sc_ready s)")
    case True
    then have st: "pr_id (sc_probes s ! (sc_ready s ! sc_head s)) \<in> sc_started s"
      and n: "next_probe (s\<lparr>sc_head := sc_head s + 1\<rparr>) = (s', None)"
      using "1.prems"(2) by (subst (asm) next_probe.simps, auto simp: Let_def split: if_splits)+
    have "head_started (s\<lparr>sc_head := sc_head s + 1\<rparr>)"
      using True st "1.prems"(1) by (auto simp: head_started_def less_Suc_eq)
    then show ?thesis
      using "1.IH" [OF True refl refl refl st _ n] "1.prems"(3) by simp
  next
    case False
    then show ?thesis
      using "1.prems" by (auto simp: head_started_def in_set_conv_nth)
  qed
qed

section \<open>Completing a probe\<close>

lemma release_fields:
  "sc_probes (release b s i) = sc_probes s" "sc_dependents (release b s i) = sc_dependents s"
  "sc_started (release b s i) = sc_started s" "sc_completed (release b s i) = sc_completed s"
  "sc_head (release b s i) = sc_head s"
  "sc_blocked (release b s i) = (sc_blocked s)[i := sc_blocked s ! i \<or> b]"
  "sc_remaining (release b s i) = (sc_remaining s)[i := sc_remaining s ! i - 1]"
  "i < length (sc_remaining s) \<Longrightarrow>
     sc_ready (release b s i) = sc_ready s @ (if sc_remaining s ! i = 1 then [i] else [])"
  by (auto simp: release_def Let_def)

lemma foldl_release_fields:
  "sc_probes (foldl (release b) s xs) = sc_probes s" "sc_dependents (foldl (release b) s xs) = sc_dependents s"
  "sc_started (foldl (release b) s xs) = sc_started s" "sc_completed (foldl (release b) s xs) = sc_completed s"
  "sc_head (foldl (release b) s xs) = sc_head s"
  "length (sc_blocked (foldl (release b) s xs)) = length (sc_blocked s)"
  "length (sc_remaining (foldl (release b) s xs)) = length (sc_remaining s)"
  by (induction xs arbitrary: s) (simp_all add: release_fields)

lemma nth_updated: "j < length xs \<Longrightarrow> xs[i := v] ! j = (if i = j then v else xs ! j)"
  by (cases "i = j") auto

lemma foldl_release_counts:
  "i < length (sc_remaining s) \<Longrightarrow>
     sc_remaining (foldl (release b) s xs) ! i = sc_remaining s ! i - int (count_list xs i)"
  "i < length (sc_blocked s) \<Longrightarrow>
     sc_blocked (foldl (release b) s xs) ! i \<longleftrightarrow> sc_blocked s ! i \<or> b \<and> i \<in> set xs"
  by (induction xs arbitrary: s) (auto simp: release_fields nth_updated)

lemma foldl_release_ready:
  assumes "set xs \<subseteq> {..<length (sc_remaining s)}" "\<And>i. i \<in> set xs \<Longrightarrow> int (count_list xs i) \<le> sc_remaining s ! i"
  shows "\<exists>new. sc_ready (foldl (release b) s xs) = sc_ready s @ new \<and> distinct new
    \<and> set new = {i \<in> set xs. sc_remaining s ! i = int (count_list xs i)}"
  using assms
proof (induction xs arbitrary: s)
  case (Cons x xs)
  let ?s = "release b s x"
  have x: "x < length (sc_remaining s)" using Cons.prems(1) by simp
  have rem: "sc_remaining ?s ! i = sc_remaining s ! i - (if i = x then 1 else 0)" if "i < length (sc_remaining s)" for i
    using x that by (simp add: release_fields nth_list_update)
  have lt: "i < length (sc_remaining s)" if "i \<in> set xs" for i
    using Cons.prems(1) that by auto
  have "\<exists>new. sc_ready (foldl (release b) ?s xs) = sc_ready ?s @ new \<and> distinct new
      \<and> set new = {i \<in> set xs. sc_remaining ?s ! i = int (count_list xs i)}"
  proof (rule Cons.IH)
    show "set xs \<subseteq> {..<length (sc_remaining ?s)}"
      using Cons.prems(1) by (simp add: release_fields)
    show "int (count_list xs i) \<le> sc_remaining ?s ! i" if "i \<in> set xs" for i
      using Cons.prems(2) [of i] that rem [OF lt [OF that]] by (auto split: if_splits)
  qed
  then obtain new where new: "sc_ready (foldl (release b) ?s xs) = sc_ready ?s @ new" "distinct new"
    "set new = {i \<in> set xs. sc_remaining ?s ! i = int (count_list xs i)}" by blast
  have once: "x \<notin> set xs" if "sc_remaining s ! x = 1"
    using Cons.prems(2) [of x] that by (auto simp: count_list_0_iff [symmetric])
  have cnt: "sc_remaining ?s ! i = int (count_list xs i) \<longleftrightarrow> sc_remaining s ! i = int (count_list (x # xs) i)"
    if "i \<in> set xs" for i
    using rem [OF lt [OF that]] by (cases "i = x") auto
  have set_new: "set new = {i \<in> set xs. sc_remaining s ! i = int (count_list (x # xs) i)}"
    unfolding new(3) using cnt by blast
  show ?case
  proof (cases "sc_remaining s ! x = 1")
    case True
    then have "count_list xs x = 0" "x \<notin> set new"
      using once new(3) by (simp_all add: count_list_0_iff)
    then have "set (x # new) = {i \<in> set (x # xs). sc_remaining s ! i = int (count_list (x # xs) i)}"
      unfolding list.set(2) set_new using True by auto
    moreover have "sc_ready (foldl (release b) s (x # xs)) = sc_ready s @ (x # new)"
      using new(1) x True by (simp add: release_fields)
    ultimately show ?thesis
      using new(2) \<open>x \<notin> set new\<close> by (intro exI [of _ "x # new"]) simp
  next
    case False
    have "x \<in> set xs" if "sc_remaining s ! x = int (count_list (x # xs) x)"
    proof (rule ccontr)
      assume "x \<notin> set xs"
      then show False
        using that False by (simp add: count_list_0_iff)
    qed
    then have "set new = {i \<in> set (x # xs). sc_remaining s ! i = int (count_list (x # xs) i)}"
      unfolding list.set(2) set_new by blast
    moreover have "sc_ready (foldl (release b) s (x # xs)) = sc_ready s @ new"
      using new(1) x False by (simp add: release_fields)
    ultimately show ?thesis
      using new(2) by blast
  qed
qed simp

section \<open>The invariant\<close>

text \<open>The occurrences of dependencies without a result.\<close>

definition open_deps :: "probe \<Rightarrow> string set \<Rightarrow> nat" where
  "open_deps p C = length (filter (\<lambda>d. d \<notin> C) (pr_deps p))"

lemma open_deps_zero: "open_deps p C = 0 \<longleftrightarrow> set (pr_deps p) \<subseteq> C"
  by (auto simp: open_deps_def filter_empty_conv)

lemma open_deps_insert:
  "d \<notin> C \<Longrightarrow> open_deps p C = open_deps p (insert d C) + count_list (pr_deps p) d"
proof -
  assume d: "d \<notin> C"
  have "length (filter (\<lambda>x. x \<notin> C) xs) = length (filter (\<lambda>x. x \<notin> insert d C) xs) + count_list xs d" for xs
    using d by (induction xs) auto
  then show ?thesis by (simp add: open_deps_def)
qed

text \<open>The counts and the queue of the scheduler, over the results the executor has recorded.\<close>

definition sched_inv :: "probe list \<Rightarrow> (string \<Rightarrow> 'a probe_result option) \<Rightarrow> scheduler \<Rightarrow> bool" where
  "sched_inv ps res s \<longleftrightarrow>
     sc_probes s = ps \<and> sc_completed s = dom res
     \<and> length (sc_remaining s) = length ps \<and> length (sc_blocked s) = length ps
     \<and> (\<forall>i<length ps. sc_remaining s ! i = int (open_deps (ps ! i) (dom res)))
     \<and> (\<forall>i<length ps. sc_blocked s ! i \<longleftrightarrow> (\<exists>d\<in>set (pr_deps (ps ! i)). \<exists>r. res d = Some r \<and> blocks r))
     \<and> (\<forall>d. d \<notin> dom res \<longrightarrow> set (sc_dependents s d) \<subseteq> {..<length ps}
          \<and> (\<forall>i<length ps. count_list (sc_dependents s d) i = count_list (pr_deps (ps ! i)) d))
     \<and> distinct (sc_ready s) \<and> set (sc_ready s) = {i. i < length ps \<and> set (pr_deps (ps ! i)) \<subseteq> dom res}
     \<and> head_started s"

lemma sched_invD:
  assumes "sched_inv ps res s"
  shows "sc_probes s = ps" "sc_completed s = dom res"
    "i < length ps \<Longrightarrow> sc_blocked s ! i \<longleftrightarrow> (\<exists>d\<in>set (pr_deps (ps ! i)). \<exists>r. res d = Some r \<and> blocks r)"
    "set (sc_ready s) = {i. i < length ps \<and> set (pr_deps (ps ! i)) \<subseteq> dom res}" "head_started s"
  using assms by (auto simp: sched_inv_def)

lemma sched_inv_next:
  assumes "sched_inv ps res s" "next_probe s = (s', x)"
  shows "sched_inv ps res s'"
  using assms next_probe_fields [OF assms(2)] next_probe_head [OF _ assms(2)] by (simp add: sched_inv_def)

lemma head_started_append:
  assumes "head_started s" "sc_probes s' = sc_probes s" "sc_started s' = sc_started s" "sc_head s' = sc_head s"
    "sc_ready s' = sc_ready s @ new"
  shows "head_started s'"
  using assms by (auto simp: head_started_def nth_append)

lemma sched_inv_complete:
  assumes inv: "sched_inv ps res s" and d: "res (rs_id r) = None"
  shows "sched_inv ps (res(rs_id r \<mapsto> r)) (complete_probe s r)"
proof -
  let ?d = "rs_id r" and ?res = "res(rs_id r \<mapsto> r)"
  let ?s = "s\<lparr>sc_completed := insert ?d (sc_completed s)\<rparr>" and ?xs = "sc_dependents s (rs_id r)"
  have nd: "?d \<notin> dom res" using d by auto
  have c: "complete_probe s r = foldl (release (blocks r)) ?s ?xs"
    using inv nd by (simp add: complete_probe_def sched_inv_def)
  have len: "length (sc_remaining s) = length ps" "length (sc_blocked s) = length ps"
    and xs: "set ?xs \<subseteq> {..<length ps}" "\<And>i. i < length ps \<Longrightarrow> count_list ?xs i = count_list (pr_deps (ps ! i)) ?d"
    and rem: "\<And>i. i < length ps \<Longrightarrow> sc_remaining s ! i = int (open_deps (ps ! i) (dom res))"
    using inv nd by (auto simp: sched_inv_def)
  have op: "open_deps (ps ! i) (dom res) = open_deps (ps ! i) (dom ?res) + count_list ?xs i" if "i < length ps" for i
    using open_deps_insert [OF nd, of "ps ! i"] xs(2) [OF that] by simp
  have mem: "i \<in> set ?xs \<longleftrightarrow> ?d \<in> set (pr_deps (ps ! i))" if "i < length ps" for i
    using xs(2) [OF that] by (metis count_list_0_iff)
  obtain new where new: "sc_ready (complete_probe s r) = sc_ready s @ new" "distinct new"
    "set new = {i \<in> set ?xs. sc_remaining s ! i = int (count_list ?xs i)}"
  proof -
    have "\<exists>new. sc_ready (foldl (release (blocks r)) ?s ?xs) = sc_ready ?s @ new \<and> distinct new
        \<and> set new = {i \<in> set ?xs. sc_remaining ?s ! i = int (count_list ?xs i)}"
      by (rule foldl_release_ready) (use xs len rem op in auto)
    with c that show thesis by auto
  qed
  have set_new: "set new = {i. i < length ps \<and> set (pr_deps (ps ! i)) \<subseteq> dom ?res \<and> \<not> set (pr_deps (ps ! i)) \<subseteq> dom res}"
  proof -
    have "i \<in> set new \<longleftrightarrow> i < length ps \<and> set (pr_deps (ps ! i)) \<subseteq> dom ?res \<and> \<not> set (pr_deps (ps ! i)) \<subseteq> dom res" for i
    proof (cases "i < length ps")
      case True
      then have "i \<in> set new \<longleftrightarrow> ?d \<in> set (pr_deps (ps ! i)) \<and> open_deps (ps ! i) (dom ?res) = 0"
        unfolding new(3) using mem rem op by simp
      then show ?thesis
        unfolding open_deps_zero using True nd by auto
    qed (use new(3) xs(1) in auto)
    then show ?thesis by blast
  qed
  have blk: "(\<exists>d\<in>D. \<exists>x. ?res d = Some x \<and> blocks x) \<longleftrightarrow>
      (\<exists>d\<in>D. \<exists>x. res d = Some x \<and> blocks x) \<or> blocks r \<and> ?d \<in> D" for D
    using d by (metis fun_upd_apply option.distinct(1) option.inject)
  show ?thesis
    unfolding sched_inv_def
  proof (intro conjI allI impI)
    show "sc_probes (complete_probe s r) = ps" "sc_completed (complete_probe s r) = dom ?res"
      "length (sc_remaining (complete_probe s r)) = length ps" "length (sc_blocked (complete_probe s r)) = length ps"
      using inv by (simp_all add: c foldl_release_fields sched_inv_def)
    show "sc_remaining (complete_probe s r) ! i = int (open_deps (ps ! i) (dom ?res))" if "i < length ps" for i
      using that len rem op by (simp add: c foldl_release_counts)
    show "sc_blocked (complete_probe s r) ! i \<longleftrightarrow> (\<exists>d\<in>set (pr_deps (ps ! i)). \<exists>x. ?res d = Some x \<and> blocks x)"
      if "i < length ps" for i
      unfolding blk c using that len mem [OF that] sched_invD(3) [OF inv that]
      by (simp add: foldl_release_counts)
    show "set (sc_dependents (complete_probe s r) d') \<subseteq> {..<length ps}"
      "i < length ps \<Longrightarrow> count_list (sc_dependents (complete_probe s r) d') i = count_list (pr_deps (ps ! i)) d'"
      if "d' \<notin> dom ?res" for d' i
      using inv that by (auto simp: c foldl_release_fields sched_inv_def)
    show "distinct (sc_ready (complete_probe s r))"
      "set (sc_ready (complete_probe s r)) = {i. i < length ps \<and> set (pr_deps (ps ! i)) \<subseteq> dom ?res}"
      using inv new(1,2) set_new by (auto simp: sched_inv_def)
    show "head_started (complete_probe s r)"
      by (rule head_started_append [where s = s and new = new])
        (use inv new(1) in \<open>auto simp: c foldl_release_fields sched_inv_def\<close>)
  qed
qed

section \<open>The initial scheduler\<close>

text \<open>The scheduler after the first probes, in a pass without earlier results.\<close>

definition built :: "probe list \<Rightarrow> nat \<Rightarrow> scheduler \<Rightarrow> bool" where
  "built ps k s \<longleftrightarrow>
     sc_probes s = ps \<and> sc_completed s = {} \<and> sc_started s = {} \<and> sc_head s = 0
     \<and> sc_blocked s = replicate (length ps) False \<and> length (sc_remaining s) = length ps
     \<and> (\<forall>i<length ps. sc_remaining s ! i = (if i < k then int (length (pr_deps (ps ! i))) else 0))
     \<and> (\<forall>d. set (sc_dependents s d) \<subseteq> {..<k}
          \<and> (\<forall>i<k. count_list (sc_dependents s d) i = count_list (pr_deps (ps ! i)) d))
     \<and> distinct (sc_ready s) \<and> set (sc_ready s) = {i. i < k \<and> pr_deps (ps ! i) = []}"

lemma add_deps:
  assumes "i < length (sc_remaining s)"
  shows "foldl (add_dep (\<lambda>_. None :: 'a probe_result option) i) s ds =
    s\<lparr>sc_remaining := (sc_remaining s)[i := sc_remaining s ! i + int (length ds)],
      sc_dependents := (\<lambda>d. sc_dependents s d @ replicate (count_list ds d) i)\<rparr>"
  using assms
proof (induction ds arbitrary: s)
  case (Cons d ds)
  let ?add = "add_dep (\<lambda>_. None :: 'a probe_result option) i"
  have s: "?add s d = s\<lparr>sc_remaining := (sc_remaining s)[i := sc_remaining s ! i + 1],
      sc_dependents := (sc_dependents s)(d := sc_dependents s d @ [i])\<rparr>"
    by (simp add: add_dep_def)
  have "foldl ?add (?add s d) ds =
    (?add s d)\<lparr>sc_remaining := (sc_remaining (?add s d))[i := sc_remaining (?add s d) ! i + int (length ds)],
      sc_dependents := (\<lambda>d'. sc_dependents (?add s d) d' @ replicate (count_list ds d') i)\<rparr>"
    by (rule Cons.IH) (use Cons.prems in \<open>simp add: s\<close>)
  also have "\<dots> = s\<lparr>sc_remaining := (sc_remaining s)[i := sc_remaining s ! i + int (length (d # ds))],
      sc_dependents := (\<lambda>d'. sc_dependents s d' @ replicate (count_list (d # ds) d') i)\<rparr>"
    unfolding s using Cons.prems by (intro scheduler.equality) (auto simp: fun_eq_iff add.assoc)
  finally show ?case by simp
qed (simp add: fun_eq_iff)

lemma built_step:
  assumes "built ps k s" "k < length ps"
  shows "built ps (Suc k) (add_probe (\<lambda>_. None :: 'a probe_result option) s (k, ps ! k))"
proof -
  have k: "k < length (sc_remaining s)" "sc_remaining s ! k = 0" "k \<notin> set (sc_ready s)"
    "\<And>d. count_list (sc_dependents s d) k = 0"
    using assms by (auto simp: built_def count_list_0_iff)
  have sub: "x \<in> set (sc_dependents s d) \<Longrightarrow> x < k" for x d
    using assms by (auto simp: built_def)
  have c: "count_list (replicate n i) j = (if i = j then n else 0)" for n and i j :: nat
    by (induction n) auto
  show ?thesis
    using assms k
    by (auto simp: built_def add_probe_def add_deps Let_def nth_updated less_Suc_eq c count_list_append
        dest: sub split: if_splits)
qed

lemma zip_upt_nth: "k < length ps \<Longrightarrow> zip [0..<length ps] ps ! k = (k, ps ! k)"
  by simp

lemma built_take:
  "k \<le> length ps \<Longrightarrow> built ps k (foldl (add_probe (\<lambda>_. None :: 'a probe_result option)) (empty_scheduler ps {} {})
     (take k (zip [0..<length ps] ps)))"
proof (induction k)
  case 0
  then show ?case by (simp add: built_def empty_scheduler_def)
next
  case (Suc k)
  then have "built ps (Suc k) (add_probe (\<lambda>_. None :: 'a probe_result option)
      (foldl (add_probe (\<lambda>_. None :: 'a probe_result option)) (empty_scheduler ps {} {})
        (take k (zip [0..<length ps] ps))) (k, ps ! k))"
    by (intro built_step) auto
  with Suc.prems show ?case
    by (simp add: take_Suc_conv_app_nth)
qed

lemma sched_inv_start: "sched_inv ps (\<lambda>_. None :: 'a probe_result option) (new_scheduler ps {} (\<lambda>_. None :: 'a probe_result option))"
proof -
  have "built ps (length ps) (new_scheduler ps {} (\<lambda>_. None :: 'a probe_result option))"
    using built_take [of "length ps" ps] by (simp add: new_scheduler_def)
  then show ?thesis
    by (auto simp: built_def sched_inv_def open_deps_def head_started_def dom_def)
qed

lemma new_scheduler_started: "sc_started (new_scheduler ps {} (\<lambda>_. None :: 'a probe_result option)) = {}"
  using built_take [of "length ps" ps, where 'a = 'a] by (simp add: new_scheduler_def built_def)

section \<open>The executor\<close>

text \<open>The names whose dependencies can be met: the least set closed under the probes.\<close>

inductive grounded :: "probe list \<Rightarrow> string \<Rightarrow> bool" for ps where
  Probe: "p \<in> set ps \<Longrightarrow> (\<And>d. d \<in> set (pr_deps p) \<Longrightarrow> grounded ps d) \<Longrightarrow> grounded ps (pr_id p)"

text \<open>A result is explained by a probe whose dependencies are all done: skipped when one of
  them blocks, and otherwise what its worker may send for those results.\<close>

definition explained ::
  "(probe \<Rightarrow> (string \<Rightarrow> 'a probe_result option) \<Rightarrow> 'a probe_result \<Rightarrow> bool) \<Rightarrow> probe list \<Rightarrow>
   (string \<Rightarrow> 'a probe_result option) \<Rightarrow> 'a probe_result \<Rightarrow> bool" where
  "explained outcome ps res r \<longleftrightarrow>
     (\<exists>p\<in>set ps. pr_id p = rs_id r \<and> set (pr_deps p) \<subseteq> dom res
        \<and> (if \<exists>d\<in>set (pr_deps p). \<exists>x. res d = Some x \<and> blocks x then r = skip_prereq (pr_id p)
           else \<exists>r0. outcome p (deps_of p res) r0 \<and> r = r0\<lparr>rs_id := pr_id p\<rparr>))"

definition worker_ok :: "probe list \<Rightarrow> (string \<Rightarrow> 'a probe_result option) \<Rightarrow> 'a worker \<Rightarrow> bool" where
  "worker_ok ps res w \<longleftrightarrow>
     fst w \<in> set ps \<and> set (pr_deps (fst w)) \<subseteq> dom res
     \<and> (\<forall>d\<in>set (pr_deps (fst w)). \<forall>x. res d = Some x \<longrightarrow> \<not> blocks x)
     \<and> snd w = deps_of (fst w) res"

abbreviation worker_id :: "'a worker \<Rightarrow> string" where
  "worker_id w \<equiv> pr_id (fst w)"

definition run_inv ::
  "(probe \<Rightarrow> (string \<Rightarrow> 'a probe_result option) \<Rightarrow> 'a probe_result \<Rightarrow> bool) \<Rightarrow> probe list \<Rightarrow> 'a run_state \<Rightarrow> bool" where
  "run_inv outcome ps s \<longleftrightarrow>
     sched_inv ps (ru_results s) (ru_sched s)
     \<and> sc_started (ru_sched s) = dom (ru_results s) \<union> worker_id ` set (ru_running s)
     \<and> distinct (map worker_id (ru_running s))
     \<and> (\<forall>w\<in>set (ru_running s). worker_ok ps (ru_results s) w \<and> ru_results s (worker_id w) = None)
     \<and> (\<forall>i r. ru_results s i = Some r \<longrightarrow> rs_id r = i \<and> explained outcome ps (ru_results s) r)"

lemma run_inv_worker:
  assumes "run_inv outcome ps s" "w \<in> set (ru_running s)"
  shows "worker_ok ps (ru_results s) w" "ru_results s (worker_id w) = None"
  using assms unfolding run_inv_def by blast+

text \<open>A new result changes nothing about the probes that were ready before it.\<close>

lemma deps_of_extend: "set (pr_deps p) \<subseteq> dom res \<Longrightarrow> res i = None \<Longrightarrow> deps_of p (res(i \<mapsto> r)) = deps_of p res"
  by (auto simp: deps_of_def fun_eq_iff)

lemma worker_ok_extend: "worker_ok ps res w \<Longrightarrow> res i = None \<Longrightarrow> worker_ok ps (res(i \<mapsto> r)) w"
  using deps_of_extend [of "fst w" res i r] by (auto simp: worker_ok_def)

lemma explained_extend:
  assumes "explained outcome ps res x" "res i = None"
  shows "explained outcome ps (res(i \<mapsto> r)) x"
proof -
  obtain p where p: "p \<in> set ps" "pr_id p = rs_id x" "set (pr_deps p) \<subseteq> dom res"
    and x: "if \<exists>d\<in>set (pr_deps p). \<exists>x. res d = Some x \<and> blocks x then x = skip_prereq (pr_id p)
           else \<exists>r0. outcome p (deps_of p res) r0 \<and> x = r0\<lparr>rs_id := pr_id p\<rparr>"
    using assms(1) unfolding explained_def by blast
  have same: "(res(i \<mapsto> r)) d = res d" if "d \<in> set (pr_deps p)" for d
    using p(3) that assms(2) by auto
  have "(\<exists>d\<in>set (pr_deps p). \<exists>x. (res(i \<mapsto> r)) d = Some x \<and> blocks x) \<longleftrightarrow>
      (\<exists>d\<in>set (pr_deps p). \<exists>x. res d = Some x \<and> blocks x)"
    using same by auto
  then have "if \<exists>d\<in>set (pr_deps p). \<exists>x. (res(i \<mapsto> r)) d = Some x \<and> blocks x then x = skip_prereq (pr_id p)
      else \<exists>r0. outcome p (deps_of p (res(i \<mapsto> r))) r0 \<and> x = r0\<lparr>rs_id := pr_id p\<rparr>"
    unfolding deps_of_extend [OF p(3) assms(2)] using x by (simp only:)
  moreover have "set (pr_deps p) \<subseteq> dom (res(i \<mapsto> r))"
    using p(3) by auto
  ultimately show ?thesis
    unfolding explained_def using p(1,2) by blast
qed

lemma set_drop_nth:
  assumes "k < length xs" "distinct (map f xs)"
  shows "set (drop_nth k xs) \<subseteq> set xs" "f ` set (drop_nth k xs) = f ` set xs - {f (xs ! k)}"
    "distinct (map f (drop_nth k xs))"
proof -
  have "set (ys @ zs) \<subseteq> set xs \<and> f ` set (ys @ zs) = f ` set xs - {f x} \<and> distinct (map f (ys @ zs))"
    if "xs = ys @ x # zs" for ys x zs
    using assms(2) unfolding that by (auto, (metis image_eqI)+)
  from this [OF id_take_nth_drop [OF assms(1)]]
  show "set (drop_nth k xs) \<subseteq> set xs" "f ` set (drop_nth k xs) = f ` set xs - {f (xs ! k)}"
    "distinct (map f (drop_nth k xs))"
    by (simp_all add: drop_nth_def)
qed

lemma complete_started: "sc_started (complete_probe s r) = sc_started s"
  by (simp add: complete_probe_def foldl_release_fields)

lemma run_inv_start: "run_inv outcome ps (start_run ps)"
  by (simp add: run_inv_def start_run_def sched_inv_start new_scheduler_started)

text \<open>What a dispatched probe is: its dependencies are done, and its flag says whether one of
  them blocks.\<close>

lemma dispatched:
  assumes inv: "run_inv outcome ps s" and n: "next_probe (ru_sched s) = (sc, Some (i, b))"
  shows "ps ! i \<in> set ps" "sc_probes sc ! i = ps ! i" "set (pr_deps (ps ! i)) \<subseteq> dom (ru_results s)"
    "b \<longleftrightarrow> (\<exists>d\<in>set (pr_deps (ps ! i)). \<exists>r. ru_results s d = Some r \<and> blocks r)"
    "ru_results s (pr_id (ps ! i)) = None" "pr_id (ps ! i) \<notin> worker_id ` set (ru_running s)"
    "sc_started sc = insert (pr_id (ps ! i)) (sc_started (ru_sched s))" "sched_inv ps (ru_results s) sc"
proof -
  have si: "sched_inv ps (ru_results s) (ru_sched s)"
    using inv by (simp add: run_inv_def)
  note D = sched_invD [OF si]
  have i: "i < length ps" "set (pr_deps (ps ! i)) \<subseteq> dom (ru_results s)"
    using next_probe_some [OF n] D(4) by auto
  then show "ps ! i \<in> set ps" "set (pr_deps (ps ! i)) \<subseteq> dom (ru_results s)" by auto
  show "sc_probes sc ! i = ps ! i"
    using next_probe_fields [OF n] D(1) by simp
  show "b \<longleftrightarrow> (\<exists>d\<in>set (pr_deps (ps ! i)). \<exists>r. ru_results s d = Some r \<and> blocks r)"
    using next_probe_some [OF n] D(3) [OF i(1)] by simp
  have "pr_id (ps ! i) \<notin> dom (ru_results s) \<union> worker_id ` set (ru_running s)"
    using next_probe_some [OF n] D(1) inv unfolding run_inv_def by simp
  then show "ru_results s (pr_id (ps ! i)) = None" "pr_id (ps ! i) \<notin> worker_id ` set (ru_running s)" by auto
  show "sc_started sc = insert (pr_id (ps ! i)) (sc_started (ru_sched s))"
    using next_probe_some [OF n] D(1) by simp
  show "sched_inv ps (ru_results s) sc"
    by (rule sched_inv_next [OF si n])
qed

text \<open>A new result keeps the invariant when it is explained and its name is free.\<close>

lemma run_inv_result:
  assumes inv: "run_inv outcome ps s" and sc: "sched_inv ps (ru_results s) sc"
    and free: "ru_results s (rs_id r) = None" and ex: "explained outcome ps (ru_results s) r"
    and st: "sc_started sc = insert (rs_id r) (dom (ru_results s) \<union> worker_id ` set run)"
    and run: "set run \<subseteq> set (ru_running s)" "distinct (map worker_id run)" "rs_id r \<notin> worker_id ` set run"
  shows "run_inv outcome ps \<lparr>ru_sched = complete_probe sc r, ru_results = (ru_results s)(rs_id r \<mapsto> r), ru_running = run\<rparr>"
proof -
  note keep = explained_extend [where res = "ru_results s" and i = "rs_id r" and r = r, OF _ free]
  note work = worker_ok_extend [where res = "ru_results s" and i = "rs_id r" and r = r, OF _ free]
  have res: "rs_id x = i \<and> explained outcome ps ((ru_results s)(rs_id r \<mapsto> r)) x"
    if "((ru_results s)(rs_id r \<mapsto> r)) i = Some x" for i x
  proof (cases "i = rs_id r")
    case True
    then show ?thesis
      using that keep [OF ex] by simp
  next
    case False
    then have "ru_results s i = Some x" using that by simp
    then show ?thesis
      using inv keep unfolding run_inv_def by blast
  qed
  have ok: "worker_ok ps ((ru_results s)(rs_id r \<mapsto> r)) w \<and> ((ru_results s)(rs_id r \<mapsto> r)) (worker_id w) = None"
    if "w \<in> set run" for w
  proof -
    have "worker_id w \<noteq> rs_id r" using run(3) that by (metis imageI)
    moreover have "worker_ok ps (ru_results s) w" "ru_results s (worker_id w) = None"
      by (rule run_inv_worker [OF inv subsetD [OF run(1) that]])+
    ultimately show ?thesis
      using work [of ps w] by simp
  qed
  have "sc_started (complete_probe sc r) = dom ((ru_results s)(rs_id r \<mapsto> r)) \<union> worker_id ` set run"
    unfolding complete_started st by auto
  then show ?thesis
    unfolding run_inv_def run_state.simps using sched_inv_complete [OF sc free] res ok run(2) by blast
qed

lemma skip_id [simp]: "rs_id (skip_prereq i :: 'a probe_result) = i"
  by (simp add: skip_prereq_def)

lemma run_inv_skip:
  fixes s :: "'a run_state"
  assumes inv: "run_inv outcome ps s" and n: "next_probe (ru_sched s) = (sc, Some (i, True))"
  shows "run_inv outcome ps (record_skip s sc i)"
proof -
  note d = dispatched [OF inv n]
  let ?r = "skip_prereq (pr_id (ps ! i)) :: 'a probe_result"
  have "explained outcome ps (ru_results s) ?r"
    unfolding explained_def using d(1,3,4) by (intro bexI [OF _ d(1)]) simp
  then have "run_inv outcome ps \<lparr>ru_sched = complete_probe sc ?r, ru_results = (ru_results s)(rs_id ?r \<mapsto> ?r),
      ru_running = ru_running s\<rparr>"
    using d inv by (intro run_inv_result) (auto simp: run_inv_def)
  then show ?thesis
    unfolding record_skip_def Let_def d(2) by (cases s) simp
qed

lemma run_inv_launch:
  assumes inv: "run_inv outcome ps s" and n: "next_probe (ru_sched s) = (sc, Some (i, False))"
  shows "run_inv outcome ps (launch s sc i)"
proof -
  note d = dispatched [OF inv n]
  have "worker_ok ps (ru_results s) (ps ! i, deps_of (ps ! i) (ru_results s))"
    using d(1,3,4) by (simp add: worker_ok_def)
  then show ?thesis
    using inv d unfolding run_inv_def launch_def Let_def by simp
qed

lemma run_inv_receive:
  fixes s :: "'a run_state"
  assumes inv: "run_inv outcome ps s" and n: "next_probe (ru_sched s) = (sc, None)"
    and k: "k < length (ru_running s)" "ru_running s ! k = (p, deps)" and r: "outcome p deps r"
  shows "run_inv outcome ps (receive s sc k r)"
proof -
  let ?r = "r\<lparr>rs_id := pr_id p\<rparr>" and ?run = "drop_nth k (ru_running s)"
  have w: "worker_ok ps (ru_results s) (p, deps)" "ru_results s (pr_id p) = None" "(p, deps) \<in> set (ru_running s)"
    using inv k nth_mem [OF k(1)] by (auto simp: run_inv_def)
  have si: "sched_inv ps (ru_results s) sc"
    using inv sched_inv_next [where ps = ps and res = "ru_results s", OF _ n] by (simp add: run_inv_def)
  have dn: "distinct (map worker_id (ru_running s))"
    using inv by (simp add: run_inv_def)
  note dr = set_drop_nth [OF k(1) dn]
  have ex: "explained outcome ps (ru_results s) ?r"
    unfolding explained_def using w(1) r by (intro bexI [of _ p]) (auto simp: worker_ok_def)
  have st: "sc_started sc = insert (rs_id ?r) (dom (ru_results s) \<union> worker_id ` set ?run)"
  proof -
    have "sc_started sc = dom (ru_results s) \<union> worker_id ` set (ru_running s)"
      using inv next_probe_none [OF n] by (simp add: run_inv_def)
    also have "\<dots> = insert (pr_id p) (dom (ru_results s) \<union> worker_id ` set ?run)"
      using w(3) unfolding dr(2) k(2) by force
    finally show ?thesis by simp
  qed
  have "run_inv outcome ps \<lparr>ru_sched = complete_probe sc ?r, ru_results = (ru_results s)(rs_id ?r \<mapsto> ?r), ru_running = ?run\<rparr>"
    by (rule run_inv_result [OF inv si _ ex st]) (use w(2) dr k(2) in auto)
  then show ?thesis
    unfolding receive_def Let_def k(2) by (cases s) simp
qed

lemma run_inv_reach: "run_reach outcome ps n s \<Longrightarrow> run_inv outcome ps s"
proof (induction rule: run_reach.induct)
  case (Turn n s s')
  from Turn.hyps(2) Turn.IH show ?case
    by (cases rule: run_step.cases) (auto intro: run_inv_skip run_inv_launch run_inv_receive)
qed (rule run_inv_start)

section \<open>What a run does\<close>

lemma deps_state_ready:
  "set ds \<subseteq> dom res \<Longrightarrow> deps_state ds res b = (True, b \<or> (\<exists>d\<in>set ds. \<exists>r. res d = Some r \<and> blocks r))"
  by (induction ds arbitrary: b) auto

lemma deps_state_open: "\<not> set ds \<subseteq> dom res \<Longrightarrow> deps_state ds res b = (False, False)"
  by (induction ds arbitrary: b) (auto split: option.splits)

text \<open>
  C38. In every reachable state of the executor a worker runs only for a probe of the pass
  whose dependencies all have results none of which blocks, as the scan of the dependencies
  would say, it was handed exactly those results, its own result is not recorded yet, and no
  two workers run under one name.
\<close>

theorem workers_ready:
  assumes "run_reach outcome ps n s" "(p, deps) \<in> set (ru_running s)"
  shows "p \<in> set ps \<and> deps_state (pr_deps p) (ru_results s) False = (True, False)
    \<and> deps = deps_of p (ru_results s) \<and> ru_results s (pr_id p) = None
    \<and> distinct (map worker_id (ru_running s))"
proof -
  have inv: "run_inv outcome ps s" by (rule run_inv_reach [OF assms(1)])
  then have w: "worker_ok ps (ru_results s) (p, deps)" "ru_results s (pr_id p) = None"
    "distinct (map worker_id (ru_running s))"
    using assms(2) by (auto simp: run_inv_def)
  then have "deps_state (pr_deps p) (ru_results s) False = (True, False)"
    by (subst deps_state_ready) (auto simp: worker_ok_def)
  with w show ?thesis by (simp add: worker_ok_def)
qed

lemma results_grounded:
  assumes "run_reach outcome ps n s"
  shows "ru_results s i = Some r \<Longrightarrow> grounded ps i"
  using assms
proof (induction arbitrary: i r rule: run_reach.induct)
  case Start
  then show ?case by (simp add: start_run_def)
next
  case (Turn n s s')
  note inv = run_inv_reach [OF Turn.hyps(1)]
  have ground: "grounded ps (pr_id p)" if "p \<in> set ps" "set (pr_deps p) \<subseteq> dom (ru_results s)" for p
    using that Turn.IH by (intro grounded.Probe) auto
  from Turn.hyps(2) show ?case
  proof (cases rule: run_step.cases)
    case (Skip sc j)
    then show ?thesis
      using dispatched [OF inv Skip(2)] ground Turn.prems Turn.IH
      by (auto simp: record_skip_def Let_def split: if_splits)
  next
    case (Launch sc j)
    then show ?thesis
      using Turn.prems Turn.IH by (simp add: launch_def Let_def)
  next
    case (Receive sc k p deps r')
    then have "(p, deps) \<in> set (ru_running s)" by (metis nth_mem)
    then have "p \<in> set ps" "set (pr_deps p) \<subseteq> dom (ru_results s)"
      using run_inv_worker(1) [OF inv, of "(p, deps)"] by (simp_all add: worker_ok_def)
    with Receive show ?thesis
      using ground Turn.prems Turn.IH by (auto simp: receive_def Let_def split: if_splits)
  qed
qed

lemma done_grounded:
  assumes inv: "run_inv outcome ps s" and fin: "run_done s" and i: "grounded ps i"
  shows "i \<in> dom (ru_results s)"
  using i
proof (induction rule: grounded.induct)
  case (Probe p)
  obtain sc where n: "next_probe (ru_sched s) = (sc, None)"
    using fin unfolding run_done_def by (metis prod.collapse)
  obtain j where j: "j < length ps" "ps ! j = p"
    using Probe.hyps(1) by (metis in_set_conv_nth)
  have si: "sched_inv ps (ru_results s) (ru_sched s)"
    using inv by (simp add: run_inv_def)
  have "j \<in> set (sc_ready (ru_sched s))"
    using sched_invD(4) [OF si] j Probe.IH by auto
  then have "pr_id p \<in> sc_started (ru_sched s)"
    using next_probe_drained [OF sched_invD(5) [OF si] n] sched_invD(1) [OF si] j(2) by auto
  then show ?case
    using inv fin by (simp add: run_inv_def run_done_def)
qed

text \<open>Every turn starts a name or records one.\<close>

lemma run_names:
  assumes "run_inv outcome ps s"
  shows "sc_started (ru_sched s) \<subseteq> pr_id ` set ps" "dom (ru_results s) \<subseteq> pr_id ` set ps"
proof -
  have "i \<in> pr_id ` set ps" if "ru_results s i = Some r" for i r
    using assms that unfolding run_inv_def explained_def by (metis imageI)
  then have "dom (ru_results s) \<subseteq> pr_id ` set ps" by blast
  moreover have "worker_id ` set (ru_running s) \<subseteq> pr_id ` set ps"
    using assms by (auto simp: run_inv_def worker_ok_def)
  ultimately show "sc_started (ru_sched s) \<subseteq> pr_id ` set ps" "dom (ru_results s) \<subseteq> pr_id ` set ps"
    using assms by (auto simp: run_inv_def)
qed

lemma run_progress:
  assumes "run_reach outcome ps n s"
  shows "n \<le> card (sc_started (ru_sched s)) + card (dom (ru_results s))"
  using assms
proof (induction rule: run_reach.induct)
  case (Turn n s s')
  have inv: "run_inv outcome ps s" and inv': "run_inv outcome ps s'"
    using run_inv_reach Turn.hyps run_reach.Turn by blast+
  have fin: "finite (sc_started (ru_sched s'))" "finite (dom (ru_results s'))"
    using run_names [OF inv'] by (meson List.finite_set finite_imageI finite_subset)+
  have "sc_started (ru_sched s) \<subseteq> sc_started (ru_sched s') \<and> dom (ru_results s) \<subseteq> dom (ru_results s')
    \<and> (sc_started (ru_sched s) \<noteq> sc_started (ru_sched s') \<or> dom (ru_results s) \<noteq> dom (ru_results s'))"
    using Turn.hyps(2)
  proof (cases rule: run_step.cases)
    case (Skip sc j)
    moreover have "pr_id (ps ! j) \<notin> dom (ru_results s)"
      using dispatched(5) [OF inv Skip(2)] by (simp add: domIff)
    ultimately show ?thesis
      using dispatched [OF inv Skip(2)] by (auto simp: record_skip_def Let_def complete_started)
  next
    case (Launch sc j)
    then show ?thesis
      using dispatched(7) [OF inv Launch(2)] dispatched(2) [OF inv Launch(2)] next_probe_some [OF Launch(2)]
        next_probe_fields [OF Launch(2)] by (auto simp: launch_def Let_def)
  next
    case (Receive sc k p deps r)
    then have "(p, deps) \<in> set (ru_running s)" by (metis nth_mem)
    then have "ru_results s (pr_id p) = None"
      using run_inv_worker(2) [OF inv, of "(p, deps)"] by simp
    with Receive show ?thesis
      using next_probe_none [OF Receive(2)] by (auto simp: receive_def Let_def complete_started)
  qed
  then have "card (sc_started (ru_sched s)) + card (dom (ru_results s))
      < card (sc_started (ru_sched s')) + card (dom (ru_results s'))"
    using fin by (metis add_le_less_mono add_less_le_mono card_mono psubset_card_mono psubsetI)
  with Turn.IH show ?case by simp
qed simp

lemma run_bounded_turns:
  assumes "run_reach outcome ps n s"
  shows "n \<le> 2 * card (pr_id ` set ps)"
proof -
  note names = run_names [OF run_inv_reach [OF assms]]
  have "card (sc_started (ru_sched s)) \<le> card (pr_id ` set ps)" "card (dom (ru_results s)) \<le> card (pr_id ` set ps)"
    using names by (auto intro: card_mono)
  then show ?thesis
    using run_progress [OF assms] by simp
qed

lemma run_not_stuck:
  assumes "\<And>p deps. \<exists>r. outcome p deps r" "\<not> run_done s"
  shows "\<exists>s'. run_step outcome s s'"
proof (cases "next_probe (ru_sched s)")
  case (Pair sc x)
  show ?thesis
  proof (cases x)
    case None
    then obtain p deps ws where w: "ru_running s = (p, deps) # ws"
      using assms(2) Pair by (cases "ru_running s") (auto simp: run_done_def)
    obtain r where "outcome p deps r" using assms(1) by blast
    then show ?thesis
      using run_step.Receive [of s sc 0 p deps outcome r] Pair None w by auto
  next
    case (Some y)
    then show ?thesis
      using Pair run_step.Skip [of s sc "fst y" outcome] run_step.Launch [of s sc "fst y" outcome]
      by (cases y; cases "snd y") auto
  qed
qed

text \<open>
  C39. Every run of the executor ends: when a worker always sends some result, a state that is
  not done has a next turn, no run has more turns than twice the names of the pass, and a
  run that is done has recorded a result for exactly the names whose dependencies can be met.
  Names that wait for an unknown dependency or for themselves are the ones left out.
\<close>

theorem run_ends:
  assumes "\<And>p deps. \<exists>r. outcome p deps r" "run_reach outcome ps n s"
  shows "n \<le> 2 * card (pr_id ` set ps) \<and> (run_done s \<or> (\<exists>s'. run_step outcome s s'))
    \<and> (run_done s \<longrightarrow> dom (ru_results s) = {i. grounded ps i})"
proof -
  have "run_done s \<or> (\<exists>s'. run_step outcome s s')"
    using run_not_stuck [of outcome s] assms(1) by blast
  moreover have "dom (ru_results s) = {i. grounded ps i}" if "run_done s"
    using results_grounded [OF assms(2)] done_grounded [OF run_inv_reach [OF assms(2)] that] by blast
  ultimately show ?thesis
    using run_bounded_turns [OF assms(2)] by blast
qed

section \<open>Every order gives the same results\<close>

text \<open>
  The result of a pass, probe by probe along the dependencies and without any order: a probe
  with a blocking dependency is skipped, and any other is run on the results of its
  dependencies. The probe itself is the function \<open>f\<close>.
\<close>

inductive settles ::
  "(probe \<Rightarrow> (string \<Rightarrow> 'a probe_result option) \<Rightarrow> 'a probe_result) \<Rightarrow> probe list \<Rightarrow> string \<Rightarrow> 'a probe_result \<Rightarrow> bool"
  for f ps where
  Settle: "p \<in> set ps \<Longrightarrow> (\<And>d. d \<in> set (pr_deps p) \<Longrightarrow> settles f ps d (rs d)) \<Longrightarrow>
    r = (if \<exists>d\<in>set (pr_deps p). blocks (rs d) then skip_prereq (pr_id p)
         else (f p (\<lambda>d. if d \<in> set (pr_deps p) then Some (rs d) else None))\<lparr>rs_id := pr_id p\<rparr>) \<Longrightarrow>
    settles f ps (pr_id p) r"

definition function_outcome ::
  "(probe \<Rightarrow> (string \<Rightarrow> 'a probe_result option) \<Rightarrow> 'a probe_result) \<Rightarrow>
   probe \<Rightarrow> (string \<Rightarrow> 'a probe_result option) \<Rightarrow> 'a probe_result \<Rightarrow> bool" where
  "function_outcome f p deps r \<longleftrightarrow> r = f p deps"

lemma settles_grounded: "settles f ps i r \<Longrightarrow> grounded ps i"
  by (induction rule: settles.induct) (auto intro: grounded.Probe)

text \<open>The recorded results of a probe's dependencies are what its own result is made of.\<close>

definition made_of ::
  "(probe \<Rightarrow> (string \<Rightarrow> 'a probe_result option) \<Rightarrow> 'a probe_result) \<Rightarrow> (string \<Rightarrow> 'a probe_result option) \<Rightarrow>
   probe \<Rightarrow> 'a probe_result" where
  "made_of f res p =
     (if \<exists>d\<in>set (pr_deps p). \<exists>x. res d = Some x \<and> blocks x then skip_prereq (pr_id p)
      else (f p (deps_of p res))\<lparr>rs_id := pr_id p\<rparr>)"

lemma made_of_settles:
  assumes p: "p \<in> set ps" "set (pr_deps p) \<subseteq> dom res"
    and rs: "\<And>d x. d \<in> set (pr_deps p) \<Longrightarrow> res d = Some x \<Longrightarrow> settles f ps d x"
  shows "settles f ps (pr_id p) (made_of f res p)"
proof (rule settles.Settle [where rs = "\<lambda>d. the (res d)"])
  have some: "res d = Some (the (res d))" if "d \<in> set (pr_deps p)" for d
    using p(2) that by auto
  show "settles f ps d (the (res d))" if "d \<in> set (pr_deps p)" for d
    using rs [OF that some [OF that]] .
  have "(\<exists>d\<in>set (pr_deps p). \<exists>x. res d = Some x \<and> blocks x) \<longleftrightarrow> (\<exists>d\<in>set (pr_deps p). blocks (the (res d)))"
    using some by (metis option.sel)
  moreover have "deps_of p res = (\<lambda>d. if d \<in> set (pr_deps p) then Some (the (res d)) else None)"
    using some by (auto simp: deps_of_def fun_eq_iff)
  ultimately show "made_of f res p = (if \<exists>d\<in>set (pr_deps p). blocks (the (res d)) then skip_prereq (pr_id p)
         else (f p (\<lambda>d. if d \<in> set (pr_deps p) then Some (the (res d)) else None))\<lparr>rs_id := pr_id p\<rparr>)"
    by (simp only: made_of_def)
qed (rule p(1))

lemma explained_made_of:
  "explained (function_outcome f) ps res r \<longleftrightarrow>
     (\<exists>p\<in>set ps. pr_id p = rs_id r \<and> set (pr_deps p) \<subseteq> dom res \<and> r = made_of f res p)"
  unfolding explained_def made_of_def function_outcome_def by (rule bex_cong [OF refl]) auto

lemma results_settle:
  assumes "run_reach (function_outcome f) ps n s"
  shows "ru_results s i = Some r \<Longrightarrow> settles f ps i r"
  using assms
proof (induction arbitrary: i r rule: run_reach.induct)
  case Start
  then show ?case by (simp add: start_run_def)
next
  case (Turn n s s')
  note inv = run_inv_reach [OF Turn.hyps(1)]
  have settle: "settles f ps (pr_id p) (made_of f (ru_results s) p)"
    if "p \<in> set ps" "set (pr_deps p) \<subseteq> dom (ru_results s)" for p
    by (rule made_of_settles [OF that]) (rule Turn.IH)
  from Turn.hyps(2) show ?case
  proof (cases rule: run_step.cases)
    case (Skip sc j)
    note d = dispatched [OF inv Skip(2)]
    have "made_of f (ru_results s) (ps ! j) = skip_prereq (pr_id (ps ! j))"
      using d(4) by (simp add: made_of_def)
    then show ?thesis
      using settle [OF d(1,3)] Turn.prems Turn.IH d(2) unfolding Skip(1) record_skip_def Let_def
      by (cases "i = pr_id (ps ! j)") simp_all
  next
    case (Launch sc j)
    then show ?thesis
      using Turn.prems Turn.IH by (simp add: launch_def Let_def)
  next
    case (Receive sc k p deps r')
    then have "(p, deps) \<in> set (ru_running s)" by (metis nth_mem)
    then have w: "worker_ok ps (ru_results s) (p, deps)"
      using run_inv_worker(1) [OF inv] by blast
    then have "made_of f (ru_results s) p = r'\<lparr>rs_id := pr_id p\<rparr>"
      using Receive(5) by (auto simp: made_of_def worker_ok_def function_outcome_def)
    moreover have "settles f ps (pr_id p) (made_of f (ru_results s) p)"
      using w by (intro settle) (simp_all add: worker_ok_def)
    ultimately show ?thesis
      using Turn.prems Turn.IH Receive(4) unfolding Receive(1) receive_def Let_def
      by (cases "i = pr_id p") simp_all
  qed
qed

lemma distinct_names: "distinct (map pr_id ps) \<Longrightarrow> p \<in> set ps \<Longrightarrow> q \<in> set ps \<Longrightarrow> pr_id p = pr_id q \<Longrightarrow> p = q"
  by (metis distinct_map inj_onD)

lemma settles_recorded:
  assumes inv: "run_inv (function_outcome f) ps s" and fin: "run_done s" and ids: "distinct (map pr_id ps)"
  shows "settles f ps i r \<Longrightarrow> ru_results s i = Some r"
proof (induction rule: settles.induct)
  case (Settle p rs r)
  have "grounded ps (pr_id p)"
    by (rule grounded.Probe [OF Settle.hyps(1)]) (rule settles_grounded [OF Settle.hyps(2)])
  then obtain r' where r': "ru_results s (pr_id p) = Some r'"
    using done_grounded [OF inv fin] by blast
  then have "rs_id r' = pr_id p" "explained (function_outcome f) ps (ru_results s) r'"
    using inv unfolding run_inv_def by blast+
  then obtain q where q: "q \<in> set ps" "pr_id q = pr_id p" "r' = made_of f (ru_results s) q"
    unfolding explained_made_of by auto
  then have "q = p"
    using distinct_names [OF ids _ Settle.hyps(1)] by blast
  have same: "ru_results s d = Some (rs d)" if "d \<in> set (pr_deps p)" for d
    using Settle.IH that by blast
  have "deps_of p (ru_results s) = (\<lambda>d. if d \<in> set (pr_deps p) then Some (rs d) else None)"
    using same by (auto simp: deps_of_def fun_eq_iff)
  moreover have "(\<exists>d\<in>set (pr_deps p). \<exists>x. ru_results s d = Some x \<and> blocks x) \<longleftrightarrow> (\<exists>d\<in>set (pr_deps p). blocks (rs d))"
    using same by (metis option.inject)
  ultimately have "made_of f (ru_results s) p = r"
    unfolding made_of_def Settle.hyps(3) by (simp only:)
  then show ?case
    using r' q(3) \<open>q = p\<close> by simp
qed

text \<open>
  C40. What a pass records does not depend on the order in which its workers answer: when the
  names are distinct and each probe is a function of the results of its dependencies, every
  finished run records for a name exactly the result that evaluation along the dependencies
  gives, and records nothing for a name that has none.
\<close>

theorem run_deterministic:
  assumes "distinct (map pr_id ps)" "run_reach (function_outcome f) ps n s" "run_done s"
  shows "ru_results s i = Some r \<longleftrightarrow> settles f ps i r"
  using results_settle [OF assms(2)] settles_recorded [OF run_inv_reach [OF assms(2)] assms(3,1)] by blast

section \<open>A sample pass\<close>

text \<open>Some run of every pass is done.\<close>

lemma run_completes:
  assumes "\<And>p deps. \<exists>r. outcome p deps r"
  shows "\<exists>n s. run_reach outcome ps n s \<and> run_done s"
proof (rule ccontr)
  assume no: "\<nexists>n s. run_reach outcome ps n s \<and> run_done s"
  have "\<exists>s. run_reach outcome ps n s" for n
  proof (induction n)
    case 0
    then show ?case using run_reach.Start by blast
  next
    case (Suc n)
    then obtain s where s: "run_reach outcome ps n s" by blast
    then obtain s' where "run_step outcome s s'"
      using run_not_stuck [of outcome s] assms no by blast
    then show ?case using run_reach.Turn [OF s] by blast
  qed
  then show False
    using run_bounded_turns by (metis not_less_eq_eq order_refl)
qed

text \<open>A root that fails, a probe that needs it, and a probe that needs itself.\<close>

definition sample_pass :: "probe list" where
  "sample_pass =
     [\<lparr>pr_id = ''dns'', pr_deps = [''iface'']\<rparr>, \<lparr>pr_id = ''iface'', pr_deps = []\<rparr>,
      \<lparr>pr_id = ''loop'', pr_deps = [''loop'']\<rparr>]"

definition sample_probe :: "probe \<Rightarrow> (string \<Rightarrow> unit probe_result option) \<Rightarrow> unit probe_result" where
  "sample_probe p deps = \<lparr>rs_id = [], rs_status = StatusFail, rs_detail = ''no link'', rs_rest = None\<rparr>"

lemma sample_outcome: "\<exists>r. function_outcome sample_probe p deps r"
  by (simp add: function_outcome_def)

inductive_cases grounded_caseE: "grounded ps i"

lemma sample_iface: "grounded sample_pass ''iface''"
  using grounded.Probe [of "\<lparr>pr_id = ''iface'', pr_deps = []\<rparr>" sample_pass] by (simp add: sample_pass_def)

lemma sample_dns: "grounded sample_pass ''dns''"
  using grounded.Probe [of "\<lparr>pr_id = ''dns'', pr_deps = [''iface'']\<rparr>" sample_pass] sample_iface
  by (simp add: sample_pass_def)

lemma sample_loop: "grounded sample_pass i \<Longrightarrow> i \<noteq> ''loop''"
  by (induction rule: grounded.induct) (auto simp: sample_pass_def)

lemma sample_grounded: "{i. grounded sample_pass i} = {''iface'', ''dns''}"
proof -
  have "i \<in> {''dns'', ''iface'', ''loop''}" if "grounded sample_pass i" for i
    using that by (cases rule: grounded.cases) (auto simp: sample_pass_def)
  then show ?thesis
    using sample_iface sample_dns sample_loop by blast
qed

theorem workers_ready_witness:
  "deps_state [] (ru_results (start_run sample_pass :: unit run_state)) False = (True, False)"
proof -
  have n: "next_probe (new_scheduler sample_pass {} (\<lambda>_. None :: unit probe_result option))
      = ((new_scheduler sample_pass {} (\<lambda>_. None :: unit probe_result option))\<lparr>sc_head := 1, sc_started := {''iface''}\<rparr>, Some (1, False))"
    by (subst next_probe.simps)
      (simp add: new_scheduler_def sample_pass_def add_probe_def add_dep_def empty_scheduler_def upt_rec Let_def)
  let ?s = "launch (start_run sample_pass :: unit run_state)
      ((new_scheduler sample_pass {} (\<lambda>_. None :: unit probe_result option))\<lparr>sc_head := 1, sc_started := {''iface''}\<rparr>) 1"
  have "run_reach (function_outcome sample_probe) sample_pass (Suc 0) ?s"
    by (rule run_reach.Turn [OF run_reach.Start run_step.Launch]) (simp add: start_run_def n)
  moreover have "(sample_pass ! 1, deps_of (sample_pass ! 1) (\<lambda>_. None)) \<in> set (ru_running ?s)"
    by (simp add: launch_def Let_def start_run_def new_scheduler_def sample_pass_def add_probe_def add_dep_def
        empty_scheduler_def upt_rec)
  ultimately have "deps_state (pr_deps (sample_pass ! 1)) (ru_results ?s) False = (True, False)"
    using workers_ready by blast
  then show ?thesis
    by (simp add: sample_pass_def launch_def Let_def)
qed

theorem run_ends_witness:
  "\<exists>n s. run_reach (function_outcome sample_probe) sample_pass n s \<and> run_done s \<and> n \<le> 6
     \<and> dom (ru_results s) = {''iface'', ''dns''}"
proof -
  obtain n s where s: "run_reach (function_outcome sample_probe) sample_pass n s" "run_done s"
    using run_completes [of "function_outcome sample_probe" sample_pass] sample_outcome by blast
  have "card (pr_id ` set sample_pass) \<le> 3"
    by (rule order_trans [OF card_image_le]) (simp_all add: sample_pass_def card_insert_if)
  then show ?thesis
    using run_ends [OF sample_outcome s(1)] s sample_grounded by (intro exI [of _ n] exI [of _ s]) auto
qed

theorem run_deterministic_witness:
  "\<exists>n s. run_reach (function_outcome sample_probe) sample_pass n s \<and> run_done s
     \<and> ru_results s ''dns'' = Some (skip_prereq ''dns'')"
proof -
  obtain n s where s: "run_reach (function_outcome sample_probe) sample_pass n s" "run_done s"
    using run_completes [of "function_outcome sample_probe" sample_pass] sample_outcome by blast
  let ?i = "\<lparr>pr_id = ''iface'', pr_deps = []\<rparr>" and ?d = "\<lparr>pr_id = ''dns'', pr_deps = [''iface'']\<rparr>"
  let ?r = "(sample_probe ?i (\<lambda>_. None))\<lparr>rs_id := ''iface''\<rparr>"
  have "settles sample_probe sample_pass ''iface'' ?r"
    using settles.Settle [of ?i sample_pass sample_probe "\<lambda>_. undefined" ?r] by (simp add: sample_pass_def)
  then have "settles sample_probe sample_pass ''dns'' (skip_prereq ''dns'')"
    using settles.Settle [of ?d sample_pass sample_probe "\<lambda>_. ?r" "skip_prereq ''dns''"]
    by (simp add: sample_pass_def blocks_def sample_probe_def)
  moreover have "distinct (map pr_id sample_pass)"
    by (simp add: sample_pass_def)
  ultimately show ?thesis
    using run_deterministic [OF _ s] s by blast
qed

end
