(* ===== verification/Route_Decisions.thy ===== *)
theory Route_Decisions
  imports Golib
begin

text \<open>
  The route decisions of \<^verbatim>\<open>internal/diagnostic/route.go\<close> and \<^verbatim>\<open>route_cause.go\<close>: what
  one platform said about one destination, comparing two decisions, the reason of a decision,
  and the causes read from a table of default routes. The lookups themselves ask the kernel
  and are not modelled; the lists of default routes they return are arguments here. An
  \<open>int\<close> has 64 bits.
\<close>

section \<open>Addresses as bytes\<close>

text \<open>\<^verbatim>\<open>net.IP\<close> is a slice of bytes; nil is the empty one. \<^verbatim>\<open>To4\<close> gives nil where the
  address is not IPv4.\<close>

type_synonym ip = "8 word list"

definition v4_in_v6_prefix :: ip where
  "v4_in_v6_prefix = replicate 10 0 @ [0xFF, 0xFF]"

definition to4 :: "ip \<Rightarrow> ip" where
  "to4 x =
     (if length x = 4 then x
      else if length x = 16 \<and> take 12 x = v4_in_v6_prefix then drop 12 x else [])"

definition is4 :: "ip \<Rightarrow> bool" where
  "is4 x \<longleftrightarrow> to4 x \<noteq> []"

text \<open>\<^verbatim>\<open>To16\<close> is nil unless there are 4 or 16 bytes.\<close>

definition has16 :: "ip \<Rightarrow> bool" where
  "has16 x \<longleftrightarrow> length x = 4 \<or> length x = 16"

definition ip_equal :: "ip \<Rightarrow> ip \<Rightarrow> bool" where
  "ip_equal x y \<longleftrightarrow>
     (if length x = length y then x = y
      else if length x = 4 \<and> length y = 16 then take 12 y = v4_in_v6_prefix \<and> x = drop 12 y
      else if length x = 16 \<and> length y = 4 then take 12 x = v4_in_v6_prefix \<and> drop 12 x = y
      else False)"

definition ip_bits :: "ip \<Rightarrow> 'a::len word" where
  "ip_bits x = foldl (\<lambda>w b. push_bit 8 w OR ucast b) 0 x"

text \<open>\<^verbatim>\<open>netip.AddrFromSlice\<close>.\<close>

definition addr_from_slice :: "ip \<Rightarrow> addr option" where
  "addr_from_slice x =
     (if length x = 4 then Some (Addr4 (ip_bits x))
      else if length x = 16 then Some (Addr6 (ip_bits x) []) else None)"

definition ip_string :: "ip \<Rightarrow> string" where
  "ip_string x =
     (if x = [] then ''<nil>''
      else if length x \<noteq> 4 \<and> length x \<noteq> 16
        then CHR ''?'' # concat (map (\<lambda>b. [digit_char (uint b div 16), digit_char (uint b mod 16)]) x)
      else if is4 x then addr_string (Addr4 (ip_bits (to4 x)))
      else addr_string (Addr6 (ip_bits x) []))"

definition ip_private :: "ip \<Rightarrow> bool" where
  "ip_private x \<longleftrightarrow>
     (if is4 x then let a = to4 x in
        a ! 0 = 10 \<or> a ! 0 = 172 \<and> a ! 1 AND 0xF0 = 16 \<or> a ! 0 = 192 \<and> a ! 1 = 168
      else length x = 16 \<and> x ! 0 AND 0xFE = 0xFC)"

definition ip_link_local :: "ip \<Rightarrow> bool" where
  "ip_link_local x \<longleftrightarrow>
     (if is4 x then to4 x ! 0 = 169 \<and> to4 x ! 1 = 254
      else length x = 16 \<and> x ! 0 = 0xFE \<and> x ! 1 AND 0xC0 = 0x80)"

definition ip_loopback :: "ip \<Rightarrow> bool" where
  "ip_loopback x \<longleftrightarrow> (if is4 x then to4 x ! 0 = 127 else x = replicate 15 0 @ [1])"

lemma ip_equal_refl [simp]: "ip_equal x x"
  by (simp add: ip_equal_def)

lemma ip_equal_sym: "ip_equal x y = ip_equal y x"
  by (auto simp: ip_equal_def)

lemma mapped_split: "take 12 (x :: ip) = take 12 y \<Longrightarrow> drop 12 x = drop 12 y \<Longrightarrow> x = y"
  by (metis append_take_drop_id)

lemma length_v4_in_v6_prefix [simp]: "length v4_in_v6_prefix = 12"
  by (simp add: v4_in_v6_prefix_def)

lemma ip_equal_trans: "ip_equal x y \<Longrightarrow> ip_equal y z \<Longrightarrow> ip_equal x z"
  unfolding ip_equal_def by (smt (verit) mapped_split num.inject verit_eq_simplify numeral_eq_iff)

text \<open>Equal addresses are of one family.\<close>

lemma ip_equal_is4: "ip_equal x y \<Longrightarrow> is4 x = is4 y"
  unfolding ip_equal_def is4_def to4_def by (auto split: if_splits)

section \<open>Causes\<close>

text \<open>
  The causes a row may carry are strings; there is one constructor for each string, named
  after a constant that has it, because constants of different groups share strings. The
  strings no rule of the diagnosis looks at are \<open>OtherCause\<close>, and \<open>NoCause\<close> is the empty one.
\<close>

datatype cause =
    NoCause
  | RouteCauseNoDefaultRoute | RouteCauseGatewayUnreachable | RouteCauseSelectedPathFailed
  | RouteCausePreferredPathFailed | RouteCausePreferredPathAlternateReachable
  | ConnectivityCauseUnexpectedResponse
  | ConnectionCauseRefused | ConnectionCauseReset | ConnectionCauseClosed | ConnectionCauseTimeout
  | ConnectionCauseUnreachable | ConnectionCauseCanceled
  | TLSCauseCertificateExpired | TLSCauseCertificateNotYet | TLSCauseHostnameMismatch
  | TLSCauseUntrustedIssuer | TLSCauseHandshake | TLSCauseTCPUnreachable
  | HTTPCauseInvalidResponse
  | OtherCause string

abbreviation TLSCauseTimeout :: cause where
  "TLSCauseTimeout \<equiv> ConnectionCauseTimeout"

abbreviation TLSCauseConnectionClosed :: cause where
  "TLSCauseConnectionClosed \<equiv> ConnectionCauseClosed"

section \<open>Decisions\<close>

text \<open>A family is \<^verbatim>\<open>"ipv4"\<close>, \<^verbatim>\<open>"ipv6"\<close>, or the empty string of a zero decision.\<close>

datatype family = NoFamily | IPv4 | IPv6

definition route_family :: "ip \<Rightarrow> family" where
  "route_family x = (if is4 x then IPv4 else IPv6)"

datatype tunnel_state = TunnelUnknown | TunnelDirect | TunnelLikely | TunnelKnown

datatype route_reason =
    RouteReasonUnknown | RouteReasonNoRoute | RouteReasonDefault | RouteReasonMoreSpecific
  | RouteReasonSamePathAsDefault | RouteReasonDiffersFromDefault | RouteReasonOnLink
  | RouteReasonHostRoute | RouteReasonMetric

record competing_route =
  cr_iface :: string
  cr_metric :: int

record route_decision =
  rd_destination :: ip
  rd_family :: family
  rd_iface :: string
  rd_gateway :: ip
  rd_source :: ip
  rd_prefix :: prefix
  rd_metric :: int
  rd_metric_known :: bool
  rd_table :: string
  rd_table_known :: bool
  rd_mtu :: int
  rd_tunnel :: tunnel_state
  rd_tunnel_kind :: string
  rd_unreachable :: bool
  rd_reason :: route_reason
  rd_competing :: "competing_route list"

definition no_decision :: route_decision where
  "no_decision =
     \<lparr>rd_destination = [], rd_family = NoFamily, rd_iface = [], rd_gateway = [], rd_source = [],
      rd_prefix = Prefix ZeroAddr 0, rd_metric = 0, rd_metric_known = False, rd_table = [],
      rd_table_known = False, rd_mtu = 0, rd_tunnel = TunnelUnknown, rd_tunnel_kind = [],
      rd_unreachable = False, rd_reason = RouteReasonUnknown, rd_competing = []\<rparr>"

definition tunneled :: "route_decision \<Rightarrow> bool" where
  "tunneled r \<longleftrightarrow> rd_tunnel r = TunnelKnown \<or> rd_tunnel r = TunnelLikely"

section \<open>Tunnels\<close>

record iface_facts =
  if_name :: string
  if_kind :: string
  if_point_to_point :: bool
  if_loopback :: bool
  if_no_link_layer :: bool

definition encapsulating_kinds :: "string list" where
  "encapsulating_kinds =
     [''geneve'', ''gre'', ''gretap'', ''ip6gre'', ''ip6tnl'', ''ipip'', ''ppp'',
      ''sit'', ''tun'', ''tunnel'', ''vti'', ''vti6'', ''vxlan'', ''wireguard'', ''xfrm'']"

definition classify_tunnel :: "iface_facts \<Rightarrow> tunnel_state \<times> string" where
  "classify_tunnel f =
     (if if_name f = [] then (TunnelUnknown, [])
      else if if_loopback f then (TunnelDirect, [])
      else if if_kind f \<noteq> [] then
        (if if_kind f \<in> set encapsulating_kinds then (TunnelKnown, if_kind f) else (TunnelDirect, []))
      else if if_point_to_point f \<or> if_no_link_layer f then (TunnelLikely, [])
      else (TunnelDirect, []))"

section \<open>Comparing two paths\<close>

datatype path_agreement = PathNotComparable | PathSame | PathDiffers

definition path_agreement_of :: "bool \<Rightarrow> path_agreement" where
  "path_agreement_of same = (if same then PathSame else PathDiffers)"

record path_comparison =
  pc_iface :: path_agreement
  pc_next_hop :: path_agreement
  pc_table :: path_agreement
  pc_source :: path_agreement

text \<open>The routing domain a rule selected; \<open>None\<close> where no table is known.\<close>

definition routing_domain :: "route_decision \<Rightarrow> string option" where
  "routing_domain r =
     (if \<not> rd_table_known r then None
      else if rd_table r \<in> {[], ''local'', ''default''} then Some [] else Some (rd_table r))"

definition compare_paths :: "route_decision \<Rightarrow> route_decision \<Rightarrow> path_comparison" where
  "compare_paths a b =
     (if rd_iface a = [] \<or> rd_iface b = []
      then \<lparr>pc_iface = PathNotComparable, pc_next_hop = PathNotComparable, pc_table = PathNotComparable, pc_source = PathNotComparable\<rparr>
      else \<lparr>pc_iface = path_agreement_of (rd_iface a = rd_iface b),
            pc_next_hop = path_agreement_of (ip_equal (rd_gateway a) (rd_gateway b)),
            pc_table = (case (routing_domain a, routing_domain b) of
                (Some x, Some y) \<Rightarrow> path_agreement_of (x = y) | _ \<Rightarrow> PathNotComparable),
            pc_source = (if rd_family a = rd_family b \<and> rd_source a \<noteq> [] \<and> rd_source b \<noteq> []
                then path_agreement_of (ip_equal (rd_source a) (rd_source b)) else PathNotComparable)\<rparr>)"

text \<open>\<open>None\<close> where there was nothing to compare.\<close>

definition differs :: "path_comparison \<Rightarrow> bool option" where
  "differs c =
     (if pc_iface c = PathNotComparable then None
      else Some (pc_iface c = PathDiffers \<or> pc_next_hop c = PathDiffers \<or> pc_table c = PathDiffers))"

definition family_differs :: "path_comparison \<Rightarrow> bool option" where
  "family_differs c =
     (if pc_iface c = PathNotComparable then None
      else Some (pc_iface c = PathDiffers \<or> pc_table c = PathDiffers))"

definition same_path :: "route_decision \<Rightarrow> route_decision \<Rightarrow> bool" where
  "same_path a b \<longleftrightarrow> differs (compare_paths a b) = Some False"

definition route_by_family :: "route_decision list \<Rightarrow> family \<Rightarrow> route_decision" where
  "route_by_family rs fam = (case find (\<lambda>r. rd_family r = fam) rs of Some r \<Rightarrow> r | None \<Rightarrow> no_decision)"

definition route_for :: "route_decision list \<Rightarrow> ip \<Rightarrow> route_decision option" where
  "route_for rs dst = find (\<lambda>r. ip_equal (rd_destination r) dst) rs"

datatype split_tunnel = SplitNone | SplitTargetTunneled | SplitTargetBypassesTunnel

definition split_tunnel_state :: "route_decision \<Rightarrow> route_decision \<Rightarrow> split_tunnel" where
  "split_tunnel_state target ref =
     (if rd_iface target = [] \<or> rd_iface ref = [] \<or> rd_tunnel target = TunnelUnknown \<or> rd_tunnel ref = TunnelUnknown
      then SplitNone
      else if tunneled target \<and> \<not> tunneled ref then SplitTargetTunneled
      else if \<not> tunneled target \<and> tunneled ref then SplitTargetBypassesTunnel
      else SplitNone)"

definition family_paths_differ :: "route_decision list \<Rightarrow> bool option" where
  "family_paths_differ rs = family_differs (compare_paths (route_by_family rs IPv4) (route_by_family rs IPv6))"

definition narrower_path_mtu :: "route_decision \<Rightarrow> route_decision \<Rightarrow> int option" where
  "narrower_path_mtu target ref =
     (if rd_mtu target \<le> 0 \<or> rd_mtu ref \<le> 0 \<or> rd_mtu ref \<le> rd_mtu target then None else Some (rd_mtu target))"

section \<open>The reason of a decision\<close>

definition beats_default_elsewhere :: "route_decision \<Rightarrow> route_decision \<Rightarrow> bool" where
  "beats_default_elsewhere r ref \<longleftrightarrow>
     prefix_valid (rd_prefix r) \<and> 0 < prefix_bits (rd_prefix r)
     \<and> prefix_valid (rd_prefix ref) \<and> prefix_bits (rd_prefix ref) = 0
     \<and> rd_iface r \<noteq> [] \<and> rd_iface ref \<noteq> [] \<and> rd_iface r \<noteq> rd_iface ref"

definition reason_of :: "route_decision \<Rightarrow> route_decision \<Rightarrow> route_reason" where
  "reason_of r ref =
     (if rd_unreachable r then RouteReasonNoRoute
      else if rd_competing r \<noteq> [] \<and> rd_metric_known r then RouteReasonMetric
      else if prefix_valid (rd_prefix r) \<and> prefix_bits (rd_prefix r) = int (bit_len (prefix_addr (rd_prefix r)))
        then RouteReasonHostRoute
      else if prefix_valid (rd_prefix r) \<and> prefix_bits (rd_prefix r) = 0 then RouteReasonDefault
      else if beats_default_elsewhere r ref then RouteReasonMoreSpecific
      else if rd_iface r = [] then RouteReasonUnknown
      else if rd_gateway r = [] then RouteReasonOnLink
      else if prefix_valid (rd_prefix r) then RouteReasonMoreSpecific
      else if rd_iface ref = [] then RouteReasonUnknown
      else if same_path r ref then RouteReasonSamePathAsDefault
      else RouteReasonDiffersFromDefault)"

section \<open>Default routes\<close>

record default_route =
  df_iface :: string
  df_gateway :: ip
  df_metric :: "64 word"

definition by_metric :: "default_route \<Rightarrow> default_route \<Rightarrow> int" where
  "by_metric a b = three_way (df_metric a) (df_metric b)"

text \<open>\<open>failed\<close> is \<open>None\<close> on a platform that cannot see the neighbor table.\<close>

definition classify_default_routes :: "default_route list \<Rightarrow> (default_route \<Rightarrow> bool) option \<Rightarrow> cause" where
  "classify_default_routes rs failed =
     (if rs = [] then RouteCauseNoDefaultRoute
      else let s = sort_func by_metric rs;
               tied = takeWhile (\<lambda>r. df_metric r = df_metric (hd s)) s
           in if (case failed of None \<Rightarrow> False | Some f \<Rightarrow> list_all f tied) then RouteCauseGatewayUnreachable
              else if 1 < length s \<and> df_metric (s ! 0) < df_metric (s ! 1) then RouteCausePreferredPathFailed
              else RouteCauseSelectedPathFailed)"

definition default_path_matches :: "route_decision \<Rightarrow> default_route \<Rightarrow> bool" where
  "default_path_matches path r \<longleftrightarrow>
     \<not> rd_unreachable path \<and> rd_table_known path \<and> rd_table path = []
     \<and> rd_iface path \<noteq> [] \<and> rd_iface path = df_iface r
     \<and> rd_gateway path \<noteq> [] \<and> ip_equal (rd_gateway path) (df_gateway r)"

definition preferred_path_alternates ::
  "(family \<Rightarrow> default_route list) option \<Rightarrow> ip list \<Rightarrow> route_decision list \<Rightarrow> default_route list" where
  "preferred_path_alternates defaults ips decisions =
     (case (ips, defaults) of
        (x # _, Some df) \<Rightarrow>
          let s = sort_func by_metric (df (route_family x))
          in if length s < 2 \<or> df_metric (s ! 1) \<le> df_metric (s ! 0) then []
             else if list_ex (\<lambda>y. case route_for decisions y of
                  None \<Rightarrow> True | Some path \<Rightarrow> \<not> default_path_matches path (hd s)) ips then []
             else filter (\<lambda>r. df_gateway r \<noteq> [] \<and> \<not> ip_equal (df_gateway r) (df_gateway (hd s))) (tl s)
      | _ \<Rightarrow> [])"

text \<open>The losers named beside a default route that won. \<^verbatim>\<open>math.MaxInt\<close> caps the metric
  that is shown.\<close>

definition max_competing_routes :: nat where
  "max_competing_routes = 4"

definition by_metric_iface :: "default_route \<Rightarrow> default_route \<Rightarrow> int" where
  "by_metric_iface a b = cmp_or [by_metric a b, three_way (df_iface a) (df_iface b)]"

definition competing_defaults :: "(family \<Rightarrow> default_route list) option \<Rightarrow> route_decision \<Rightarrow> competing_route list" where
  "competing_defaults defaults sel =
     (case defaults of
        None \<Rightarrow> []
      | Some df \<Rightarrow>
          if \<not> prefix_valid (rd_prefix sel) \<or> prefix_bits (rd_prefix sel) \<noteq> 0 \<or> \<not> rd_metric_known sel then []
          else let others = filter (\<lambda>r. \<not> (df_iface r = rd_iface sel
                     \<and> uint (df_metric r) \<le> 2 ^ 32 - 1 \<and> uint (df_metric r) = rd_metric sel)) (df (rd_family sel))
               in map (\<lambda>r. \<lparr>cr_iface = df_iface r, cr_metric = min (uint (df_metric r)) (2 ^ 63 - 1)\<rparr>)
                    (take max_competing_routes (sort_func by_metric_iface others)))"

text \<open>\<^verbatim>\<open>policyRoutedCause\<close>: a missing default route is withdrawn where another table has a path.\<close>

definition policy_routed_cause :: "cause \<Rightarrow> route_decision list \<Rightarrow> ip \<Rightarrow> cause" where
  "policy_routed_cause c rs dst =
     (if c \<noteq> RouteCauseNoDefaultRoute \<or> \<not> is4 dst then c
      else case route_for rs dst of
          None \<Rightarrow> c
        | Some path \<Rightarrow> if rd_table_known path \<and> rd_table path \<noteq> [] \<and> \<not> rd_unreachable path then NoCause else c)"

end
