(* ===== verification/Observations.thy ===== *)
theory Observations
  imports Route_Decisions Scheduler
begin

text \<open>
  What one run of probes recorded, and the questions every later rule asks about it: the
  types of \<^verbatim>\<open>internal/diagnostic/checks.go\<close>, \<^verbatim>\<open>finding.go\<close> and \<^verbatim>\<open>target.go\<close>, and the
  predicates of \<^verbatim>\<open>diagnosis.go\<close>, \<^verbatim>\<open>counterfactual.go\<close> and \<^verbatim>\<open>route.go\<close> that read results without
  changing them. The fields of a result that no rule reads (durations, the Wi-Fi name, the
  socket it shared, the plaintext flag of a proxy) are left out, and the identifiers of rows, an
  open string type in Go, are the fifteen the code declares.
\<close>

section \<open>Results\<close>

datatype probe_id =
    ProbeIface | ProbeSSID | ProbeInternet | ProbeQUIC | ProbeProxy | ProbeDNS | ProbeDNSPublic
  | ProbeDNSEncrypted | ProbeTargetTCP | ProbePMTU | ProbeTLS | ProbeHTTP | ProbeHTTPS | ProbeSSH | ProbeSMTP

fun probe_name :: "probe_id \<Rightarrow> string" where
  "probe_name ProbeIface = ''iface''"
| "probe_name ProbeSSID = ''ssid''"
| "probe_name ProbeInternet = ''internet_tcp''"
| "probe_name ProbeQUIC = ''quic_udp_443''"
| "probe_name ProbeProxy = ''proxy_connect''"
| "probe_name ProbeDNS = ''dns''"
| "probe_name ProbeDNSPublic = ''dns_public''"
| "probe_name ProbeDNSEncrypted = ''dns_encrypted''"
| "probe_name ProbeTargetTCP = ''target_tcp''"
| "probe_name ProbePMTU = ''path_mtu''"
| "probe_name ProbeTLS = ''tls''"
| "probe_name ProbeHTTP = ''http''"
| "probe_name ProbeHTTPS = ''https''"
| "probe_name ProbeSSH = ''ssh_banner''"
| "probe_name ProbeSMTP = ''smtp_banner''"

datatype family_state = FamilyUntested | FamilyReachable | FamilyUnreachable

record family_connectivity =
  fc_v4 :: family_state
  fc_v6 :: family_state

text \<open>The classes of errors that \<^verbatim>\<open>ConnectionFailureCause\<close> and \<^verbatim>\<open>errors.Is\<close> tell apart.\<close>

datatype attempt_error = ErrCanceled | ErrDeadline | ErrRefused | ErrTimeout | ErrOther

record attempt =
  at_ip :: ip
  at_err :: "attempt_error option"
  at_cause :: cause
  at_aborted :: bool

datatype answer_comparison = ComparisonUnrecorded | ComparisonAgree | ComparisonDisagree

datatype name_scope = ScopeUnknown | DNSNameAbsolute | DNSNameRootedRelative

record row =
  row_status :: status
  row_cause :: cause
  row_cause_family :: family
  row_families :: "family_connectivity option"
  row_downgraded :: bool
  row_alternates :: "family \<Rightarrow> default_route list"
  row_comparison :: answer_comparison
  row_portal :: "string option"
  row_addrs :: "ip list"
  row_scope :: name_scope
  row_not_found :: bool
  row_selected :: ip
  row_source :: ip
  row_iface :: string
  row_routes :: "route_decision list"
  row_attempts :: "attempt list"
  row_timed_out :: bool
  row_clock_offset :: int
  row_resolver :: string
  row_iface_ambiguous :: bool
  row_detail :: string
  row_fix :: string

text \<open>The zero value, which is what indexing the results with an absent probe yields: it reads
  as passed.\<close>

definition zero_row :: row where
  "zero_row =
     \<lparr>row_status = StatusPass, row_cause = NoCause, row_cause_family = NoFamily, row_families = None,
      row_downgraded = False, row_alternates = (\<lambda>_. []), row_comparison = ComparisonUnrecorded,
      row_portal = None, row_addrs = [], row_scope = ScopeUnknown, row_not_found = False,
      row_selected = [], row_source = [], row_iface = [], row_routes = [], row_attempts = [],
      row_timed_out = False, row_clock_offset = 0, row_resolver = [], row_iface_ambiguous = False,
      row_detail = [], row_fix = []\<rparr>"

type_synonym results = "probe_id \<Rightarrow> row option"

definition row_at :: "results \<Rightarrow> probe_id \<Rightarrow> row" where
  "row_at res i = (case res i of Some r \<Rightarrow> r | None \<Rightarrow> zero_row)"

definition has :: "results \<Rightarrow> probe_id \<Rightarrow> bool" where
  "has res i \<longleftrightarrow> res i \<noteq> None"

definition status_is :: "status \<Rightarrow> results \<Rightarrow> probe_id \<Rightarrow> bool" where
  "status_is s res i \<longleftrightarrow> (case res i of Some r \<Rightarrow> row_status r = s | None \<Rightarrow> False)"

abbreviation passed :: "results \<Rightarrow> probe_id \<Rightarrow> bool" where
  "passed \<equiv> status_is StatusPass"

abbreviation failed :: "results \<Rightarrow> probe_id \<Rightarrow> bool" where
  "failed \<equiv> status_is StatusFail"

abbreviation warned :: "results \<Rightarrow> probe_id \<Rightarrow> bool" where
  "warned \<equiv> status_is StatusWarn"

definition functional :: "status \<Rightarrow> bool" where
  "functional s \<longleftrightarrow> s = StatusPass \<or> s = StatusWarn"

text \<open>\<^verbatim>\<open>r, ok := res[id]; ok \<and> functional(r.Status)\<close>\<close>

definition works :: "results \<Rightarrow> probe_id \<Rightarrow> bool" where
  "works res i \<longleftrightarrow> has res i \<and> functional (row_status (row_at res i))"

section \<open>The target\<close>

datatype proto = ProtoNone | ProtoTLSHTTP | ProtoHTTP | ProtoSSH | ProtoSMTP

record target =
  tg_host :: string
  tg_ip :: ip
  tg_port :: int
  tg_proto :: proto

text \<open>\<^verbatim>\<open>net.JoinHostPort\<close>: a host with a colon or a zone is bracketed.\<close>

definition join_host_port :: "string \<Rightarrow> string \<Rightarrow> string" where
  "join_host_port host port =
     (if CHR '':'' \<in> set host \<or> CHR ''%'' \<in> set host
      then CHR ''['' # host @ '']:'' @ port else host @ CHR '':'' # port)"

definition target_rows :: "target \<Rightarrow> probe_id list" where
  "target_rows t =
     (case tg_proto t of
        ProtoTLSHTTP \<Rightarrow> [ProbeHTTP, ProbeHTTPS]
      | ProtoHTTP \<Rightarrow> [ProbeHTTP]
      | ProtoSSH \<Rightarrow> [ProbeSSH]
      | ProtoSMTP \<Rightarrow> [ProbeSMTP]
      | ProtoNone \<Rightarrow> [ProbeTargetTCP])"

definition shared_ipv4_space :: prefix where
  "shared_ipv4_space = addr_prefix (Addr4 0x64400000) 10"

definition site_local_ipv6 :: prefix where
  "site_local_ipv6 = addr_prefix (Addr6 (push_bit 112 0xFEC0) []) 10"

definition local_ip :: "ip \<Rightarrow> bool" where
  "local_ip x \<longleftrightarrow>
     (if ip_private x \<or> ip_link_local x \<or> ip_loopback x then True
      else case addr_from_slice x of
             None \<Rightarrow> False
           | Some a \<Rightarrow> prefix_contains shared_ipv4_space (unmap a) \<or> prefix_contains site_local_ipv6 (unmap a))"

definition local_target :: "target \<Rightarrow> results \<Rightarrow> bool" where
  "local_target t res \<longleftrightarrow>
     (if tg_ip t \<noteq> [] then local_ip (tg_ip t)
      else row_addrs (row_at res ProbeDNS) \<noteq> [] \<and> list_all local_ip (row_addrs (row_at res ProbeDNS)))"

section \<open>Questions about the path\<close>

definition intercepted :: "results \<Rightarrow> bool" where
  "intercepted res \<longleftrightarrow> (case res ProbeInternet of Some r \<Rightarrow> row_portal r \<noteq> None | None \<Rightarrow> False)"

definition direct_egress_ok :: "results \<Rightarrow> bool" where
  "direct_egress_ok res \<longleftrightarrow>
     (case res ProbeInternet of Some r \<Rightarrow> functional (row_status r) \<and> \<not> row_downgraded r | None \<Rightarrow> False)"

definition public_target_reached :: "results \<Rightarrow> bool" where
  "public_target_reached res \<longleftrightarrow>
     (case res ProbeTargetTCP of
        Some r \<Rightarrow> functional (row_status r) \<and> row_selected r \<noteq> [] \<and> \<not> local_ip (row_selected r)
      | None \<Rightarrow> False)"

definition local_path_observed :: "cause \<Rightarrow> bool" where
  "local_path_observed c \<longleftrightarrow> c \<in> {RouteCauseNoDefaultRoute, RouteCauseGatewayUnreachable}"

definition proxy_carries :: "results \<Rightarrow> bool" where
  "proxy_carries res \<longleftrightarrow> works res ProbeProxy"

definition encrypted_dns_blocked :: "results \<Rightarrow> bool" where
  "encrypted_dns_blocked res \<longleftrightarrow>
     failed res ProbeDNSEncrypted \<and> direct_egress_ok res \<and> (works res ProbeDNS \<or> works res ProbeDNSPublic)"

definition dns_names_comparable :: "results \<Rightarrow> bool" where
  "dns_names_comparable res \<longleftrightarrow>
     has res ProbeDNS \<and> has res ProbeDNSPublic \<and> row_scope (row_at res ProbeDNSPublic) = DNSNameAbsolute"

section \<open>Attempts\<close>

fun connection_failure_cause :: "attempt_error option \<Rightarrow> cause" where
  "connection_failure_cause (Some ErrCanceled) = ConnectionCauseCanceled"
| "connection_failure_cause (Some ErrDeadline) = ConnectionCauseTimeout"
| "connection_failure_cause (Some ErrRefused) = ConnectionCauseRefused"
| "connection_failure_cause (Some ErrTimeout) = ConnectionCauseTimeout"
| "connection_failure_cause _ = ConnectionCauseUnreachable"

definition attempt_cause :: "attempt \<Rightarrow> cause" where
  "attempt_cause a = (if at_cause a \<noteq> NoCause then at_cause a else connection_failure_cause (at_err a))"

definition canceled_attempt :: "attempt \<Rightarrow> bool" where
  "canceled_attempt a \<longleftrightarrow> at_aborted a \<or> at_err a = Some ErrCanceled \<or> attempt_cause a = ConnectionCauseCanceled"

definition contains_resolved :: "ip list \<Rightarrow> ip \<Rightarrow> bool" where
  "contains_resolved xs x \<longleftrightarrow> list_ex (\<lambda>y. ip_equal y x) xs"

text \<open>\<^verbatim>\<open>targetFamilyState\<close>, where no connection was made.\<close>

definition target_family_state :: "ip list \<Rightarrow> attempt list \<Rightarrow> family_state" where
  "target_family_state xs as =
     (if xs = [] then FamilyUntested
      else if list_all (\<lambda>x. list_ex (\<lambda>a. ip_equal (at_ip a) x) as) xs then FamilyUnreachable
      else FamilyUntested)"

datatype address_origin = ResolvedByTheProbe | ResolvedByTheSystemDNSRow

definition system_derived :: "address_origin \<Rightarrow> row \<Rightarrow> ip \<Rightarrow> bool" where
  "system_derived origin system x \<longleftrightarrow> origin = ResolvedByTheProbe \<or> contains_resolved (row_addrs system) x"

definition quic_used_disagreeing_answer :: "results \<Rightarrow> bool" where
  "quic_used_disagreeing_answer res \<longleftrightarrow>
     dns_names_comparable res \<and> row_comparison (row_at res ProbeDNSPublic) = ComparisonDisagree
     \<and> works res ProbeDNS \<and> row_addrs (row_at res ProbeDNS) \<noteq> []
     \<and> list_ex (\<lambda>a. system_derived ResolvedByTheProbe (row_at res ProbeDNS) (at_ip a)
          \<and> \<not> contains_resolved (row_addrs (row_at res ProbeDNSPublic)) (at_ip a))
         (row_attempts (row_at res ProbeQUIC))"

definition uncorroborated_endpoint_failure :: "results \<Rightarrow> probe_id \<Rightarrow> address_origin \<Rightarrow> bool" where
  "uncorroborated_endpoint_failure res i origin \<longleftrightarrow>
     (let public = row_at res ProbeDNSPublic; system = row_at res ProbeDNS;
          made = filter (\<lambda>a. \<not> canceled_attempt a) (row_attempts (row_at res i))
      in dns_names_comparable res
         \<and> works res ProbeDNSPublic \<and> row_addrs public \<noteq> []
         \<and> works res ProbeDNS \<and> row_addrs system \<noteq> []
         \<and> list_all (\<lambda>a. \<not> contains_resolved (row_addrs public) (at_ip a)
              \<and> system_derived origin system (at_ip a)) made
         \<and> made \<noteq> []
         \<and> list_all (\<lambda>a. list_ex (\<lambda>x. is4 x = is4 (at_ip a)) (row_addrs public)) made)"

section \<open>Clocks and handshakes\<close>

text \<open>A duration counts nanoseconds in 64 bits; \<^verbatim>\<open>Abs\<close> maps the smallest one to the largest.\<close>

definition max_duration :: int where
  "max_duration = 2 ^ 63 - 1"

definition minutes :: "int \<Rightarrow> int" where
  "minutes n = n * 60000000000"

definition dur_abs :: "int \<Rightarrow> int" where
  "dur_abs d = (if 0 \<le> d then d else if d = - (2 ^ 63) then max_duration else - d)"

definition clock_skew_threshold :: int where
  "clock_skew_threshold = minutes 5"

text \<open>\<open>None\<close> where the offset is too small to act on.\<close>

definition clock_skew :: "results \<Rightarrow> int option" where
  "clock_skew res =
     (let d = row_clock_offset (row_at res ProbeInternet)
      in if clock_skew_threshold \<le> dur_abs d then Some d else None)"

definition skew_explains_tls :: "cause \<Rightarrow> int \<Rightarrow> bool" where
  "skew_explains_tls c d \<longleftrightarrow>
     c = TLSCauseCertificateNotYet \<and> d < 0 \<or> c = TLSCauseCertificateExpired \<and> 0 < d"

definition skew_disproves_tls :: "cause \<Rightarrow> int \<Rightarrow> bool" where
  "skew_disproves_tls c d \<longleftrightarrow>
     c \<in> {TLSCauseCertificateNotYet, TLSCauseCertificateExpired} \<and> \<not> skew_explains_tls c d"

definition tls_cause :: "cause \<Rightarrow> bool" where
  "tls_cause c \<longleftrightarrow>
     c \<in> {TLSCauseCertificateExpired, TLSCauseCertificateNotYet, TLSCauseHostnameMismatch,
           TLSCauseUntrustedIssuer, TLSCauseHandshake, TLSCauseTCPUnreachable,
           TLSCauseTimeout, TLSCauseConnectionClosed}"

definition certificate_rejected :: "cause \<Rightarrow> bool" where
  "certificate_rejected c \<longleftrightarrow>
     c \<in> {TLSCauseCertificateExpired, TLSCauseCertificateNotYet, TLSCauseHostnameMismatch, TLSCauseUntrustedIssuer}"

text \<open>The row with the failed handshake; the flag is false where none failed.\<close>

definition tls_failure_row :: "results \<Rightarrow> probe_id \<times> bool" where
  "tls_failure_row res =
     (if \<not> has res ProbeTLS then (ProbeTLS, False)
      else if failed res ProbeTLS then (ProbeTLS, True)
      else if row_status (row_at res ProbeSMTP) = StatusFail \<and> tls_cause (row_cause (row_at res ProbeSMTP))
        then (ProbeSMTP, True)
      else (ProbeTLS, False))"

section \<open>Families of the target\<close>

definition family_attempts_all_refused :: "row \<Rightarrow> bool \<Rightarrow> bool" where
  "family_attempts_all_refused r v4 \<longleftrightarrow>
     (let made = filter (\<lambda>a. is4 (at_ip a) = v4 \<and> at_err a \<noteq> None \<and> \<not> at_aborted a) (row_attempts r)
      in made \<noteq> [] \<and> list_all (\<lambda>a. attempt_cause a = ConnectionCauseRefused) made)"

definition no_families :: family_connectivity where
  "no_families = \<lparr>fc_v4 = FamilyUntested, fc_v6 = FamilyUntested\<rparr>"

definition reaches :: "family_connectivity option \<Rightarrow> (family_connectivity \<Rightarrow> family_state) \<Rightarrow> bool" where
  "reaches f sel \<longleftrightarrow> (case f of None \<Rightarrow> False | Some c \<Rightarrow> sel c = FamilyReachable)"

definition effective_target_families :: "results \<Rightarrow> family_connectivity" where
  "effective_target_families res =
     (let tgt = row_at res ProbeTargetTCP; net = row_families (row_at res ProbeInternet)
      in case row_families tgt of
           None \<Rightarrow> no_families
         | Some out \<Rightarrow>
             \<lparr>fc_v4 = (if fc_v4 out = FamilyUnreachable \<and> \<not> reaches net fc_v4 \<and> \<not> family_attempts_all_refused tgt True
                       then FamilyUntested else fc_v4 out),
              fc_v6 = (if fc_v6 out = FamilyUnreachable \<and> \<not> reaches net fc_v6 \<and> \<not> family_attempts_all_refused tgt False
                       then FamilyUntested else fc_v6 out)\<rparr>)"

definition attempt_family_reachable :: "family_connectivity \<Rightarrow> ip \<Rightarrow> bool" where
  "attempt_family_reachable f x \<longleftrightarrow> (if is4 x then fc_v4 f else fc_v6 f) = FamilyReachable"

section \<open>Answers of two resolvers\<close>

definition route_prefix :: "ip \<Rightarrow> prefix option" where
  "route_prefix x =
     (case addr_from_slice x of
        None \<Rightarrow> None
      | Some a \<Rightarrow> let b = unmap a; p = addr_prefix b (if addr_is4 b then 16 else 32)
                  in if prefix_valid p then Some p else None)"

definition answers_agree :: "ip list \<Rightarrow> ip list \<Rightarrow> bool" where
  "answers_agree xs ys \<longleftrightarrow>
     list_ex (\<lambda>p. p \<in> set (List.map_filter route_prefix xs)) (List.map_filter route_prefix ys)"

definition dns_answers_disagree :: "row \<Rightarrow> row \<Rightarrow> bool" where
  "dns_answers_disagree system independent =
     (case row_comparison independent of
        ComparisonAgree \<Rightarrow> False
      | ComparisonDisagree \<Rightarrow> True
      | ComparisonUnrecorded \<Rightarrow> \<not> answers_agree (row_addrs system) (row_addrs independent))"

section \<open>Routes of the target\<close>

definition selected_target_route :: "results \<Rightarrow> route_decision option" where
  "selected_target_route res =
     (let r = row_at res ProbeTargetTCP
      in if row_routes r = [] then None
         else if row_selected r \<noteq> [] \<and> route_for (row_routes r) (row_selected r) \<noteq> None
           then route_for (row_routes r) (row_selected r)
         else Some (hd (row_routes r)))"

end
