(* ===== verification/Finalize.thy ===== *)
theory Finalize
  imports Observations
begin

text \<open>
  \<^verbatim>\<open>Finalize\<close> of \<^verbatim>\<open>internal/diagnostic/diagnosis.go\<close>: the passes over a finished run in
  which results read each other, in the order the code applies them, with the texts they
  append. \<^verbatim>\<open>reconcilePreferredPath\<close> is in \<^verbatim>\<open>route_cause.go\<close>, \<^verbatim>\<open>reconcileCounterfactuals\<close> in
  \<^verbatim>\<open>counterfactual.go\<close>, and the hints in \<^verbatim>\<open>fixhints.go\<close>.
\<close>

section \<open>System and public DNS\<close>

definition join_ips :: "ip list \<Rightarrow> string" where
  "join_ips xs = join (map ip_string xs) '', ''"

text \<open>The distinct comparison prefixes of a set of answers, sorted as texts.\<close>

definition comparison_prefixes :: "ip list \<Rightarrow> string" where
  "comparison_prefixes xs =
     (let seen = remdups (List.map_filter route_prefix xs)
      in if seen = [] then ''no comparison prefix''
         else join (sort_func three_way (map prefix_string seen)) '', '')"

definition fix_public_resolves :: string where
  "fix_public_resolves = ''check the configured resolver, VPN, or DNS filter''"

definition fix_name_missing :: string where
  "fix_name_missing = ''check the hostname or publish the missing DNS record''"

definition record_comparison :: "row \<Rightarrow> row \<Rightarrow> row" where
  "record_comparison system public =
     (if row_status system = StatusPass \<and> row_addrs system \<noteq> [] \<and> row_addrs public \<noteq> []
      then public\<lparr>row_comparison :=
        (if answers_agree (row_addrs system) (row_addrs public) then ComparisonAgree else ComparisonDisagree)\<rparr>
      else public)"

definition disagreement_detail :: "row \<Rightarrow> row \<Rightarrow> string" where
  "disagreement_detail system public =
     ''answers point elsewhere; system: '' @ join_ips (row_addrs system)
     @ '' ('' @ comparison_prefixes (row_addrs system) @ ''); public '' @ row_resolver public @ '': ''
     @ join_ips (row_addrs public) @ '' ('' @ comparison_prefixes (row_addrs public)
     @ '') (split DNS may be intentional)''"

definition agreed_missing_text :: string where
  "agreed_missing_text = ''; public DNS agrees there are no A/AAAA records''"

definition public_resolves_text :: string where
  "public_resolves_text = '', but public DNS resolves it''"

definition only_public_text :: string where
  "only_public_text = '' (system DNS reports no records, so split DNS or filtering may be intentional)''"

definition only_system_detail :: "string \<Rightarrow> string" where
  "only_system_detail resolver =
     ''system DNS resolves the name, but '' @ resolver @ '' reports no records; split DNS or filtering may be intentional''"

definition compare_dns :: "row \<Rightarrow> row \<Rightarrow> row \<times> row" where
  "compare_dns system public =
     (if row_not_found system \<and> row_not_found public then
        (system\<lparr>row_detail := row_detail system @ agreed_missing_text,
                row_fix := fix_name_missing\<rparr>, public)
      else if row_status system = StatusPass \<and> row_not_found public then
        (system, public\<lparr>row_status := StatusWarn,
           row_detail := only_system_detail (row_resolver public)\<rparr>)
      else if row_not_found system \<and> row_addrs public \<noteq> [] then
        (system\<lparr>row_detail := row_detail system @ public_resolves_text, row_fix := fix_public_resolves\<rparr>,
         public\<lparr>row_status := StatusWarn,
           row_detail := row_detail public @ only_public_text\<rparr>)
      else if row_comparison public = ComparisonDisagree then
        (system, public\<lparr>row_status := StatusWarn, row_detail := disagreement_detail system public\<rparr>)
      else if row_status system = StatusFail \<and> row_addrs public \<noteq> [] then
        (system\<lparr>row_detail := row_detail system @ public_resolves_text, row_fix := fix_public_resolves\<rparr>,
         public)
      else (system, public))"

definition reconcile_dns :: "results \<Rightarrow> results" where
  "reconcile_dns res =
     (case (res ProbeDNS, res ProbeDNSPublic) of
        (Some system, Some public) \<Rightarrow>
          if \<not> dns_names_comparable res \<or> row_status public \<noteq> StatusPass then res
          else (case compare_dns system (record_comparison system public) of
                  (s, p) \<Rightarrow> res(ProbeDNS \<mapsto> s, ProbeDNSPublic \<mapsto> p))
      | _ \<Rightarrow> res)"

section \<open>The direct path\<close>

definition preferred_path_summary :: string where
  "preferred_path_summary =
     ''Reference TCP connections failed through the preferred default path, but the target connected through a lower-preference alternate path.''"

text \<open>The family whose reference dials all failed over a path the target's socket did not
  take, where another default path did carry it.\<close>

definition alternate_family :: "results \<Rightarrow> family option" where
  "alternate_family res =
     (let internet = row_at res ProbeInternet; tgt = row_at res ProbeTargetTCP;
          fam = route_family (row_selected tgt)
      in case row_families internet of
           None \<Rightarrow> None
         | Some f \<Rightarrow>
             if row_status internet \<noteq> StatusFail \<or> row_portal internet \<noteq> None
                \<or> \<not> functional (row_status tgt) \<or> row_selected tgt = [] \<or> row_source tgt = [] \<or> row_iface_ambiguous tgt
             then None
             else if fam = IPv4 \<and> fc_v4 f \<noteq> FamilyUnreachable \<or> fam = IPv6 \<and> fc_v6 f \<noteq> FamilyUnreachable then None
             else case route_for (row_routes tgt) (row_selected tgt) of
                    None \<Rightarrow> None
                  | Some path \<Rightarrow>
                      if rd_family path = fam \<and> ip_equal (rd_source path) (row_source tgt) \<and> rd_iface path = row_iface tgt
                         \<and> list_ex (default_path_matches path) (row_alternates internet fam)
                      then Some fam else None)"

definition reconcile_preferred_path :: "results \<Rightarrow> results" where
  "reconcile_preferred_path res =
     (case alternate_family res of
        None \<Rightarrow> res
      | Some fam \<Rightarrow> res(ProbeInternet \<mapsto> (row_at res ProbeInternet)
          \<lparr>row_cause := RouteCausePreferredPathAlternateReachable, row_cause_family := fam,
           row_detail := preferred_path_summary\<rparr>))"

definition egress_fix :: string where
  "egress_fix = ''no egress to the reference endpoints: proxy-only/filtered network? check upstream''"

fun route_fix :: "cause \<Rightarrow> string" where
  "route_fix RouteCauseNoDefaultRoute =
     ''no default route: nothing in the routing table leads off this network, check DHCP, the VPN, or a static route''"
| "route_fix RouteCauseGatewayUnreachable =
     ''the default gateway is not answering at the link layer: check the cable/Wi-Fi link, the gateway itself, or a wrong static IP/subnet''"
| "route_fix RouteCauseSelectedPathFailed =
     ''a default route exists, but the failed reference connections do not locate the break: check the gateway and upstream connectivity''"
| "route_fix RouteCausePreferredPathFailed =
     ''multiple default routes exist with a metric preference; the failed reference connections do not prove which route is broken: test each path before changing preference''"
| "route_fix RouteCausePreferredPathAlternateReachable =
     ''compare the preferred path's gateway and upstream with the working alternate; target reachability alone does not guarantee that changing the default will restore reference connectivity''"
| "route_fix _ = egress_fix"

definition other_path_works :: "results \<Rightarrow> row \<Rightarrow> bool" where
  "other_path_works res r \<longleftrightarrow> row_cause r = RouteCausePreferredPathAlternateReachable \<or> public_target_reached res"

definition another_path_text :: string where
  "another_path_text = '', but another path works''"

definition proxy_path_text :: string where
  "proxy_path_text = '', but the environment proxy works''"

definition downgraded_row :: "bool \<Rightarrow> row \<Rightarrow> row" where
  "downgraded_row other r =
     (let r = r\<lparr>row_status := StatusWarn, row_downgraded := True, row_fix := egress_fix\<rparr>
      in if row_cause r = RouteCausePreferredPathAlternateReachable then r\<lparr>row_fix := route_fix (row_cause r)\<rparr>
         else if other then r\<lparr>row_detail := row_detail r @ another_path_text\<rparr>
         else r\<lparr>row_detail := row_detail r @ proxy_path_text\<rparr>)"

definition downgrade_egress :: "results \<Rightarrow> results" where
  "downgrade_egress res =
     (case res ProbeInternet of
        None \<Rightarrow> res
      | Some r \<Rightarrow>
          if row_status r \<noteq> StatusFail \<or> row_portal r \<noteq> None then res
          else if \<not> other_path_works res r \<and> \<not> proxy_carries res then res
          else res(ProbeInternet \<mapsto> downgraded_row (other_path_works res r) r))"

section \<open>Encrypted DNS\<close>

definition encrypted_only_text :: string where
  "encrypted_only_text = ''; plain DNS resolves at the same time, so this is specific to encrypted DNS''"

definition encrypted_fix :: string where
  "encrypted_fix =
     ''encrypted DNS cannot complete a verified exchange while ordinary DNS works; the resolver may be unavailable, or a filter or middlebox may block or intercept DoH/DoT''"

definition reconcile_encrypted_dns :: "results \<Rightarrow> results" where
  "reconcile_encrypted_dns res =
     (if \<not> encrypted_dns_blocked res then res
      else let r = row_at res ProbeDNSEncrypted
           in res(ProbeDNSEncrypted \<mapsto> r\<lparr>row_detail := row_detail r @ encrypted_only_text, row_fix := encrypted_fix\<rparr>))"

section \<open>The clock\<close>

text \<open>\<^verbatim>\<open>Duration.Round\<close> of a magnitude that is not negative: half rounds up, and a sum
  over the largest duration stays there.\<close>

definition round_dur :: "int \<Rightarrow> int \<Rightarrow> int" where
  "round_dur d m =
     (let r = d mod m in if r + r < m then d - r else if d + m - r \<le> max_duration then d + m - r else max_duration)"

definition skew_count :: "int \<Rightarrow> int \<times> string" where
  "skew_count d =
     (let d = dur_abs d
      in if minutes (48 * 60) \<le> d then (round_dur d (minutes (24 * 60)) div minutes (24 * 60), '' days'')
         else if minutes 90 \<le> d then (round_dur d (minutes 60) div minutes 60, '' hours'')
         else (round_dur d (minutes 1) div minutes 1, '' minutes''))"

definition human_skew :: "int \<Rightarrow> string" where
  "human_skew d = (case skew_count d of (n, u) \<Rightarrow> int_dec n @ u)"

definition clock_skew_phrase :: "int \<Rightarrow> string" where
  "clock_skew_phrase d =
     ''this machine's clock is about '' @ human_skew d @ (if d < 0 then '' slow'' else '' fast'')"

definition clock_skew_effect :: "int \<Rightarrow> string" where
  "clock_skew_effect d =
     (if d < 0 then ''certificates that are already valid look not yet valid''
      else ''certificates that are still valid look expired'')"

definition clock_hedge_suffix :: string where
  "clock_hedge_suffix = '', or check this machine's clock''"

text \<open>\<^verbatim>\<open>strings.TrimSuffix\<close>.\<close>

definition trim_suffix :: "string \<Rightarrow> string \<Rightarrow> string" where
  "trim_suffix s p = (if has_suffix s p then take (length s - length p) s else s)"

definition skew_explained_fix :: "int \<Rightarrow> string" where
  "skew_explained_fix d =
     clock_skew_phrase d @ '', so '' @ clock_skew_effect d @ '': set the clock (enable network time) and retry''"

definition skew_beside_fix :: "int \<Rightarrow> string" where
  "skew_beside_fix d =
     ''TLS broken: bad/expired cert or MITM proxy, and separately '' @ clock_skew_phrase d
     @ '', which can break certificate validation on its own''"

definition skew_fix :: "int \<Rightarrow> row \<Rightarrow> row" where
  "skew_fix d r =
     (if skew_explains_tls (row_cause r) d then r\<lparr>row_fix := skew_explained_fix d\<rparr>
      else if skew_disproves_tls (row_cause r) d then r\<lparr>row_fix := trim_suffix (row_fix r) clock_hedge_suffix\<rparr>
      else if row_cause r = TLSCauseHandshake then r\<lparr>row_fix := skew_beside_fix d\<rparr>
      else r)"

definition reconcile_clock_skew :: "results \<Rightarrow> results" where
  "reconcile_clock_skew res =
     (case clock_skew res of
        None \<Rightarrow> res
      | Some d \<Rightarrow>
          (case tls_failure_row res of
             (i, True) \<Rightarrow> res(i \<mapsto> skew_fix d (row_at res i))
           | (i, False) \<Rightarrow> res))"

section \<open>Families of the target\<close>

fun family_label :: "family \<Rightarrow> string" where
  "family_label IPv4 = ''IPv4''"
| "family_label _ = ''IPv6''"

definition split_families :: "family_connectivity \<Rightarrow> bool" where
  "split_families f \<longleftrightarrow>
     fc_v4 f = FamilyReachable \<and> fc_v6 f = FamilyUnreachable \<or> fc_v6 f = FamilyReachable \<and> fc_v4 f = FamilyUnreachable"

definition split_warning :: "family_connectivity \<Rightarrow> string" where
  "split_warning f =
     (let bad = (if fc_v4 f = FamilyUnreachable then IPv4 else IPv6);
          good = (if fc_v4 f = FamilyUnreachable then IPv6 else IPv4)
      in ''; warning: '' @ family_label bad @ '' target connectivity failed while '' @ family_label good @ '' succeeded'')"

definition settle_families :: "family_connectivity \<Rightarrow> row \<Rightarrow> row" where
  "settle_families f r =
     (let r = r\<lparr>row_families := (if fc_v4 f = FamilyUntested \<and> fc_v6 f = FamilyUntested then None else Some f)\<rparr>
      in if row_selected r \<noteq> [] \<and> split_families f
         then r\<lparr>row_status := StatusWarn, row_detail := row_detail r @ split_warning f\<rparr>
         else r)"

definition reconcile_counterfactuals :: "results \<Rightarrow> results" where
  "reconcile_counterfactuals res =
     (case res ProbeTargetTCP of
        None \<Rightarrow> res
      | Some r \<Rightarrow>
          if row_families r = None then res
          else res(ProbeTargetTCP \<mapsto> settle_families (effective_target_families res) r))"

section \<open>All passes\<close>

definition finalize :: "results \<Rightarrow> results" where
  "finalize res =
     reconcile_counterfactuals (reconcile_clock_skew (reconcile_encrypted_dns
       (downgrade_egress (reconcile_preferred_path (reconcile_dns res)))))"

end
