(* ===== verification/Diagnosis.thy ===== *)
theory Diagnosis
  imports Finalize
begin

text \<open>
  The types of a diagnosis (\<^verbatim>\<open>internal/diagnostic/finding.go\<close>), how strongly a finding may
  be claimed (\<^verbatim>\<open>confidence.go\<close>), and the comparisons of controlled alternatives
  (\<^verbatim>\<open>counterfactual.go\<close>). A summary is a constructor with the values it prints.
\<close>

section \<open>Vocabulary\<close>

datatype diagnosis_id =
    DiagnosisNoUsableInterface | DiagnosisCaptivePortal | DiagnosisOffline | DiagnosisDirectEgressBlocked
  | DiagnosisDirectEgressDegraded | DiagnosisProxyOnlyNetwork | DiagnosisLocalEgressFailure
  | DiagnosisProbablePathMTU | DiagnosisReferenceEgressUnreachable | DiagnosisReachabilityUnlocalized
  | DiagnosisSystemDNSFailure | DiagnosisDNSNameNotFound | DiagnosisDNSFailure | DiagnosisDNSDisagreement
  | DiagnosisEncryptedDNSUnavailable | DiagnosisQUICUnavailable | DiagnosisProxyFailure
  | DiagnosisTCPConnectionRefused | DiagnosisTargetUnreachable | DiagnosisLocalDeviceUnreachable
  | DiagnosisReachabilityUntested | DiagnosisIPv4TargetUnreachable | DiagnosisIPv6TargetUnreachable
  | DiagnosisPartialReachability | DiagnosisUncorroboratedEndpointFailure
  | DiagnosisTLSCertificateExpired | DiagnosisTLSCertificateNotYetValid | DiagnosisTLSHostnameMismatch
  | DiagnosisTLSUntrustedIssuer | DiagnosisTLSClockSkew | DiagnosisTLSTimeout | DiagnosisTLSConnectionClosed
  | DiagnosisTLSTCPUnreachable | DiagnosisTLSHandshakeFailure
  | DiagnosisHTTPSNoResponse | DiagnosisHTTPNoResponse | DiagnosisHTTPConnectionClosed
  | DiagnosisInvalidHTTPResponse | DiagnosisServiceBannerFailure | DiagnosisServiceBannerMissing
  | DiagnosisSelectedDNSCheckFailed | DiagnosisSelectedServiceCheckFailed | DiagnosisSelectedNetworkCheckFailed

datatype evidence_kind = EvidenceSupport | EvidenceContradiction | EvidenceRuledOut | EvidenceNotEvaluated

datatype observation_id =
    ObservationStatusPass | ObservationStatusWarn | ObservationStatusFail | ObservationStatusSkip
  | ObservationStatusNA | ObservationCause | ObservationDNSAnswers | ObservationDNSNotFound
  | ObservationCaptivePortal | ObservationTimeout | ObservationClockOffset | ObservationStatusDowngraded
  | ObservationFamilyReachable | ObservationFamilyFailed | ObservationAddressSucceeded | ObservationAddressFailed
  | ObservationRouteTunneled | ObservationRouteDirect | ObservationRouteUnreachable | ObservationRoutePathDiffers
  | ObservationRouteNextHopDiffers | ObservationRouteTableDiffers | ObservationRouteFamilySplit
  | ObservationRouteInterfaceMTU

datatype not_evaluated_reason =
    NotEvaluatedPrerequisite | NotEvaluatedNotSelected | NotEvaluatedNotApplicable | NotEvaluatedIncomplete

datatype verdict = VerdictOK | VerdictDegraded | VerdictDNS | VerdictNetwork | VerdictService | VerdictIncomplete

datatype confidence = ConfidenceHigh | ConfidenceMedium | ConfidenceLow | ConfidenceInsufficientEvidence

text \<open>The string of an address family, as evidence and counterfactuals carry it.\<close>

fun family_text :: "family \<Rightarrow> string" where
  "family_text NoFamily = []"
| "family_text IPv4 = ''ipv4''"
| "family_text IPv6 = ''ipv6''"

record causal_evidence =
  ce_kind :: evidence_kind
  ce_check :: probe_id
  ce_observation :: "observation_id option"
  ce_value :: string
  ce_candidate :: "diagnosis_id option"
  ce_reason :: "not_evaluated_reason option"

definition support :: "probe_id \<Rightarrow> observation_id \<Rightarrow> string \<Rightarrow> causal_evidence" where
  "support i ob v =
     \<lparr>ce_kind = EvidenceSupport, ce_check = i, ce_observation = Some ob, ce_value = v, ce_candidate = None, ce_reason = None\<rparr>"

section \<open>Summaries\<close>

text \<open>One constructor per sentence of the sources, grouped by the part of the table that says
  it. A flag says which wording: with a target, degraded, reset instead of closed.\<close>

datatype run_sentence =
    SayNoChecks | SayRunning | SaySelectedDNSFailed | SaySelectedServiceFailed | SaySelectedNetworkFailed
  | SaySelectedWarnings | SaySelectedPassed | SayLinkDown | SayPortal "string option" | SayEncryptedDNS
  | SayQUICFailed bool | SayProxyDown bool | SayDNSDisagree bool | SayEgressDegraded bool bool
  | SayTargetSomeDegraded | SayTargetHealthy string

datatype generic_sentence =
    SaySystemDNSFailing | SayTestNameMissing | SayDNSFailing bool
  | SayQUICOnDisagreement | SayQUICOnUncorroborated | SayOnline | SayOnlineViaProxy | SayOnlyProxyNoDNS
  | SayNoDirectEgress | SayOffline

datatype reach_sentence =
    SayCannotResolve string diagnosis_id bool
  | SayLocalRefused string | SayLocalSilent string | SayLocalUntested string | SayLocalPathBroken string
  | SayLocalUnlocalized string | SayRefused string | SayTargetUncorroborated string | SayUntestedAddresses string
  | SayTargetUnreachable string | SayProxyOnlyTarget string | SayUntested string | SayLocalEgress string
  | SayUnlocalized string | SayPathMTU string | SayPreferredPath | SayReferenceOnly | SayDirectBlockedTarget

datatype service_sentence =
    SayClockSkew string int | SayCertExpired string bool | SayCertNotYet string bool | SayCertHostname string
  | SayCertIssuer string | SayTLSTimeout string | SayTLSClosed string | SayTLSUnreachable string
  | SayTLSUnclassified string | SayOnSMTPConnection service_sentence
  | SayHTTPSInvalid string | SayHTTPSEnded string bool | SayHTTPSSilent string
  | SayHTTPInvalid bool string | SayHTTPEnded bool string bool | SayHTTPSilent bool string
  | SayBannerFailed string | SayBannerMissing string

datatype compare_sentence =
    SayNeitherResolves "string option" | SayOnlyIndependentResolves "string option"
  | SayOnlySystemResolves "string option" | SayAnswersDiffer "string option"
  | SayFamilyFails family string family | SayAddressFails string bool

datatype sentence =
    OfRun run_sentence | OfGeneric generic_sentence | OfReach reach_sentence
  | OfService service_sentence | OfCompare compare_sentence

section \<open>Findings\<close>

datatype counterfactual_variable = CounterfactualDNSResolver | CounterfactualAddressFamily | CounterfactualResolvedAddress

datatype counterfactual_outcome = CounterfactualSucceeded | CounterfactualFailed | CounterfactualNotFound

record alternative =
  al_value :: string
  al_outcome :: counterfactual_outcome
  al_evidence :: "causal_evidence list"

record counterfactual =
  cf_variable :: counterfactual_variable
  cf_alternatives :: "alternative list"

text \<open>\<open>fi_confidence\<close> is \<open>None\<close> until the last pass writes it.\<close>

record diagnosis_finding =
  fi_id :: diagnosis_id
  fi_verdict :: verdict
  fi_summary :: sentence
  fi_focus :: probe_id
  fi_evidence :: "causal_evidence list"
  fi_counterfactual :: "counterfactual option"
  fi_confidence :: "confidence option"

record diagnosis =
  di_verdict :: verdict
  di_summary :: sentence
  di_blamed :: "probe_id option"
  di_findings :: "diagnosis_finding list"

definition focus :: "diagnosis \<Rightarrow> probe_id option" where
  "focus d = (case di_findings d of [] \<Rightarrow> None | f # _ \<Rightarrow> Some (fi_focus f))"

definition evidence_rows :: "diagnosis_finding \<Rightarrow> probe_id list" where
  "evidence_rows f =
     foldl (\<lambda>rows e. if ce_kind e = EvidenceNotEvaluated then rows else append_new rows (ce_check e)) [] (fi_evidence f)"

fun tls_diagnosis_id :: "cause \<Rightarrow> diagnosis_id" where
  "tls_diagnosis_id TLSCauseCertificateExpired = DiagnosisTLSCertificateExpired"
| "tls_diagnosis_id TLSCauseCertificateNotYet = DiagnosisTLSCertificateNotYetValid"
| "tls_diagnosis_id TLSCauseHostnameMismatch = DiagnosisTLSHostnameMismatch"
| "tls_diagnosis_id TLSCauseUntrustedIssuer = DiagnosisTLSUntrustedIssuer"
| "tls_diagnosis_id TLSCauseTimeout = DiagnosisTLSTimeout"
| "tls_diagnosis_id TLSCauseConnectionClosed = DiagnosisTLSConnectionClosed"
| "tls_diagnosis_id TLSCauseTCPUnreachable = DiagnosisTLSTCPUnreachable"
| "tls_diagnosis_id _ = DiagnosisTLSHandshakeFailure"

section \<open>Confidence\<close>

datatype confidence_class = ClassUnresolved | ClassBroad | ClassInferred | ClassObserved

fun ceiling_of :: "confidence_class \<Rightarrow> confidence" where
  "ceiling_of ClassObserved = ConfidenceHigh"
| "ceiling_of ClassInferred = ConfidenceMedium"
| "ceiling_of ClassBroad = ConfidenceLow"
| "ceiling_of ClassUnresolved = ConfidenceInsufficientEvidence"

definition diagnosis_confidence :: "(diagnosis_id \<times> confidence_class) list" where
  "diagnosis_confidence =
     [(DiagnosisNoUsableInterface, ClassObserved),
      (DiagnosisCaptivePortal, ClassObserved),
      (DiagnosisOffline, ClassInferred),
      (DiagnosisDirectEgressBlocked, ClassInferred),
      (DiagnosisDirectEgressDegraded, ClassObserved),
      (DiagnosisProxyOnlyNetwork, ClassObserved),
      (DiagnosisLocalEgressFailure, ClassInferred),
      (DiagnosisReferenceEgressUnreachable, ClassObserved),
      (DiagnosisReachabilityUnlocalized, ClassUnresolved),
      (DiagnosisProbablePathMTU, ClassInferred),
      (DiagnosisSystemDNSFailure, ClassInferred),
      (DiagnosisDNSNameNotFound, ClassObserved),
      (DiagnosisDNSFailure, ClassBroad),
      (DiagnosisDNSDisagreement, ClassInferred),
      (DiagnosisEncryptedDNSUnavailable, ClassInferred),
      (DiagnosisQUICUnavailable, ClassObserved),
      (DiagnosisProxyFailure, ClassObserved),
      (DiagnosisTCPConnectionRefused, ClassObserved),
      (DiagnosisTargetUnreachable, ClassBroad),
      (DiagnosisLocalDeviceUnreachable, ClassBroad),
      (DiagnosisReachabilityUntested, ClassUnresolved),
      (DiagnosisIPv4TargetUnreachable, ClassObserved),
      (DiagnosisIPv6TargetUnreachable, ClassObserved),
      (DiagnosisPartialReachability, ClassObserved),
      (DiagnosisUncorroboratedEndpointFailure, ClassUnresolved),
      (DiagnosisTLSCertificateExpired, ClassObserved),
      (DiagnosisTLSCertificateNotYetValid, ClassObserved),
      (DiagnosisTLSHostnameMismatch, ClassObserved),
      (DiagnosisTLSUntrustedIssuer, ClassObserved),
      (DiagnosisTLSClockSkew, ClassObserved),
      (DiagnosisTLSTimeout, ClassInferred),
      (DiagnosisTLSConnectionClosed, ClassInferred),
      (DiagnosisTLSTCPUnreachable, ClassInferred),
      (DiagnosisTLSHandshakeFailure, ClassBroad),
      (DiagnosisHTTPSNoResponse, ClassInferred),
      (DiagnosisHTTPNoResponse, ClassInferred),
      (DiagnosisHTTPConnectionClosed, ClassInferred),
      (DiagnosisInvalidHTTPResponse, ClassObserved),
      (DiagnosisServiceBannerFailure, ClassInferred),
      (DiagnosisServiceBannerMissing, ClassInferred),
      (DiagnosisSelectedDNSCheckFailed, ClassUnresolved),
      (DiagnosisSelectedServiceCheckFailed, ClassUnresolved),
      (DiagnosisSelectedNetworkCheckFailed, ClassUnresolved)]"

definition must_rule_out :: "diagnosis_id \<Rightarrow> diagnosis_id option" where
  "must_rule_out i =
     (if i \<in> {DiagnosisTLSCertificateExpired, DiagnosisTLSCertificateNotYetValid} then Some DiagnosisTLSClockSkew
      else None)"

definition excludes :: "causal_evidence list \<Rightarrow> diagnosis_id option \<Rightarrow> bool" where
  "excludes es c \<longleftrightarrow> c = None \<or> list_ex (\<lambda>e. ce_kind e = EvidenceRuledOut \<and> ce_candidate e = c) es"

definition unresolved_alternative :: "causal_evidence list \<Rightarrow> bool" where
  "unresolved_alternative es \<longleftrightarrow>
     list_ex (\<lambda>e. ce_kind e = EvidenceContradiction
       \<and> \<not> list_ex (\<lambda>e'. ce_kind e' = EvidenceRuledOut \<and> ce_candidate e' = ce_candidate e) es) es"

definition missing_differential :: "causal_evidence list \<Rightarrow> bool" where
  "missing_differential es \<longleftrightarrow>
     list_ex (\<lambda>e. ce_kind e = EvidenceNotEvaluated
       \<and> ce_reason e \<in> {Some NotEvaluatedNotSelected, Some NotEvaluatedIncomplete}) es"

definition confidence_for :: "diagnosis_finding \<Rightarrow> confidence" where
  "confidence_for f =
     (case map_of diagnosis_confidence (fi_id f) of
        None \<Rightarrow> ConfidenceInsufficientEvidence
      | Some c \<Rightarrow>
          if c = ClassObserved \<and> (unresolved_alternative (fi_evidence f) \<or> missing_differential (fi_evidence f)
             \<or> \<not> excludes (fi_evidence f) (must_rule_out (fi_id f)))
          then ConfidenceMedium else ceiling_of c)"

end
