(* ===== verification/Alternatives.thy ===== *)
theory Alternatives
  imports Diagnosis
begin

text \<open>
  The three comparisons of controlled alternatives (\<^verbatim>\<open>counterfactual.go\<close>): the two
  resolvers, the two address families of the target, and its single addresses.
\<close>

section \<open>Two resolvers\<close>

definition alternative_of :: "string \<Rightarrow> counterfactual_outcome \<Rightarrow> probe_id \<Rightarrow> observation_id \<Rightarrow> alternative" where
  "alternative_of v outcome i ob = \<lparr>al_value = v, al_outcome = outcome, al_evidence = [support i ob []]\<rparr>"

definition dns_finding :: "diagnosis_id \<Rightarrow> verdict \<Rightarrow> compare_sentence \<Rightarrow> alternative list \<Rightarrow> diagnosis_finding" where
  "dns_finding i v say alts =
     \<lparr>fi_id = i, fi_verdict = v, fi_summary = OfCompare say, fi_focus = ProbeDNS,
      fi_evidence = concat (map al_evidence alts),
      fi_counterfactual = Some \<lparr>cf_variable = CounterfactualDNSResolver, cf_alternatives = alts\<rparr>,
      fi_confidence = None\<rparr>"

definition dns_counterfactual :: "target option \<Rightarrow> results \<Rightarrow> diagnosis_finding option" where
  "dns_counterfactual t res =
     (let system = row_at res ProbeDNS; independent = row_at res ProbeDNSPublic;
          name = map_option tg_host t; sys = alternative_of ''system''; ind = alternative_of ''independent''
      in if \<not> dns_names_comparable res \<or> row_status independent = StatusNA \<or> row_status independent = StatusSkip then None
         else if row_not_found system \<and> row_not_found independent then
           Some (dns_finding DiagnosisDNSNameNotFound VerdictDNS (SayNeitherResolves name)
             [sys CounterfactualNotFound ProbeDNS ObservationDNSNotFound,
              ind CounterfactualNotFound ProbeDNSPublic ObservationDNSNotFound])
         else if (row_status system = StatusFail \<or> row_not_found system) \<and> row_addrs independent \<noteq> [] then
           Some (dns_finding DiagnosisSystemDNSFailure VerdictDNS (SayOnlyIndependentResolves name)
             [(if row_not_found system then sys CounterfactualNotFound ProbeDNS ObservationDNSNotFound
               else if row_cause system = NoCause then sys CounterfactualFailed ProbeDNS ObservationStatusFail
               else sys CounterfactualFailed ProbeDNS ObservationCause),
              ind CounterfactualSucceeded ProbeDNSPublic ObservationDNSAnswers])
         else if row_addrs system \<noteq> [] \<and> row_not_found independent then
           Some (dns_finding DiagnosisDNSDisagreement VerdictDegraded (SayOnlySystemResolves name)
             [sys CounterfactualSucceeded ProbeDNS ObservationDNSAnswers,
              ind CounterfactualNotFound ProbeDNSPublic ObservationDNSNotFound])
         else if row_addrs system \<noteq> [] \<and> row_addrs independent \<noteq> [] \<and> dns_answers_disagree system independent then
           Some (dns_finding DiagnosisDNSDisagreement VerdictDegraded (SayAnswersDiffer name)
             [sys CounterfactualSucceeded ProbeDNS ObservationDNSAnswers,
              ind CounterfactualSucceeded ProbeDNSPublic ObservationDNSAnswers])
         else None)"

section \<open>Two families\<close>

definition family_finding :: "target \<Rightarrow> results \<Rightarrow> diagnosis_id \<Rightarrow> family \<Rightarrow> family \<Rightarrow> (family_connectivity \<Rightarrow> family_state) \<Rightarrow> diagnosis_finding" where
  "family_finding t res i bad good sel =
     (let failure = support ProbeTargetTCP ObservationFamilyFailed (family_text bad)
            # (if reaches (row_families (row_at res ProbeInternet)) sel
               then [support ProbeInternet ObservationFamilyReachable (family_text bad)] else []);
          success = [support ProbeTargetTCP ObservationFamilyReachable (family_text good)]
      in \<lparr>fi_id = i, fi_verdict = VerdictDegraded, fi_summary = OfCompare (SayFamilyFails bad (tg_host t) good),
          fi_focus = ProbeTargetTCP, fi_evidence = failure @ success,
          fi_counterfactual = Some \<lparr>cf_variable = CounterfactualAddressFamily, cf_alternatives =
            [\<lparr>al_value = family_text bad, al_outcome = CounterfactualFailed, al_evidence = failure\<rparr>,
             \<lparr>al_value = family_text good, al_outcome = CounterfactualSucceeded, al_evidence = success\<rparr>]\<rparr>,
          fi_confidence = None\<rparr>)"

definition family_counterfactual :: "target \<Rightarrow> results \<Rightarrow> diagnosis_finding option" where
  "family_counterfactual t res =
     (if row_families (row_at res ProbeTargetTCP) = None then None
      else let f = effective_target_families res
           in if fc_v4 f = FamilyReachable \<and> fc_v6 f = FamilyUnreachable
                then Some (family_finding t res DiagnosisIPv6TargetUnreachable IPv6 IPv4 fc_v6)
              else if fc_v6 f = FamilyReachable \<and> fc_v4 f = FamilyUnreachable
                then Some (family_finding t res DiagnosisIPv4TargetUnreachable IPv4 IPv6 fc_v4)
              else None)"

section \<open>Single addresses\<close>

definition address_evidence :: "ip \<Rightarrow> observation_id \<Rightarrow> causal_evidence list" where
  "address_evidence x ob =
     [support ProbeTargetTCP ob (ip_string x), support ProbeDNS ObservationDNSAnswers (ip_string x)]"

definition address_alternative :: "ip \<Rightarrow> counterfactual_outcome \<Rightarrow> observation_id \<Rightarrow> alternative" where
  "address_alternative x outcome ob = \<lparr>al_value = ip_string x, al_outcome = outcome, al_evidence = address_evidence x ob\<rparr>"

definition sibling_success :: "row \<Rightarrow> ip list \<Rightarrow> ip \<Rightarrow> attempt option" where
  "sibling_success r resolved x =
     find (\<lambda>s. has16 (at_ip s) \<and> at_err s = None \<and> \<not> at_aborted s \<and> at_cause s = NoCause
        \<and> is4 (at_ip s) = is4 x \<and> \<not> ip_equal (at_ip s) x \<and> contains_resolved resolved (at_ip s))
       (row_attempts r)"

text \<open>The failed addresses and the successes that answer for them, in order of attempts.\<close>

definition address_step :: "row \<Rightarrow> ip list \<Rightarrow> family_connectivity \<Rightarrow> ip list \<times> ip list \<Rightarrow> attempt \<Rightarrow> ip list \<times> ip list" where
  "address_step r resolved f acc a =
     (case acc of (bad, good) \<Rightarrow>
        if at_err a = None \<or> canceled_attempt a \<or> ip_equal (at_ip a) (row_selected r)
           \<or> \<not> contains_resolved resolved (at_ip a) \<or> \<not> attempt_family_reachable f (at_ip a) then acc
        else case sibling_success r resolved (at_ip a) of
               None \<Rightarrow> acc
             | Some s \<Rightarrow>
                 if \<not> has16 (at_ip a) \<or> contains_resolved bad (at_ip a) then acc
                 else (bad @ [at_ip a], if contains_resolved good (at_ip s) then good else good @ [at_ip s]))"

definition compared_addresses :: "results \<Rightarrow> ip list \<times> ip list" where
  "compared_addresses res =
     (let r = row_at res ProbeTargetTCP
      in foldl (address_step r (row_addrs (row_at res ProbeDNS)) (effective_target_families res)) ([], []) (row_attempts r))"

definition address_counterfactual :: "target \<Rightarrow> results \<Rightarrow> diagnosis_finding option" where
  "address_counterfactual t res =
     (let r = row_at res ProbeTargetTCP
      in if row_selected r = [] \<or> length (row_attempts r) < 2 \<or> length (row_addrs (row_at res ProbeDNS)) < 2 then None
         else case compared_addresses res of (bad, good) \<Rightarrow>
           if bad = [] then None
           else let alts = map (\<lambda>x. address_alternative x CounterfactualFailed ObservationAddressFailed) bad
                      @ map (\<lambda>x. address_alternative x CounterfactualSucceeded ObservationAddressSucceeded) good
                in Some \<lparr>fi_id = DiagnosisPartialReachability, fi_verdict = VerdictDegraded,
                     fi_summary = OfCompare (SayAddressFails (tg_host t) (1 < length bad)), fi_focus = ProbeTargetTCP,
                     fi_evidence = concat (map al_evidence alts),
                     fi_counterfactual = Some \<lparr>cf_variable = CounterfactualResolvedAddress, cf_alternatives = alts\<rparr>,
                     fi_confidence = None\<rparr>)"

definition counterfactual_findings :: "target option \<Rightarrow> results \<Rightarrow> diagnosis_finding list" where
  "counterfactual_findings t res =
     List.map_filter id
       (case t of
          None \<Rightarrow> [dns_counterfactual t res]
        | Some tg \<Rightarrow> [dns_counterfactual t res, family_counterfactual tg res, address_counterfactual tg res])"

end
