(* ===== verification/Truth_Table.thy ===== *)
theory Truth_Table
  imports Alternatives
begin

text \<open>
  \<^verbatim>\<open>interpret\<close> of \<^verbatim>\<open>internal/diagnostic/diagnosis.go\<close>: the truth table that turns finished
  results into one conclusion. Its local functions come first; then the table without a
  target, then the table with one, its larger cases as definitions of their own.
\<close>

section \<open>Evidence\<close>

text \<open>The most specific fact a row carries.\<close>

definition observed :: "results \<Rightarrow> probe_id \<Rightarrow> causal_evidence option" where
  "observed res i =
     (case res i of
        None \<Rightarrow> None
      | Some r \<Rightarrow> Some
          (if row_portal r \<noteq> None then support i ObservationCaptivePortal []
           else if row_not_found r then support i ObservationDNSNotFound []
           else if row_cause r \<noteq> NoCause then support i ObservationCause (family_text (row_cause_family r))
           else if row_timed_out r then support i ObservationTimeout []
           else if row_downgraded r then support i ObservationStatusDowngraded []
           else if row_addrs r \<noteq> [] then support i ObservationDNSAnswers []
           else case row_status r of
             StatusPass \<Rightarrow> support i ObservationStatusPass []
           | StatusWarn \<Rightarrow> support i ObservationStatusWarn []
           | StatusFail \<Rightarrow> support i ObservationStatusFail []
           | StatusSkip \<Rightarrow> (support i ObservationStatusSkip [])
               \<lparr>ce_kind := EvidenceNotEvaluated, ce_reason := Some NotEvaluatedPrerequisite\<rparr>
           | StatusNA \<Rightarrow> (support i ObservationStatusNA [])
               \<lparr>ce_kind := EvidenceNotEvaluated, ce_reason := Some NotEvaluatedNotApplicable\<rparr>))"

fun holds_on :: "row \<Rightarrow> observation_id \<Rightarrow> bool" where
  "holds_on r ObservationStatusPass = (row_status r = StatusPass)"
| "holds_on r ObservationStatusWarn = (row_status r = StatusWarn \<and> \<not> row_downgraded r)"
| "holds_on r ObservationStatusFail = (row_status r = StatusFail)"
| "holds_on r ObservationStatusSkip = (row_status r = StatusSkip)"
| "holds_on r ObservationStatusNA = (row_status r = StatusNA)"
| "holds_on r ObservationCause = (row_cause r \<noteq> NoCause)"
| "holds_on r ObservationDNSAnswers = (row_addrs r \<noteq> [])"
| "holds_on r ObservationDNSNotFound = row_not_found r"
| "holds_on r ObservationCaptivePortal = (row_portal r \<noteq> None)"
| "holds_on r ObservationTimeout = (row_timed_out r \<or> row_cause r = TLSCauseTimeout)"
| "holds_on r ObservationClockOffset = (clock_skew_threshold \<le> dur_abs (row_clock_offset r))"
| "holds_on r ObservationStatusDowngraded = row_downgraded r"
| "holds_on r _ = False"

definition observation_exists :: "results \<Rightarrow> probe_id \<Rightarrow> observation_id \<Rightarrow> bool" where
  "observation_exists res i ob \<longleftrightarrow> (case res i of None \<Rightarrow> False | Some r \<Rightarrow> holds_on r ob)"

definition support_rows :: "results \<Rightarrow> probe_id list \<Rightarrow> causal_evidence list" where
  "support_rows res ids = List.map_filter (observed res) ids"

text \<open>An item that is not there is \<open>None\<close>; \<open>add_evidence\<close> leaves it out.\<close>

definition support_observation :: "results \<Rightarrow> probe_id \<Rightarrow> observation_id \<Rightarrow> causal_evidence option" where
  "support_observation res i ob = (if observation_exists res i ob then Some (support i ob []) else None)"

definition relation :: "results \<Rightarrow> evidence_kind \<Rightarrow> diagnosis_id \<Rightarrow> probe_id \<Rightarrow> observation_id \<Rightarrow> causal_evidence option" where
  "relation res k c i ob =
     (if k \<notin> {EvidenceContradiction, EvidenceRuledOut} \<or> ob = ObservationStatusSkip \<or> ob = ObservationStatusNA
         \<or> \<not> observation_exists res i ob then None
      else Some ((support i ob [])\<lparr>ce_kind := k, ce_candidate := Some c\<rparr>))"

abbreviation contradicts :: "results \<Rightarrow> diagnosis_id \<Rightarrow> probe_id \<Rightarrow> observation_id \<Rightarrow> causal_evidence option" where
  "contradicts res \<equiv> relation res EvidenceContradiction"

abbreviation rules_out :: "results \<Rightarrow> diagnosis_id \<Rightarrow> probe_id \<Rightarrow> observation_id \<Rightarrow> causal_evidence option" where
  "rules_out res \<equiv> relation res EvidenceRuledOut"

definition not_evaluated :: "probe_id list \<Rightarrow> results \<Rightarrow> probe_id \<Rightarrow> not_evaluated_reason \<Rightarrow> causal_evidence option" where
  "not_evaluated order res i why =
     (let e = \<lparr>ce_kind = EvidenceNotEvaluated, ce_check = i, ce_observation = None, ce_value = [],
               ce_candidate = None, ce_reason = Some why\<rparr>
      in case why of
           NotEvaluatedPrerequisite \<Rightarrow>
             if observation_exists res i ObservationStatusSkip then Some (e\<lparr>ce_observation := Some ObservationStatusSkip\<rparr>) else None
         | NotEvaluatedNotApplicable \<Rightarrow>
             if observation_exists res i ObservationStatusNA then Some (e\<lparr>ce_observation := Some ObservationStatusNA\<rparr>) else None
         | NotEvaluatedNotSelected \<Rightarrow> if \<not> has res i \<and> i \<notin> set order then Some e else None
         | NotEvaluatedIncomplete \<Rightarrow> if \<not> has res i \<and> i \<in> set order then Some e else None)"

definition add_evidence :: "causal_evidence list \<Rightarrow> causal_evidence option list \<Rightarrow> causal_evidence list" where
  "add_evidence base extra = base @ List.map_filter id extra"

section \<open>Conclusions\<close>

definition plain :: "sentence \<Rightarrow> verdict \<Rightarrow> diagnosis" where
  "plain say v = \<lparr>di_verdict = v, di_summary = say, di_blamed = None, di_findings = []\<rparr>"

text \<open>Each item of evidence once, in the order of its first occurrence.\<close>

definition with_evidence :: "diagnosis_id \<Rightarrow> probe_id \<Rightarrow> sentence \<Rightarrow> verdict \<Rightarrow> causal_evidence list \<Rightarrow> diagnosis" where
  "with_evidence i foc say v es =
     \<lparr>di_verdict = v, di_summary = say, di_blamed = None, di_findings =
        [\<lparr>fi_id = i, fi_verdict = v, fi_summary = say, fi_focus = foc, fi_evidence = foldl append_new [] es,
          fi_counterfactual = None, fi_confidence = None\<rparr>]\<rparr>"

definition blame :: "results \<Rightarrow> diagnosis_id \<Rightarrow> probe_id \<Rightarrow> sentence \<Rightarrow> verdict \<Rightarrow> probe_id list \<Rightarrow> diagnosis" where
  "blame res i foc say v from_rows = with_evidence i foc say v (support_rows res (foc # from_rows))"

definition degraded_in :: "probe_id list \<Rightarrow> results \<Rightarrow> bool" where
  "degraded_in order res \<longleftrightarrow> list_ex (warned res) order"

definition fallback :: "probe_id list \<Rightarrow> results \<Rightarrow> diagnosis" where
  "fallback order res =
     (case find (failed res) order of
        Some i \<Rightarrow>
          if i = ProbeDNS then blame res DiagnosisSelectedDNSCheckFailed i (OfRun SaySelectedDNSFailed) VerdictDNS []
          else if i \<in> {ProbeTLS, ProbeHTTP, ProbeHTTPS, ProbeSSH, ProbeSMTP}
            then blame res DiagnosisSelectedServiceCheckFailed i (OfRun SaySelectedServiceFailed) VerdictService []
          else blame res DiagnosisSelectedNetworkCheckFailed i (OfRun SaySelectedNetworkFailed) VerdictNetwork []
      | None \<Rightarrow>
          if degraded_in order res then plain (OfRun SaySelectedWarnings) VerdictDegraded
          else plain (OfRun SaySelectedPassed) VerdictOK)"

definition public_resolves :: "results \<Rightarrow> bool" where
  "public_resolves res \<longleftrightarrow> dns_names_comparable res \<and> row_addrs (row_at res ProbeDNSPublic) \<noteq> []"

definition both_not_found :: "results \<Rightarrow> bool" where
  "both_not_found res \<longleftrightarrow>
     dns_names_comparable res \<and> row_not_found (row_at res ProbeDNS) \<and> row_not_found (row_at res ProbeDNSPublic)"

definition healthy_verdict :: "probe_id list \<Rightarrow> results \<Rightarrow> verdict" where
  "healthy_verdict order res = (if degraded_in order res then VerdictDegraded else VerdictOK)"

text \<open>The row of a working direct path that rules something out: its pass, or its own warning.\<close>

definition egress_observation :: "results \<Rightarrow> observation_id" where
  "egress_observation res = (if warned res ProbeInternet then ObservationStatusWarn else ObservationStatusPass)"

section \<open>Without a target\<close>

definition generic_verdict :: "probe_id list \<Rightarrow> results \<Rightarrow> verdict" where
  "generic_verdict order res =
     (if has res ProbeInternet \<and> \<not> direct_egress_ok res \<and> failed res ProbeDNS then VerdictNetwork
      else if failed res ProbeDNS then VerdictDNS
      else if has res ProbeInternet \<and> \<not> direct_egress_ok res \<and> \<not> proxy_carries res then VerdictNetwork
      else if has res ProbeInternet \<and> \<not> direct_egress_ok res then VerdictDegraded
      else healthy_verdict order res)"

text \<open>A resolver that fails while the direct path works.\<close>

definition generic_dns :: "probe_id list \<Rightarrow> results \<Rightarrow> diagnosis" where
  "generic_dns order res =
     (let gv = generic_verdict order res
      in if public_resolves res then
           with_evidence DiagnosisSystemDNSFailure ProbeDNS (OfGeneric SaySystemDNSFailing) gv
             (add_evidence (support_rows res [ProbeDNS, ProbeDNSPublic, ProbeInternet])
               [contradicts res DiagnosisDNSFailure ProbeDNSPublic ObservationDNSAnswers,
                rules_out res DiagnosisDNSNameNotFound ProbeDNSPublic ObservationDNSAnswers,
                rules_out res DiagnosisOffline ProbeInternet ObservationStatusPass])
         else if both_not_found res then
           with_evidence DiagnosisDNSNameNotFound ProbeDNS (OfGeneric SayTestNameMissing) gv
             (add_evidence (support_rows res [ProbeDNS, ProbeDNSPublic, ProbeInternet])
               [rules_out res DiagnosisSystemDNSFailure ProbeDNSPublic ObservationDNSNotFound,
                rules_out res DiagnosisOffline ProbeInternet ObservationStatusPass])
         else
           with_evidence DiagnosisDNSFailure ProbeDNS (OfGeneric (SayDNSFailing (warned res ProbeInternet))) gv
             (add_evidence (support_rows res [ProbeDNS, ProbeInternet])
               [rules_out res DiagnosisOffline ProbeInternet (egress_observation res)]))"

definition generic_quic :: "probe_id list \<Rightarrow> results \<Rightarrow> diagnosis" where
  "generic_quic order res =
     (if quic_used_disagreeing_answer res then
        with_evidence DiagnosisDNSDisagreement ProbeDNSPublic (OfGeneric SayQUICOnDisagreement) (generic_verdict order res)
          (add_evidence (support_rows res [ProbeDNSPublic, ProbeDNS, ProbeQUIC, ProbeInternet])
            [contradicts res DiagnosisQUICUnavailable ProbeDNSPublic ObservationStatusWarn])
      else if uncorroborated_endpoint_failure res ProbeQUIC ResolvedByTheProbe then
        with_evidence DiagnosisUncorroboratedEndpointFailure ProbeQUIC (OfGeneric SayQUICOnUncorroborated) VerdictDegraded
          (add_evidence (support_rows res [ProbeQUIC, ProbeDNS, ProbeDNSPublic, ProbeInternet])
            [contradicts res DiagnosisQUICUnavailable ProbeDNSPublic ObservationDNSAnswers])
      else blame res DiagnosisQUICUnavailable ProbeQUIC (OfRun (SayQUICFailed False)) VerdictDegraded [ProbeInternet])"

definition encrypted_dns_diagnosis :: "results \<Rightarrow> diagnosis" where
  "encrypted_dns_diagnosis res =
     blame res DiagnosisEncryptedDNSUnavailable ProbeDNSEncrypted (OfRun SayEncryptedDNS) VerdictDegraded
       [ProbeDNS, ProbeDNSPublic, ProbeInternet]"

definition interpret_generic :: "probe_id list \<Rightarrow> results \<Rightarrow> diagnosis" where
  "interpret_generic order res =
     (let gv = generic_verdict order res; ok = direct_egress_ok res;
          ip = passed res ProbeInternet; dn = passed res ProbeDNS;
          downgraded = warned res ProbeInternet \<and> row_downgraded (row_at res ProbeInternet)
      in if intercepted res then
           blame res DiagnosisCaptivePortal ProbeInternet (OfRun (SayPortal None)) VerdictNetwork []
         else if ok \<and> failed res ProbeDNS then generic_dns order res
         else if ok \<and> failed res ProbeQUIC then generic_quic order res
         else if encrypted_dns_blocked res then encrypted_dns_diagnosis res
         else if ip \<and> dn \<and> failed res ProbeProxy then
           blame res DiagnosisProxyFailure ProbeProxy (OfRun (SayProxyDown False)) VerdictDegraded [ProbeInternet, ProbeDNS]
         else if ok \<and> dns_names_comparable res \<and> warned res ProbeDNSPublic \<and> works res ProbeDNS then
           blame res DiagnosisDNSDisagreement ProbeDNSPublic (OfRun (SayDNSDisagree False)) gv [ProbeDNS]
         else if ip \<and> dn then plain (OfGeneric SayOnline) gv
         else if downgraded \<and> dn \<and> proxy_carries res then
           blame res DiagnosisProxyOnlyNetwork ProbeInternet (OfGeneric SayOnlineViaProxy) gv [ProbeProxy, ProbeDNS]
         else if downgraded \<and> failed res ProbeDNS \<and> proxy_carries res then
           blame res DiagnosisDNSFailure ProbeDNS (OfGeneric SayOnlyProxyNoDNS) gv [ProbeInternet, ProbeProxy]
         else if ok \<and> warned res ProbeInternet \<and> dn then
           blame res DiagnosisDirectEgressDegraded ProbeInternet
             (OfRun (SayEgressDegraded False (row_cause (row_at res ProbeInternet) = ConnectivityCauseUnexpectedResponse))) gv [ProbeDNS]
         else if has res ProbeInternet \<and> \<not> ok \<and> dn then
           blame res DiagnosisDirectEgressBlocked ProbeInternet (OfGeneric SayNoDirectEgress) gv [ProbeDNS]
         else if failed res ProbeInternet \<and> failed res ProbeDNS then
           blame res DiagnosisOffline ProbeInternet (OfGeneric SayOffline) gv [ProbeDNS]
         else fallback order res)"


section \<open>With a target\<close>

definition endpoint_text :: "target \<Rightarrow> string" where
  "endpoint_text t = join_host_port (tg_host t) (int_dec (tg_port t))"

definition target_ok :: "target \<Rightarrow> results \<Rightarrow> bool" where
  "target_ok t res \<longleftrightarrow> list_all (works res) (target_rows t)"

definition stalled_rows :: "results \<Rightarrow> probe_id list" where
  "stalled_rows res =
     filter (\<lambda>i. failed res i \<and> row_timed_out (row_at res i)) [fst (tls_failure_row res), ProbeHTTP, ProbeHTTPS]"

definition cert_rejected :: "results \<Rightarrow> bool" where
  "cert_rejected res \<longleftrightarrow>
     snd (tls_failure_row res) \<and> certificate_rejected (row_cause (row_at res (fst (tls_failure_row res))))"

definition target_dns :: "probe_id list \<Rightarrow> target \<Rightarrow> results \<Rightarrow> diagnosis" where
  "target_dns order t res =
     (let ok = direct_egress_ok res;
          i = (if public_resolves res then DiagnosisSystemDNSFailure
               else if both_not_found res then DiagnosisDNSNameNotFound else DiagnosisDNSFailure);
          named = (if i = DiagnosisSystemDNSFailure then
                     [contradicts res DiagnosisDNSFailure ProbeDNSPublic ObservationDNSAnswers,
                      rules_out res DiagnosisDNSNameNotFound ProbeDNSPublic ObservationDNSAnswers]
                   else if i = DiagnosisDNSNameNotFound then
                     [rules_out res DiagnosisSystemDNSFailure ProbeDNSPublic ObservationDNSNotFound]
                   else []);
          path = (if ok then [rules_out res DiagnosisOffline ProbeInternet (egress_observation res)] else [])
      in with_evidence i ProbeDNS (OfReach (SayCannotResolve (tg_host t) i ok)) VerdictDNS
           (add_evidence (support_rows res [ProbeDNS, ProbeDNSPublic, ProbeInternet])
             (named @ path @ [not_evaluated order res ProbeTargetTCP NotEvaluatedPrerequisite])))"

definition target_cause :: "results \<Rightarrow> cause" where
  "target_cause res = row_cause (row_at res ProbeTargetTCP)"

definition internet_cause :: "results \<Rightarrow> cause" where
  "internet_cause res = row_cause (row_at res ProbeInternet)"

definition local_tcp :: "probe_id list \<Rightarrow> target \<Rightarrow> results \<Rightarrow> diagnosis" where
  "local_tcp order t res =
     (let hp = endpoint_text t
      in if target_cause res = ConnectionCauseRefused then
           with_evidence DiagnosisTCPConnectionRefused ProbeTargetTCP (OfReach (SayLocalRefused hp)) VerdictService
             (add_evidence (support_rows res [ProbeTargetTCP])
               [rules_out res DiagnosisLocalDeviceUnreachable ProbeTargetTCP ObservationCause])
         else if direct_egress_ok res then
           blame res DiagnosisLocalDeviceUnreachable ProbeTargetTCP (OfReach (SayLocalSilent hp)) VerdictService [ProbeInternet]
         else if \<not> has res ProbeInternet then
           with_evidence DiagnosisReachabilityUntested ProbeTargetTCP (OfReach (SayLocalUntested hp)) VerdictNetwork
             (add_evidence (support_rows res [ProbeTargetTCP]) [not_evaluated order res ProbeInternet NotEvaluatedNotSelected])
         else if local_path_observed (internet_cause res) then
           blame res DiagnosisLocalEgressFailure ProbeInternet (OfReach (SayLocalPathBroken hp)) VerdictNetwork [ProbeTargetTCP]
         else
           blame res DiagnosisReachabilityUnlocalized ProbeInternet (OfReach (SayLocalUnlocalized hp)) VerdictNetwork [ProbeTargetTCP])"

definition routed_tcp :: "target \<Rightarrow> results \<Rightarrow> diagnosis" where
  "routed_tcp t res =
     (let hp = endpoint_text t; resolved = row_addrs (row_at res ProbeDNS)
      in if target_cause res = ConnectionCauseRefused then
           with_evidence DiagnosisTCPConnectionRefused ProbeTargetTCP (OfReach (SayRefused hp)) VerdictService
             (add_evidence (support_rows res [ProbeTargetTCP, ProbeInternet])
               [rules_out res DiagnosisTargetUnreachable ProbeTargetTCP ObservationCause,
                rules_out res DiagnosisLocalEgressFailure ProbeInternet ObservationStatusPass])
         else if uncorroborated_endpoint_failure res ProbeTargetTCP ResolvedByTheSystemDNSRow then
           with_evidence DiagnosisUncorroboratedEndpointFailure ProbeTargetTCP (OfReach (SayTargetUncorroborated hp)) VerdictNetwork
             (add_evidence (support_rows res [ProbeTargetTCP, ProbeDNS, ProbeDNSPublic, ProbeInternet])
               [contradicts res DiagnosisTargetUnreachable ProbeDNSPublic ObservationDNSAnswers,
                rules_out res DiagnosisLocalEgressFailure ProbeInternet ObservationStatusPass])
         else if resolved \<noteq> []
             \<and> target_family_state resolved (row_attempts (row_at res ProbeTargetTCP)) \<noteq> FamilyUnreachable then
           plain (OfReach (SayUntestedAddresses hp)) VerdictNetwork
         else
           with_evidence DiagnosisTargetUnreachable ProbeTargetTCP (OfReach (SayTargetUnreachable hp)) VerdictService
             (add_evidence (support_rows res [ProbeTargetTCP, ProbeInternet, ProbeDNS])
               [rules_out res DiagnosisLocalEgressFailure ProbeInternet ObservationStatusPass,
                rules_out res DiagnosisDNSFailure ProbeDNS ObservationDNSAnswers]))"

definition target_tcp :: "probe_id list \<Rightarrow> target \<Rightarrow> results \<Rightarrow> diagnosis" where
  "target_tcp order t res =
     (let hp = endpoint_text t; host = tg_host t
      in if local_target t res then local_tcp order t res
         else if direct_egress_ok res then routed_tcp t res
         else if proxy_carries res then
           blame res DiagnosisProxyOnlyNetwork ProbeTargetTCP (OfReach (SayProxyOnlyTarget hp)) VerdictNetwork
             [ProbeProxy, ProbeInternet]
         else if \<not> has res ProbeInternet then
           with_evidence DiagnosisReachabilityUntested ProbeTargetTCP (OfReach (SayUntested hp)) VerdictNetwork
             (add_evidence (support_rows res [ProbeTargetTCP]) [not_evaluated order res ProbeInternet NotEvaluatedNotSelected])
         else if local_path_observed (internet_cause res) then
           blame res DiagnosisLocalEgressFailure ProbeInternet (OfReach (SayLocalEgress host)) VerdictNetwork
             [ProbeTargetTCP, ProbeDNS]
         else
           blame res DiagnosisReachabilityUnlocalized ProbeInternet (OfReach (SayUnlocalized host)) VerdictNetwork
             [ProbeTargetTCP, ProbeDNS])"

fun tls_failure_summary :: "cause \<Rightarrow> string \<Rightarrow> bool \<Rightarrow> service_sentence" where
  "tls_failure_summary TLSCauseCertificateExpired hp ruled = SayCertExpired hp ruled"
| "tls_failure_summary TLSCauseCertificateNotYet hp ruled = SayCertNotYet hp ruled"
| "tls_failure_summary TLSCauseHostnameMismatch hp ruled = SayCertHostname hp"
| "tls_failure_summary TLSCauseUntrustedIssuer hp ruled = SayCertIssuer hp"
| "tls_failure_summary TLSCauseTimeout hp ruled = SayTLSTimeout hp"
| "tls_failure_summary TLSCauseConnectionClosed hp ruled = SayTLSClosed hp"
| "tls_failure_summary TLSCauseTCPUnreachable hp ruled = SayTLSUnreachable hp"
| "tls_failure_summary _ hp ruled = SayTLSUnclassified hp"

definition target_tls :: "target \<Rightarrow> results \<Rightarrow> diagnosis" where
  "target_tls t res =
     (let hp = endpoint_text t; i = fst (tls_failure_row res); c = row_cause (row_at res i);
          say = (\<lambda>s. OfService (if i \<noteq> ProbeTLS then SayOnSMTPConnection s else s));
          reached = rules_out res DiagnosisTLSTCPUnreachable ProbeTargetTCP ObservationStatusPass;
          unread = with_evidence (tls_diagnosis_id c) i (say (tls_failure_summary c hp False)) VerdictService
            (add_evidence (support_rows res [i, ProbeTargetTCP])
              (if tls_diagnosis_id c \<noteq> DiagnosisTLSTCPUnreachable then [reached] else []))
      in case clock_skew res of
           None \<Rightarrow> unread
         | Some d \<Rightarrow>
             if skew_explains_tls c d then
               with_evidence DiagnosisTLSClockSkew i (say (SayClockSkew hp d)) VerdictService
                 (add_evidence (support_rows res [i, ProbeInternet, ProbeTargetTCP])
                   [support_observation res ProbeInternet ObservationClockOffset, reached])
             else if skew_disproves_tls c d then
               with_evidence (tls_diagnosis_id c) i (say (tls_failure_summary c hp True)) VerdictService
                 (add_evidence (support_rows res [i, ProbeInternet, ProbeTargetTCP])
                   [rules_out res DiagnosisTLSClockSkew ProbeInternet ObservationClockOffset, reached])
             else unread)"

definition ended_by_reset :: "cause \<Rightarrow> bool" where
  "ended_by_reset c \<longleftrightarrow> c = ConnectionCauseReset"

definition target_https :: "target \<Rightarrow> results \<Rightarrow> diagnosis" where
  "target_https t res =
     (let hp = endpoint_text t; c = row_cause (row_at res ProbeHTTPS);
          es = add_evidence (support_rows res [ProbeHTTPS, ProbeTLS])
            [rules_out res DiagnosisTLSHandshakeFailure ProbeTLS ObservationStatusPass]
      in if c = HTTPCauseInvalidResponse then
           with_evidence DiagnosisInvalidHTTPResponse ProbeHTTPS (OfService (SayHTTPSInvalid hp)) VerdictService es
         else if c \<in> {ConnectionCauseClosed, ConnectionCauseReset} then
           with_evidence DiagnosisHTTPConnectionClosed ProbeHTTPS (OfService (SayHTTPSEnded hp (ended_by_reset c))) VerdictService es
         else with_evidence DiagnosisHTTPSNoResponse ProbeHTTPS (OfService (SayHTTPSSilent hp)) VerdictService es)"

definition target_http :: "probe_id list \<Rightarrow> target \<Rightarrow> results \<Rightarrow> diagnosis" where
  "target_http order t res =
     (let secure = tg_proto t = ProtoTLSHTTP; c = row_cause (row_at res ProbeHTTP);
          hp = (if secure then join_host_port (tg_host t) ''80'' else endpoint_text t);
          beside = (if secure then [ProbeHTTPS] else [ProbeTargetTCP])
      in if secure \<and> \<not> works res ProbeHTTPS then
           with_evidence DiagnosisSelectedServiceCheckFailed ProbeHTTP (OfRun SaySelectedServiceFailed) VerdictService
             (add_evidence (support_rows res [ProbeHTTP]) [not_evaluated order res ProbeHTTPS NotEvaluatedNotSelected])
         else if c = HTTPCauseInvalidResponse then
           blame res DiagnosisInvalidHTTPResponse ProbeHTTP (OfService (SayHTTPInvalid secure hp)) VerdictService beside
         else if c \<in> {ConnectionCauseClosed, ConnectionCauseReset} then
           blame res DiagnosisHTTPConnectionClosed ProbeHTTP (OfService (SayHTTPEnded secure hp (ended_by_reset c))) VerdictService beside
         else blame res DiagnosisHTTPNoResponse ProbeHTTP (OfService (SayHTTPSilent secure hp)) VerdictService beside)"

definition banner_row :: "results \<Rightarrow> status \<Rightarrow> probe_id" where
  "banner_row res s = (if status_is s res ProbeSSH then ProbeSSH else ProbeSMTP)"

text \<open>The target works, but the reference endpoints of the direct path do not.\<close>

definition reference_egress :: "target \<Rightarrow> results \<Rightarrow> diagnosis" where
  "reference_egress t res =
     (if internet_cause res = RouteCausePreferredPathAlternateReachable then
        blame res DiagnosisReferenceEgressUnreachable ProbeInternet (OfReach SayPreferredPath) VerdictDegraded
          [ProbeInternet, ProbeTargetTCP]
      else if public_target_reached res then
        with_evidence DiagnosisReferenceEgressUnreachable ProbeInternet (OfReach SayReferenceOnly) VerdictDegraded
          (add_evidence (support_rows res ([ProbeInternet, ProbeTargetTCP] @ target_rows t))
            [rules_out res DiagnosisDirectEgressBlocked ProbeTargetTCP
              (if warned res ProbeTargetTCP then ObservationStatusWarn else ObservationStatusPass)])
      else blame res DiagnosisDirectEgressBlocked ProbeInternet (OfReach SayDirectBlockedTarget) VerdictDegraded (target_rows t))"

definition interpret_target :: "probe_id list \<Rightarrow> target \<Rightarrow> results \<Rightarrow> diagnosis" where
  "interpret_target order t res =
     (let hp = endpoint_text t; ok = target_ok t res;
          downgraded = warned res ProbeInternet \<and> row_downgraded (row_at res ProbeInternet)
      in if intercepted res then
           blame res DiagnosisCaptivePortal ProbeInternet (OfRun (SayPortal (Some (tg_host t)))) VerdictNetwork []
         else if failed res ProbeDNS then target_dns order t res
         else if failed res ProbeTargetTCP then target_tcp order t res
         else if warned res ProbePMTU \<and> stalled_rows res \<noteq> [] \<and> \<not> cert_rejected res then
           blame res DiagnosisProbablePathMTU ProbePMTU (OfReach (SayPathMTU hp)) VerdictNetwork (ProbeTargetTCP # stalled_rows res)
         else if snd (tls_failure_row res) then target_tls t res
         else if failed res ProbeHTTPS then target_https t res
         else if failed res ProbeHTTP then target_http order t res
         else if failed res ProbeSSH \<or> failed res ProbeSMTP then
           blame res DiagnosisServiceBannerFailure (banner_row res StatusFail) (OfService (SayBannerFailed hp)) VerdictService [ProbeTargetTCP]
         else if warned res ProbeSSH \<or> warned res ProbeSMTP then
           blame res DiagnosisServiceBannerMissing (banner_row res StatusWarn) (OfService (SayBannerMissing hp)) VerdictDegraded [ProbeTargetTCP]
         else if ok \<and> failed res ProbeQUIC \<and> direct_egress_ok res then
           blame res DiagnosisQUICUnavailable ProbeQUIC (OfRun (SayQUICFailed True)) VerdictDegraded [ProbeInternet]
         else if encrypted_dns_blocked res then encrypted_dns_diagnosis res
         else if ok \<and> (failed res ProbeInternet \<or> downgraded) then reference_egress t res
         else if ok \<and> failed res ProbeProxy \<and> direct_egress_ok res then
           blame res DiagnosisProxyFailure ProbeProxy (OfRun (SayProxyDown True)) VerdictDegraded [ProbeInternet]
         else if ok \<and> warned res ProbeInternet then
           blame res DiagnosisDirectEgressDegraded ProbeInternet
             (OfRun (SayEgressDegraded True (internet_cause res = ConnectivityCauseUnexpectedResponse))) VerdictDegraded (target_rows t)
         else if ok \<and> dns_names_comparable res \<and> warned res ProbeDNSPublic \<and> works res ProbeDNS then
           blame res DiagnosisDNSDisagreement ProbeDNSPublic (OfRun (SayDNSDisagree True)) VerdictDegraded [ProbeDNS]
         else if ok \<and> \<not> list_ex (failed res) order \<and> degraded_in order res then
           plain (OfRun SayTargetSomeDegraded) VerdictDegraded
         else if ok \<and> \<not> list_ex (failed res) order then plain (OfRun (SayTargetHealthy hp)) VerdictOK
         else fallback order res)"

section \<open>The table\<close>

definition link_down :: "probe_id list \<Rightarrow> results \<Rightarrow> diagnosis" where
  "link_down order res =
     with_evidence DiagnosisNoUsableInterface ProbeIface (OfRun SayLinkDown) VerdictNetwork
       (add_evidence (support_rows res [ProbeIface])
         [not_evaluated order res ProbeInternet NotEvaluatedPrerequisite,
          not_evaluated order res ProbeDNS NotEvaluatedPrerequisite])"

definition truth_table :: "target option \<Rightarrow> probe_id list \<Rightarrow> results \<Rightarrow> diagnosis" where
  "truth_table t order res =
     (if order = [] then plain (OfRun SayNoChecks) VerdictOK
      else if list_ex (\<lambda>i. \<not> has res i) order then plain (OfRun SayRunning) VerdictIncomplete
      else if failed res ProbeIface then link_down order res
      else case t of None \<Rightarrow> interpret_generic order res | Some tg \<Rightarrow> interpret_target order tg res)"

end
