(* ===== verification/Interpret.thy ===== *)
theory Interpret
  imports Truth_Table
begin

text \<open>
  \<^verbatim>\<open>Interpret\<close> of \<^verbatim>\<open>internal/diagnostic/diagnosis.go\<close>, the only interpretation of a run:
  the truth table, then the comparisons of alternatives, then route evidence
  (\<^verbatim>\<open>route_evidence.go\<close>), then confidence and the blamed row. \<^verbatim>\<open>Collateral\<close> reads the
  result and names the failures it already explains.
\<close>

section \<open>Comparisons added to the conclusion\<close>

definition merge_finding :: "diagnosis_finding \<Rightarrow> diagnosis_finding \<Rightarrow> diagnosis_finding" where
  "merge_finding f new =
     f\<lparr>fi_counterfactual := fi_counterfactual new, fi_evidence := foldl append_new (fi_evidence f) (fi_evidence new)\<rparr>"

text \<open>The first finding of the same identity takes the comparison; without one it is a
  finding of its own, and the headline when it is the first.\<close>

fun merge_first :: "diagnosis_finding list \<Rightarrow> diagnosis_finding \<Rightarrow> diagnosis_finding list option" where
  "merge_first [] new = None"
| "merge_first (f # fs) new =
     (if fi_id f = fi_id new then Some (merge_finding f new # fs)
      else map_option ((#) f) (merge_first fs new))"

definition add_counterfactual :: "diagnosis \<Rightarrow> diagnosis_finding \<Rightarrow> diagnosis" where
  "add_counterfactual d new =
     (case merge_first (di_findings d) new of
        Some fs \<Rightarrow> d\<lparr>di_findings := fs\<rparr>
      | None \<Rightarrow>
          (let d' = (if di_findings d = [] then d\<lparr>di_summary := fi_summary new, di_verdict := fi_verdict new\<rparr> else d)
           in d'\<lparr>di_findings := di_findings d @ [new]\<rparr>))"

definition compares_alternatives :: "diagnosis \<Rightarrow> results \<Rightarrow> bool" where
  "compares_alternatives d res \<longleftrightarrow>
     (di_findings d \<noteq> [] \<or> di_verdict d = VerdictOK \<or> di_verdict d = VerdictDegraded) \<and> \<not> intercepted res"

definition with_counterfactuals :: "target option \<Rightarrow> results \<Rightarrow> diagnosis \<Rightarrow> diagnosis" where
  "with_counterfactuals t res d =
     foldl add_counterfactual d (if compares_alternatives d res then counterfactual_findings t res else [])"

section \<open>Route evidence\<close>

definition add_route :: "probe_id list \<Rightarrow> results \<Rightarrow> probe_id \<Rightarrow> observation_id \<Rightarrow> string
    \<Rightarrow> causal_evidence list \<Rightarrow> causal_evidence list" where
  "add_route order res i ob v items =
     (if has res i \<and> i \<in> set order then append_new items (support i ob v) else items)"

definition route_policy_evidence :: "probe_id list \<Rightarrow> results \<Rightarrow> probe_id \<Rightarrow> route_decision \<Rightarrow> route_decision
    \<Rightarrow> causal_evidence list \<Rightarrow> causal_evidence list" where
  "route_policy_evidence order res i path ref items =
     (let c = compare_paths path ref;
          items = (if pc_next_hop c = PathDiffers \<and> pc_iface c = PathSame \<and> rd_gateway path \<noteq> [] \<and> rd_gateway ref \<noteq> []
                   then add_route order res i ObservationRouteNextHopDiffers (ip_string (rd_gateway ref)) items else items)
      in if pc_table c = PathDiffers \<and> (case routing_domain path of Some d \<Rightarrow> d \<noteq> [] | None \<Rightarrow> False)
         then add_route order res i ObservationRouteTableDiffers [] items else items)"

text \<open>The routes of the target against the reference of its family.\<close>

definition target_route_evidence :: "diagnosis_id \<Rightarrow> probe_id list \<Rightarrow> results \<Rightarrow> causal_evidence list" where
  "target_route_evidence k order res =
     (case selected_target_route res of
        None \<Rightarrow> []
      | Some tgt \<Rightarrow>
          (let ref = route_by_family (row_routes (row_at res ProbeIface)) (rd_family tgt);
               add = add_route order res;
               gone = (\<lambda>out. if rd_unreachable tgt then add ProbeTargetTCP ObservationRouteUnreachable (ip_string (rd_destination tgt)) out else out);
               split = (\<lambda>out. case split_tunnel_state tgt ref of
                   SplitTargetTunneled \<Rightarrow> add ProbeIface ObservationRouteDirect (rd_iface ref)
                       (add ProbeTargetTCP ObservationRouteTunneled (rd_iface tgt) out)
                 | SplitTargetBypassesTunnel \<Rightarrow> add ProbeIface ObservationRouteTunneled (rd_iface ref)
                       (add ProbeTargetTCP ObservationRouteDirect (rd_iface tgt) out)
                 | SplitNone \<Rightarrow> out);
               families = (\<lambda>out. if family_paths_differ (row_routes (row_at res ProbeTargetTCP)) = Some True
                   then add ProbeTargetTCP ObservationRouteFamilySplit [] out else out);
               mtu = (\<lambda>out. if k = DiagnosisProbablePathMTU \<and> narrower_path_mtu tgt ref \<noteq> None
                   then add ProbeTargetTCP ObservationRouteInterfaceMTU (rd_iface tgt) out else out)
           in mtu (route_policy_evidence order res ProbeTargetTCP tgt ref (families (split (gone []))))))"

definition reference_route_evidence :: "probe_id list \<Rightarrow> results \<Rightarrow> causal_evidence list" where
  "reference_route_evidence order res =
     foldl (\<lambda>out r. if rd_unreachable r then add_route order res ProbeIface ObservationRouteUnreachable (ip_string (rd_destination r)) out
                    else if tunneled r then add_route order res ProbeIface ObservationRouteTunneled (rd_iface r) out
                    else out) [] (row_routes (row_at res ProbeIface))"

definition resolver_route_evidence :: "probe_id list \<Rightarrow> results \<Rightarrow> causal_evidence list" where
  "resolver_route_evidence order res =
     foldl (\<lambda>out r.
        if rd_unreachable r then add_route order res ProbeDNS ObservationRouteUnreachable (ip_string (rd_destination r)) out
        else case selected_target_route res of
               None \<Rightarrow> out
             | Some tgt \<Rightarrow> route_policy_evidence order res ProbeDNS r tgt
                 (if pc_iface (compare_paths r tgt) = PathDiffers
                  then add_route order res ProbeDNS ObservationRoutePathDiffers (rd_iface tgt) out else out))
       [] (row_routes (row_at res ProbeDNS))"

definition route_evidence :: "diagnosis_id \<Rightarrow> probe_id list \<Rightarrow> results \<Rightarrow> causal_evidence list" where
  "route_evidence k order res =
     (if k \<in> {DiagnosisTargetUnreachable, DiagnosisLocalDeviceUnreachable, DiagnosisTLSTCPUnreachable,
              DiagnosisIPv4TargetUnreachable, DiagnosisIPv6TargetUnreachable, DiagnosisPartialReachability,
              DiagnosisProbablePathMTU}
      then target_route_evidence k order res
      else if k \<in> {DiagnosisOffline, DiagnosisLocalEgressFailure, DiagnosisDirectEgressBlocked,
                   DiagnosisDirectEgressDegraded, DiagnosisReachabilityUnlocalized}
      then reference_route_evidence order res
      else if k \<in> {DiagnosisSystemDNSFailure, DiagnosisDNSFailure, DiagnosisDNSDisagreement}
      then resolver_route_evidence order res
      else [])"

definition attach_route_evidence :: "probe_id list \<Rightarrow> results \<Rightarrow> diagnosis_finding \<Rightarrow> diagnosis_finding" where
  "attach_route_evidence order res f =
     f\<lparr>fi_evidence := foldl append_new (fi_evidence f) (route_evidence (fi_id f) order res)\<rparr>"

section \<open>The interpretation\<close>

definition with_confidence :: "diagnosis_finding \<Rightarrow> diagnosis_finding" where
  "with_confidence f = f\<lparr>fi_confidence := Some (confidence_for f)\<rparr>"

definition interpret_run :: "target option \<Rightarrow> probe_id list \<Rightarrow> results \<Rightarrow> diagnosis" where
  "interpret_run t order res =
     (let d = with_counterfactuals t res (truth_table t order res);
          d = d\<lparr>di_findings := map (with_confidence \<circ> attach_route_evidence order res) (di_findings d)\<rparr>
      in d\<lparr>di_blamed := (case focus d of Some i \<Rightarrow> Some i | None \<Rightarrow> find (failed res) order)\<rparr>)"

section \<open>Collateral failures\<close>

definition cause_satisfied :: "results \<Rightarrow> probe_id \<Rightarrow> bool" where
  "cause_satisfied res i \<longleftrightarrow>
     (if i \<in> {ProbeInternet, ProbeProxy} then \<not> has res ProbeIface \<or> works res ProbeIface
      else if i \<in> {ProbeQUIC, ProbeDNSPublic, ProbeTargetTCP} then \<not> has res ProbeInternet \<or> direct_egress_ok res
      else if i = ProbeDNS then \<not> has res ProbeInternet \<or> direct_egress_ok res \<or> proxy_carries res
      else if i = ProbeDNSEncrypted then \<not> has res ProbeInternet \<or> encrypted_dns_blocked res
      else if i \<in> {ProbeTLS, ProbeHTTP, ProbeHTTPS, ProbeSSH, ProbeSMTP, ProbePMTU}
        then \<not> has res ProbeTargetTCP \<or> works res ProbeTargetTCP
      else True)"

definition collateral :: "diagnosis \<Rightarrow> probe_id list \<Rightarrow> results \<Rightarrow> probe_id set" where
  "collateral d order res =
     (if di_verdict d = VerdictIncomplete then {}
      else set (filter (\<lambda>i. failed res i \<and> di_blamed d \<noteq> Some i \<and> \<not> cause_satisfied res i
             \<and> \<not> (di_verdict d = VerdictDNS \<and> (i = ProbeDNS \<or> i = ProbeDNSPublic))) order))"

end
