(* ===== verification/Finalize_Laws.thy ===== *)
theory Finalize_Laws
  imports Finalize
begin

text \<open>
  What \<^verbatim>\<open>Finalize\<close> does to a run: it adds and removes no row, every field of every
  row afterwards, its two texts apart, is given by conditions on the results it was given, and
  once it has run a second call changes only texts. A last section bounds the rounding of a
  clock offset.
\<close>

section \<open>What each pass leaves alone\<close>

text \<open>The part of a row no pass writes.\<close>

definition unwritten :: "row \<Rightarrow> row" where
  "unwritten r =
     r\<lparr>row_status := StatusPass, row_cause := NoCause, row_cause_family := NoFamily, row_families := None,
       row_downgraded := False, row_comparison := ComparisonUnrecorded, row_detail := [], row_fix := []\<rparr>"

lemma dns_elsewhere [simp]:
  "i \<noteq> ProbeDNS \<Longrightarrow> i \<noteq> ProbeDNSPublic \<Longrightarrow> reconcile_dns res i = res i"
  by (simp add: reconcile_dns_def split: option.split prod.split)

lemma preferred_elsewhere [simp]: "i \<noteq> ProbeInternet \<Longrightarrow> reconcile_preferred_path res i = res i"
  by (simp add: reconcile_preferred_path_def split: option.split)

lemma egress_elsewhere [simp]: "i \<noteq> ProbeInternet \<Longrightarrow> downgrade_egress res i = res i"
  by (simp add: downgrade_egress_def split: option.split)

lemma encrypted_elsewhere [simp]: "i \<noteq> ProbeDNSEncrypted \<Longrightarrow> reconcile_encrypted_dns res i = res i"
  by (simp add: reconcile_encrypted_dns_def Let_def)

lemma counterfactuals_elsewhere [simp]: "i \<noteq> ProbeTargetTCP \<Longrightarrow> reconcile_counterfactuals res i = res i"
  by (simp add: reconcile_counterfactuals_def Let_def split: option.split)

lemma tls_failure_row_there:
  "tls_failure_row res = (i, True) \<Longrightarrow> (i = ProbeTLS \<or> i = ProbeSMTP) \<and> (\<exists>r. res i = Some r)"
  by (auto simp: tls_failure_row_def row_at_def has_def zero_row_def split: if_splits option.splits)

lemma skew_elsewhere [simp]: "i \<noteq> ProbeTLS \<Longrightarrow> i \<noteq> ProbeSMTP \<Longrightarrow> reconcile_clock_skew res i = res i"
  by (auto simp: reconcile_clock_skew_def split: option.split prod.split bool.split dest: tls_failure_row_there)

text \<open>A pass as a change of rows: what it does to the row at each probe.\<close>

definition row_change :: "(row \<Rightarrow> row \<Rightarrow> bool) \<Rightarrow> results \<Rightarrow> results \<Rightarrow> bool" where
  "row_change P res res' \<longleftrightarrow> (\<forall>i. rel_option P (res i) (res' i))"

lemma row_change_None: "row_change P res res' \<Longrightarrow> res' i = None \<longleftrightarrow> res i = None"
  unfolding row_change_def by (metis option.rel_sel)

lemma row_change_Some: "row_change P res res' \<Longrightarrow> res i = Some r \<Longrightarrow> \<exists>r'. res' i = Some r' \<and> P r r'"
  unfolding row_change_def by (drule spec [of _ i]) (simp add: option_rel_Some1)

lemma row_change_trans:
  assumes "row_change P a b" "row_change P b c" "\<And>x y z. P x y \<Longrightarrow> P y z \<Longrightarrow> P x z"
  shows "row_change P a c"
  unfolding row_change_def
proof
  fix i
  have "rel_option P (a i) (b i)" "rel_option P (b i) (c i)"
    using assms(1,2) by (simp_all add: row_change_def)
  then show "rel_option P (a i) (c i)"
    using assms(3) by (cases "a i"; cases "b i"; cases "c i") auto
qed

lemma row_change_refl: "(\<And>r. P r r) \<Longrightarrow> row_change P a a"
  by (simp add: row_change_def option.rel_refl)

lemma row_change_upd:
  "(\<And>r. P r r) \<Longrightarrow> P (row_at res i) r' \<Longrightarrow> has res i \<Longrightarrow> row_change P res (res(i \<mapsto> r'))"
  by (auto simp: row_change_def row_at_def has_def option.rel_refl)

abbreviation keeps :: "results \<Rightarrow> results \<Rightarrow> bool" where
  "keeps \<equiv> row_change (\<lambda>r r'. unwritten r' = unwritten r)"

lemma unwritten_simps [simp]:
  "unwritten (r\<lparr>row_status := s\<rparr>) = unwritten r" "unwritten (r\<lparr>row_cause := c\<rparr>) = unwritten r"
  "unwritten (r\<lparr>row_cause_family := f\<rparr>) = unwritten r" "unwritten (r\<lparr>row_families := fs\<rparr>) = unwritten r"
  "unwritten (r\<lparr>row_downgraded := b\<rparr>) = unwritten r" "unwritten (r\<lparr>row_comparison := cm\<rparr>) = unwritten r"
  "unwritten (r\<lparr>row_detail := d\<rparr>) = unwritten r" "unwritten (r\<lparr>row_fix := x\<rparr>) = unwritten r"
  by (simp_all add: unwritten_def)

lemma compare_dns_unwritten:
  "unwritten (fst (compare_dns s p)) = unwritten s \<and> unwritten (snd (compare_dns s p)) = unwritten p"
  unfolding compare_dns_def by simp

lemma record_comparison_unwritten [simp]: "unwritten (record_comparison s p) = unwritten p"
  by (simp add: record_comparison_def)

lemma row_changeI:
  assumes "\<And>i. res i = None \<Longrightarrow> res' i = None" "\<And>i r. res i = Some r \<Longrightarrow> \<exists>r'. res' i = Some r' \<and> P r r'"
  shows "row_change P res res'"
  unfolding row_change_def
proof
  fix i show "rel_option P (res i) (res' i)"
    using assms by (cases "res i") (auto simp: option_rel_Some1)
qed

lemma keeps_dns: "keeps res (reconcile_dns res)"
proof (rule row_changeI)
  fix i assume "res i = None"
  then show "reconcile_dns res i = None"
    by (auto simp: reconcile_dns_def split: option.split prod.split)
next
  fix i r assume r: "res i = Some r"
  show "\<exists>r'. reconcile_dns res i = Some r' \<and> unwritten r' = unwritten r"
  proof (cases "res ProbeDNS = None \<or> res ProbeDNSPublic = None")
    case True
    then show ?thesis using r by (auto simp: reconcile_dns_def split: option.split)
  next
    case False
    then obtain s p where sp: "res ProbeDNS = Some s" "res ProbeDNSPublic = Some p" by (auto simp: not_None_eq)
    show ?thesis
      using r sp compare_dns_unwritten [of s "record_comparison s p"]
      by (cases "i = ProbeDNS"; cases "i = ProbeDNSPublic") (auto simp: reconcile_dns_def split: prod.split)
  qed
qed

lemma alternate_family_there: "alternate_family res \<noteq> None \<Longrightarrow> has res ProbeInternet"
proof (rule ccontr)
  assume "\<not> has res ProbeInternet"
  then have "row_families (row_at res ProbeInternet) = None"
    by (simp add: has_def row_at_def zero_row_def)
  moreover assume "alternate_family res \<noteq> None"
  ultimately show False
    by (simp add: alternate_family_def)
qed

lemma keeps_preferred: "keeps res (reconcile_preferred_path res)"
  using alternate_family_there [of res]
  by (cases "alternate_family res") (auto simp: reconcile_preferred_path_def intro!: row_change_upd row_change_refl)

lemma keeps_egress: "keeps res (downgrade_egress res)"
  by (cases "res ProbeInternet")
    (auto simp: downgrade_egress_def downgraded_row_def Let_def row_at_def has_def
      intro!: row_change_upd row_change_refl)

lemma keeps_encrypted: "keeps res (reconcile_encrypted_dns res)"
  by (cases "res ProbeDNSEncrypted")
    (auto simp: reconcile_encrypted_dns_def encrypted_dns_blocked_def status_is_def Let_def has_def
      intro!: row_change_upd row_change_refl)

lemma skew_fix_unwritten [simp]: "unwritten (skew_fix d r) = unwritten r"
  unfolding skew_fix_def by simp

lemma keeps_skew: "keeps res (reconcile_clock_skew res)"
  by (auto simp: reconcile_clock_skew_def has_def split: option.split prod.split bool.split
      dest: tls_failure_row_there intro!: row_change_upd row_change_refl)

lemma settle_families_unwritten [simp]: "unwritten (settle_families f r) = unwritten r"
  by (simp add: settle_families_def Let_def)

lemma keeps_refl: "keeps res res"
  by (rule row_change_refl) simp

lemma keeps_upd: "unwritten r' = unwritten (row_at res i) \<Longrightarrow> has res i \<Longrightarrow> keeps res (res(i \<mapsto> r'))"
  by (rule row_change_upd) simp_all

lemma keeps_counterfactuals: "keeps res (reconcile_counterfactuals res)"
proof (cases "res ProbeTargetTCP")
  case None
  then show ?thesis by (simp add: reconcile_counterfactuals_def keeps_refl)
next
  case (Some r)
  then have "keeps res (res(ProbeTargetTCP \<mapsto> settle_families f r))" for f
    by (intro keeps_upd) (simp_all add: row_at_def has_def)
  with Some show ?thesis by (simp add: reconcile_counterfactuals_def keeps_refl)
qed

lemma keeps_trans: "keeps a b \<Longrightarrow> keeps b c \<Longrightarrow> keeps a c"
  by (erule (1) row_change_trans) simp

lemma keeps_finalize: "keeps res (finalize res)"
  unfolding finalize_def
  by (rule keeps_trans, rule keeps_trans, rule keeps_trans, rule keeps_trans, rule keeps_trans)
    (rule keeps_dns keeps_preferred keeps_egress keeps_encrypted keeps_skew keeps_counterfactuals)+


section \<open>Statuses\<close>

text \<open>The conditions under which a pass turns a status into a warning, on the results
  \<^verbatim>\<open>Finalize\<close> was given.\<close>

definition way_around :: "results \<Rightarrow> bool" where
  "way_around res \<longleftrightarrow>
     failed res ProbeInternet \<and> \<not> intercepted res
     \<and> (row_cause (row_at res ProbeInternet) = RouteCausePreferredPathAlternateReachable
        \<or> alternate_family res \<noteq> None \<or> public_target_reached res \<or> proxy_carries res)"

definition public_disputed :: "results \<Rightarrow> bool" where
  "public_disputed res \<longleftrightarrow>
     (let s = row_at res ProbeDNS; p = row_at res ProbeDNSPublic
      in dns_names_comparable res \<and> row_status p = StatusPass \<and> \<not> (row_not_found s \<and> row_not_found p)
         \<and> (row_status s = StatusPass \<and> row_not_found p \<or> row_not_found s \<and> row_addrs p \<noteq> []
            \<or> row_comparison (record_comparison s p) = ComparisonDisagree))"

definition one_family_lost :: "results \<Rightarrow> bool" where
  "one_family_lost res \<longleftrightarrow>
     row_families (row_at res ProbeTargetTCP) \<noteq> None \<and> row_selected (row_at res ProbeTargetTCP) \<noteq> []
     \<and> split_families (effective_target_families res)"

lemma row_at_eq: "a i = b i \<Longrightarrow> row_at a i = row_at b i"
  by (simp add: row_at_def)

lemma row_at_None [simp]: "res i = None \<Longrightarrow> row_at res i = zero_row"
  by (simp add: row_at_def)

lemma zero_row_families [simp]: "row_families zero_row = None"
  by (simp add: zero_row_def)

lemma row_at_Some [simp]: "res i = Some r \<Longrightarrow> row_at res i = r"
  by (simp add: row_at_def)

lemma row_at_upd [simp]: "row_at (res(i \<mapsto> r)) j = (if j = i then r else row_at res j)"
  by (simp add: row_at_def)

lemma status_is_row_at: "status_is s res i \<longleftrightarrow> has res i \<and> row_status (row_at res i) = s"
  by (auto simp: status_is_def has_def row_at_def split: option.splits)

lemma intercepted_row_at: "intercepted res \<longleftrightarrow> has res ProbeInternet \<and> row_portal (row_at res ProbeInternet) \<noteq> None"
  by (auto simp: intercepted_def has_def row_at_def split: option.splits)

lemma public_target_reached_row_at:
  "public_target_reached res \<longleftrightarrow>
     works res ProbeTargetTCP \<and> row_selected (row_at res ProbeTargetTCP) \<noteq> []
     \<and> \<not> local_ip (row_selected (row_at res ProbeTargetTCP))"
  by (auto simp: public_target_reached_def works_def has_def row_at_def split: option.splits)

lemma direct_egress_row_at:
  "direct_egress_ok res \<longleftrightarrow> works res ProbeInternet \<and> \<not> row_downgraded (row_at res ProbeInternet)"
  by (auto simp: direct_egress_ok_def works_def has_def row_at_def split: option.splits)

text \<open>Statuses after the two passes that may write them before the last.\<close>

lemma compare_dns_status:
  "row_status (fst (compare_dns s p)) = row_status s"
  "row_status (snd (compare_dns s p)) =
     (if \<not> (row_not_found s \<and> row_not_found p)
         \<and> (row_status s = StatusPass \<and> row_not_found p \<or> row_not_found s \<and> row_addrs p \<noteq> []
            \<or> row_comparison p = ComparisonDisagree)
      then StatusWarn else row_status p)"
  by (simp_all add: compare_dns_def)

lemma record_comparison_fields [simp]:
  "row_status (record_comparison s p) = row_status p" "row_not_found (record_comparison s p) = row_not_found p"
  "row_addrs (record_comparison s p) = row_addrs p"
  by (simp_all add: record_comparison_def)

lemma dns_rows:
  "reconcile_dns res =
     (if dns_names_comparable res \<and> row_status (row_at res ProbeDNSPublic) = StatusPass
      then let s = row_at res ProbeDNS; p = record_comparison s (row_at res ProbeDNSPublic)
           in res(ProbeDNS \<mapsto> fst (compare_dns s p), ProbeDNSPublic \<mapsto> snd (compare_dns s p))
      else res)"
  by (auto simp: reconcile_dns_def dns_names_comparable_def has_def row_at_def Let_def split: option.splits prod.splits)

lemma dns_status:
  "map_option row_status (reconcile_dns res i) =
     map_option (\<lambda>r. if i = ProbeDNSPublic \<and> public_disputed res then StatusWarn else row_status r) (res i)"
proof (cases "dns_names_comparable res \<and> row_status (row_at res ProbeDNSPublic) = StatusPass")
  case True
  then obtain s p where sp: "res ProbeDNS = Some s" "res ProbeDNSPublic = Some p"
    by (auto simp: dns_names_comparable_def has_def)
  have "map_option row_status (reconcile_dns res ProbeDNS) = Some (row_status s)"
    using True sp by (simp add: dns_rows Let_def compare_dns_status)
  moreover have "map_option row_status (reconcile_dns res ProbeDNSPublic) =
      Some (if public_disputed res then StatusWarn else row_status p)"
    using True sp by (auto simp: dns_rows Let_def compare_dns_status public_disputed_def)
  ultimately show ?thesis
    using sp by (cases "i = ProbeDNS"; cases "i = ProbeDNSPublic") auto
next
  case False
  then show ?thesis
    by (cases "res i") (auto simp: dns_rows public_disputed_def Let_def)
qed

lemma alternate_family_cong:
  "a ProbeInternet = b ProbeInternet \<Longrightarrow> a ProbeTargetTCP = b ProbeTargetTCP \<Longrightarrow> alternate_family a = alternate_family b"
  by (simp add: alternate_family_def row_at_def)

lemma alternate_family_failed: "alternate_family res \<noteq> None \<Longrightarrow> failed res ProbeInternet \<and> \<not> intercepted res"
  using alternate_family_there [of res]
  by (auto simp: alternate_family_def Let_def status_is_row_at intercepted_row_at split: option.splits if_splits)

text \<open>What the second and the third pass together make of the egress row.\<close>

definition egress_row :: "results \<Rightarrow> row \<Rightarrow> row" where
  "egress_row res r =
     (case alternate_family res of
        None \<Rightarrow> r
      | Some fam \<Rightarrow> r\<lparr>row_cause := RouteCausePreferredPathAlternateReachable, row_cause_family := fam,
                     row_detail := preferred_path_summary\<rparr>)"

lemma egress_row_fields [simp]:
  "row_status (egress_row res r) = row_status r" "row_portal (egress_row res r) = row_portal r"
  "row_families (egress_row res r) = row_families r"
  by (simp_all add: egress_row_def split: option.split)

lemma egress_row_cause:
  "row_cause (egress_row res r) = RouteCausePreferredPathAlternateReachable \<longleftrightarrow>
     alternate_family res \<noteq> None \<or> row_cause r = RouteCausePreferredPathAlternateReachable"
  by (simp add: egress_row_def split: option.split)

lemma preferred_internet:
  "reconcile_preferred_path res ProbeInternet = map_option (egress_row res) (res ProbeInternet)"
proof (cases "res ProbeInternet")
  case None
  then have "alternate_family res = None"
    using alternate_family_there [of res] by (auto simp: has_def simp del: not_None_eq)
  with None show ?thesis by (simp add: reconcile_preferred_path_def)
qed (auto simp: reconcile_preferred_path_def egress_row_def split: option.split)

lemma downgraded_row_status [simp]:
  "row_status (downgraded_row b r) = StatusWarn" "row_families (downgraded_row b r) = row_families r"
  "row_downgraded (downgraded_row b r)"
  by (simp_all add: downgraded_row_def Let_def)

lemma other_path_cong:
  "a ProbeTargetTCP = b ProbeTargetTCP \<Longrightarrow> public_target_reached a = public_target_reached b"
  by (simp add: public_target_reached_def)

lemma egress_internet:
  "downgrade_egress (reconcile_preferred_path res) ProbeInternet =
     map_option (\<lambda>r. if way_around res
        then downgraded_row (other_path_works (reconcile_preferred_path res) (egress_row res r)) (egress_row res r)
        else egress_row res r) (res ProbeInternet)"
proof (cases "res ProbeInternet")
  case None
  then show ?thesis by (simp add: downgrade_egress_def preferred_internet)
next
  case (Some r)
  have p: "public_target_reached (reconcile_preferred_path res) = public_target_reached res"
    by (rule other_path_cong) simp
  have q: "proxy_carries (reconcile_preferred_path res) = proxy_carries res"
    by (simp add: proxy_carries_def works_def has_def row_at_def)
  from Some show ?thesis
    by (auto simp: downgrade_egress_def preferred_internet way_around_def status_is_row_at intercepted_row_at has_def
        other_path_works_def egress_row_cause p q)
qed

lemma way_around_cong:
  "a ProbeInternet = b ProbeInternet \<Longrightarrow> a ProbeTargetTCP = b ProbeTargetTCP \<Longrightarrow> a ProbeProxy = b ProbeProxy
   \<Longrightarrow> way_around a = way_around b"
  using alternate_family_cong [of a b] other_path_cong [of a b]
  by (simp add: way_around_def status_is_def intercepted_def proxy_carries_def works_def has_def row_at_def)

text \<open>The results before the last pass, at the two rows it reads.\<close>

definition before_last :: "results \<Rightarrow> results" where
  "before_last res =
     reconcile_clock_skew (reconcile_encrypted_dns (downgrade_egress (reconcile_preferred_path (reconcile_dns res))))"

lemma finalize_before_last: "finalize res = reconcile_counterfactuals (before_last res)"
  by (simp add: finalize_def before_last_def)

lemma before_last_target [simp]: "before_last res ProbeTargetTCP = res ProbeTargetTCP"
  by (simp add: before_last_def)

lemma before_last_internet:
  "before_last res ProbeInternet =
     map_option (\<lambda>r. if way_around res
        then downgraded_row (other_path_works (reconcile_preferred_path (reconcile_dns res)) (egress_row res r)) (egress_row res r)
        else egress_row res r) (res ProbeInternet)"
proof -
  have "alternate_family (reconcile_dns res) = alternate_family res"
    by (rule alternate_family_cong) simp_all
  then have "egress_row (reconcile_dns res) = egress_row res"
    by (intro ext) (simp add: egress_row_def)
  moreover have "way_around (reconcile_dns res) = way_around res"
    by (rule way_around_cong) simp_all
  ultimately show ?thesis
    unfolding before_last_def by (simp add: egress_internet cong: if_cong)
qed

lemma before_last_internet_families:
  "row_families (row_at (before_last res) ProbeInternet) = row_families (row_at res ProbeInternet)"
  unfolding row_at_def before_last_internet by (cases "res ProbeInternet") (auto split: option.split)

lemma effective_cong:
  "a ProbeTargetTCP = b ProbeTargetTCP \<Longrightarrow> row_families (row_at a ProbeInternet) = row_families (row_at b ProbeInternet)
   \<Longrightarrow> effective_target_families a = effective_target_families b"
  using row_at_eq [of a ProbeTargetTCP b] by (simp add: effective_target_families_def Let_def)

lemma before_last_effective: "effective_target_families (before_last res) = effective_target_families res"
  by (rule effective_cong) (simp_all add: before_last_internet_families)

lemma settle_families_status:
  "row_status (settle_families f r) = (if row_selected r \<noteq> [] \<and> split_families f then StatusWarn else row_status r)"
  by (simp add: settle_families_def Let_def)

lemma finalize_target:
  "finalize res ProbeTargetTCP =
     map_option (\<lambda>r. if row_families r = None then r else settle_families (effective_target_families res) r) (res ProbeTargetTCP)"
  unfolding finalize_before_last reconcile_counterfactuals_def
  by (cases "res ProbeTargetTCP") (simp_all add: before_last_effective)

lemma finalize_internet: "finalize res ProbeInternet = before_last res ProbeInternet"
  unfolding finalize_before_last by simp

lemma texts_only_encrypted: "map_option row_status (reconcile_encrypted_dns res i) = map_option row_status (res i)"
  by (cases "res i"; cases "i = ProbeDNSEncrypted")
    (auto simp: reconcile_encrypted_dns_def encrypted_dns_blocked_def status_is_def Let_def)

lemma skew_fix_status [simp]: "row_status (skew_fix d r) = row_status r"
  by (simp add: skew_fix_def)

lemma texts_only_skew: "map_option row_status (reconcile_clock_skew res i) = map_option row_status (res i)"
proof (cases "clock_skew res")
  case (Some d)
  obtain j b where f: "tls_failure_row res = (j, b)" by (cases "tls_failure_row res")
  show ?thesis
  proof (cases b)
    case True
    then obtain r where "res j = Some r" using f tls_failure_row_there [of res j] by auto
    with Some f True show ?thesis by (simp add: reconcile_clock_skew_def)
  qed (use Some f in \<open>simp add: reconcile_clock_skew_def\<close>)
qed (simp add: reconcile_clock_skew_def)

lemma finalize_status:
  "map_option row_status (finalize res i) =
     map_option (\<lambda>r. if i = ProbeInternet \<and> way_around res \<or> i = ProbeDNSPublic \<and> public_disputed res
                       \<or> i = ProbeTargetTCP \<and> one_family_lost res then StatusWarn else row_status r) (res i)"
proof -
  consider "i = ProbeInternet" | "i = ProbeTargetTCP" | "i \<noteq> ProbeInternet" "i \<noteq> ProbeTargetTCP" by blast
  then show ?thesis
  proof cases
    case 1
    then show ?thesis
      by (cases "res ProbeInternet") (simp_all add: finalize_internet before_last_internet)
  next
    case 2
    then show ?thesis
      by (cases "res ProbeTargetTCP") (auto simp: finalize_target one_family_lost_def settle_families_status)
  next
    case 3
    then have "map_option row_status (finalize res i) = map_option row_status (reconcile_dns res i)"
      by (simp add: finalize_def texts_only_encrypted texts_only_skew)
    with 3 show ?thesis
      by (simp add: dns_status)
  qed
qed


section \<open>Up to texts\<close>

text \<open>A row without its two texts, and results without texts.\<close>

definition textless :: "row \<Rightarrow> row" where
  "textless r = r\<lparr>row_detail := [], row_fix := []\<rparr>"

definition untext :: "results \<Rightarrow> results" where
  "untext res = (\<lambda>i. map_option textless (res i))"

lemma textless_fields [simp]:
  "row_status (textless r) = row_status r" "row_cause (textless r) = row_cause r"
  "row_families (textless r) = row_families r" "row_downgraded (textless r) = row_downgraded r"
  "row_alternates (textless r) = row_alternates r" "row_comparison (textless r) = row_comparison r"
  "row_portal (textless r) = row_portal r" "row_addrs (textless r) = row_addrs r"
  "row_scope (textless r) = row_scope r" "row_not_found (textless r) = row_not_found r"
  "row_selected (textless r) = row_selected r" "row_source (textless r) = row_source r"
  "row_iface (textless r) = row_iface r" "row_routes (textless r) = row_routes r"
  "row_attempts (textless r) = row_attempts r" "row_clock_offset (textless r) = row_clock_offset r"
  "row_iface_ambiguous (textless r) = row_iface_ambiguous r" "textless (textless r) = textless r"
  by (simp_all add: textless_def)

lemma textless_upd [simp]:
  "textless (r\<lparr>row_detail := d\<rparr>) = textless r" "textless (r\<lparr>row_fix := x\<rparr>) = textless r"
  "textless (r\<lparr>row_status := s\<rparr>) = (textless r)\<lparr>row_status := s\<rparr>"
  "textless (r\<lparr>row_cause := c\<rparr>) = (textless r)\<lparr>row_cause := c\<rparr>"
  "textless (r\<lparr>row_cause_family := f\<rparr>) = (textless r)\<lparr>row_cause_family := f\<rparr>"
  "textless (r\<lparr>row_families := fs\<rparr>) = (textless r)\<lparr>row_families := fs\<rparr>"
  "textless (r\<lparr>row_downgraded := b\<rparr>) = (textless r)\<lparr>row_downgraded := b\<rparr>"
  "textless (r\<lparr>row_comparison := cm\<rparr>) = (textless r)\<lparr>row_comparison := cm\<rparr>"
  by (simp_all add: textless_def)

lemma textless_zero [simp]: "textless zero_row = zero_row"
  by (simp add: textless_def zero_row_def)

lemma untext_at: "untext res i = map_option textless (res i)"
  by (simp add: untext_def)

lemma row_at_untext [simp]: "row_at (untext res) i = textless (row_at res i)"
  by (simp add: row_at_def untext_at split: option.split)

lemma has_untext [simp]: "has (untext res) i = has res i"
  by (simp add: has_def untext_at)

text \<open>Nothing a pass asks depends on texts.\<close>

lemma asks_untext [simp]:
  "dns_names_comparable (untext res) = dns_names_comparable res"
  "works (untext res) i = works res i"
  "status_is s (untext res) i = status_is s res i"
  "intercepted (untext res) = intercepted res"
  "public_target_reached (untext res) = public_target_reached res"
  "proxy_carries (untext res) = proxy_carries res"
  "alternate_family (untext res) = alternate_family res"
  "effective_target_families (untext res) = effective_target_families res"
  subgoal by (simp add: dns_names_comparable_def)
  subgoal by (simp add: works_def)
  subgoal by (simp add: status_is_row_at)
  subgoal by (simp add: intercepted_row_at)
  subgoal by (simp add: public_target_reached_row_at works_def)
  subgoal by (simp add: proxy_carries_def works_def)
  subgoal unfolding alternate_family_def Let_def row_at_untext textless_fields ..
  subgoal unfolding effective_target_families_def family_attempts_all_refused_def Let_def row_at_untext textless_fields ..
  done

text \<open>Results that agree up to texts stay so under every pass.\<close>

lemma untext_upd: "untext (res(i \<mapsto> r)) = (untext res)(i \<mapsto> textless r)"
  by (simp add: untext_def fun_eq_iff)

lemma textless_record_comparison: "textless (record_comparison s p) = record_comparison (textless s) (textless p)"
  by (simp add: record_comparison_def)

lemma textless_compare_dns:
  "textless (fst (compare_dns s p)) = textless s"
  "textless (snd (compare_dns s p)) = (textless p)\<lparr>row_status := row_status (snd (compare_dns s p))\<rparr>"
  by (simp_all add: compare_dns_def textless_def)

lemma compare_dns_status_textless:
  "row_status (snd (compare_dns (textless s) (record_comparison (textless s) (textless p)))) =
     row_status (snd (compare_dns s (record_comparison s p)))"
  unfolding compare_dns_status textless_record_comparison [symmetric] by auto

lemma dns_agrees: "untext a = untext b \<Longrightarrow> untext (reconcile_dns a) = untext (reconcile_dns b)"
proof -
  have "untext (reconcile_dns res) =
     (if dns_names_comparable (untext res) \<and> row_status (row_at (untext res) ProbeDNSPublic) = StatusPass
      then let s = row_at (untext res) ProbeDNS; p = record_comparison s (row_at (untext res) ProbeDNSPublic)
           in (untext res)(ProbeDNS \<mapsto> s, ProbeDNSPublic \<mapsto> p\<lparr>row_status := row_status (snd (compare_dns s p))\<rparr>)
      else untext res)" for res
    by (simp add: dns_rows Let_def untext_upd textless_compare_dns textless_record_comparison compare_dns_status_textless)
  then show "untext a = untext b \<Longrightarrow> untext (reconcile_dns a) = untext (reconcile_dns b)" by (simp only:)
qed

lemma preferred_agrees: "untext a = untext b \<Longrightarrow> untext (reconcile_preferred_path a) = untext (reconcile_preferred_path b)"
proof -
  have "untext (reconcile_preferred_path res) =
     (case alternate_family (untext res) of
        None \<Rightarrow> untext res
      | Some fam \<Rightarrow> (untext res)(ProbeInternet \<mapsto> (row_at (untext res) ProbeInternet)
          \<lparr>row_cause := RouteCausePreferredPathAlternateReachable, row_cause_family := fam\<rparr>))" for res
    by (simp add: reconcile_preferred_path_def untext_upd split: option.split)
  then show "untext a = untext b \<Longrightarrow> untext (reconcile_preferred_path a) = untext (reconcile_preferred_path b)" by (simp only:)
qed

lemma egress_agrees: "untext a = untext b \<Longrightarrow> untext (downgrade_egress a) = untext (downgrade_egress b)"
proof -
  have "untext (downgrade_egress res) =
     (if failed (untext res) ProbeInternet \<and> \<not> intercepted (untext res)
         \<and> (row_cause (row_at (untext res) ProbeInternet) = RouteCausePreferredPathAlternateReachable
            \<or> public_target_reached (untext res) \<or> proxy_carries (untext res))
      then (untext res)(ProbeInternet \<mapsto> (row_at (untext res) ProbeInternet)\<lparr>row_status := StatusWarn, row_downgraded := True\<rparr>)
      else untext res)" for res
    by (cases "res ProbeInternet")
      (simp_all add: downgrade_egress_def untext_upd downgraded_row_def Let_def other_path_works_def status_is_row_at
        intercepted_row_at has_def untext_at)
  then show "untext a = untext b \<Longrightarrow> untext (downgrade_egress a) = untext (downgrade_egress b)" by (simp only:)
qed

lemma encrypted_textual: "untext (reconcile_encrypted_dns res) = untext res"
  by (cases "res ProbeDNSEncrypted")
    (auto simp: reconcile_encrypted_dns_def Let_def untext_upd encrypted_dns_blocked_def status_is_def untext_at fun_eq_iff)

lemma skew_textual: "untext (reconcile_clock_skew res) = untext res"
proof (cases "clock_skew res")
  case (Some d)
  obtain j b where f: "tls_failure_row res = (j, b)" by (cases "tls_failure_row res")
  show ?thesis
  proof (cases b)
    case True
    then obtain r where "res j = Some r" using f tls_failure_row_there [of res j] by auto
    with Some f True show ?thesis
      by (auto simp: reconcile_clock_skew_def untext_upd untext_at fun_eq_iff skew_fix_def)
  qed (use Some f in \<open>simp add: reconcile_clock_skew_def\<close>)
qed (simp add: reconcile_clock_skew_def)

lemma textless_settle: "textless (settle_families f (textless r)) = textless (settle_families f r)"
  by (simp add: settle_families_def Let_def)

lemma counterfactuals_agrees:
  "untext a = untext b \<Longrightarrow> untext (reconcile_counterfactuals a) = untext (reconcile_counterfactuals b)"
proof -
  have "untext (reconcile_counterfactuals res) =
     (if row_families (row_at (untext res) ProbeTargetTCP) = None then untext res
      else (untext res)(ProbeTargetTCP \<mapsto> textless (settle_families (effective_target_families (untext res)) (row_at (untext res) ProbeTargetTCP))))" for res
    by (cases "res ProbeTargetTCP")
      (simp_all add: reconcile_counterfactuals_def untext_upd textless_settle)
  then show "untext a = untext b \<Longrightarrow> untext (reconcile_counterfactuals a) = untext (reconcile_counterfactuals b)" by (simp only:)
qed


section \<open>What is written\<close>

text \<open>The row a probe is left with, from the results \<^verbatim>\<open>Finalize\<close> was given. The egress row
  names the alternate path where one was found and is downgraded where a way around it is known;
  the public DNS row records how its answers compare with the system's; the target row keeps the
  families that the evidence of the whole run supports, or none when neither was tested.\<close>

definition reconciled :: "results \<Rightarrow> probe_id \<Rightarrow> row \<Rightarrow> row" where
  "reconciled res i r =
     (if i = ProbeInternet then
        (let r = (case alternate_family res of
                    None \<Rightarrow> r
                  | Some fam \<Rightarrow> r\<lparr>row_cause := RouteCausePreferredPathAlternateReachable, row_cause_family := fam\<rparr>)
         in if way_around res then r\<lparr>row_status := StatusWarn, row_downgraded := True\<rparr> else r)
      else if i = ProbeDNSPublic \<and> dns_names_comparable res \<and> row_status r = StatusPass then
        (let r = record_comparison (row_at res ProbeDNS) r
         in if public_disputed res then r\<lparr>row_status := StatusWarn\<rparr> else r)
      else if i = ProbeTargetTCP \<and> row_families r \<noteq> None then
        (let f = effective_target_families res;
             r = r\<lparr>row_families := (if fc_v4 f = FamilyUntested \<and> fc_v6 f = FamilyUntested then None else Some f)\<rparr>
         in if one_family_lost res then r\<lparr>row_status := StatusWarn\<rparr> else r)
      else r)"

lemma untext_dns:
  "untext (reconcile_dns res) ProbeDNSPublic = map_option (\<lambda>r. textless (reconciled res ProbeDNSPublic r)) (res ProbeDNSPublic)"
  "i \<noteq> ProbeDNSPublic \<Longrightarrow> untext (reconcile_dns res) i = untext res i"
proof -
  show "untext (reconcile_dns res) ProbeDNSPublic = map_option (\<lambda>r. textless (reconciled res ProbeDNSPublic r)) (res ProbeDNSPublic)"
  proof (cases "dns_names_comparable res \<and> row_status (row_at res ProbeDNSPublic) = StatusPass")
    case True
    then obtain s p where sp: "res ProbeDNS = Some s" "res ProbeDNSPublic = Some p"
      by (auto simp: dns_names_comparable_def has_def)
    have "row_status (snd (compare_dns s (record_comparison s p))) = (if public_disputed res then StatusWarn else row_status p)"
      using True sp by (auto simp: compare_dns_status public_disputed_def)
    then show ?thesis
      using True sp by (simp add: dns_rows Let_def untext_at textless_compare_dns reconciled_def)
  next
    case False
    then show ?thesis
      by (cases "res ProbeDNSPublic") (auto simp: dns_rows untext_at reconciled_def)
  qed
  show "untext (reconcile_dns res) i = untext res i" if "i \<noteq> ProbeDNSPublic"
  proof (cases "dns_names_comparable res")
    case True
    then obtain s where "res ProbeDNS = Some s" by (auto simp: dns_names_comparable_def has_def)
    with that show ?thesis
      by (cases "i = ProbeDNS") (simp_all add: dns_rows Let_def untext_at textless_compare_dns)
  qed (simp add: dns_rows)
qed

lemma untext_before_last:
  "i \<noteq> ProbeInternet \<Longrightarrow> untext (before_last res) i = untext (reconcile_dns res) i"
  unfolding before_last_def skew_textual encrypted_textual by (simp add: untext_at)

lemma untext_internet:
  "map_option textless (before_last res ProbeInternet) = map_option (\<lambda>r. textless (reconciled res ProbeInternet r)) (res ProbeInternet)"
  unfolding before_last_internet
  by (cases "res ProbeInternet")
    (auto simp: reconciled_def egress_row_def downgraded_row_def Let_def split: option.split)

lemma untext_target:
  "map_option textless (finalize res ProbeTargetTCP) = map_option (\<lambda>r. textless (reconciled res ProbeTargetTCP r)) (res ProbeTargetTCP)"
  unfolding finalize_target
  by (cases "res ProbeTargetTCP") (auto simp: reconciled_def settle_families_def one_family_lost_def Let_def)

lemma finalize_reconciled:
  "map_option textless (finalize res i) = map_option (\<lambda>r. textless (reconciled res i r)) (res i)"
proof -
  consider "i = ProbeInternet" | "i = ProbeTargetTCP" | "i \<noteq> ProbeInternet" "i \<noteq> ProbeTargetTCP" by blast
  then show ?thesis
  proof cases
    case 1
    then show ?thesis by (simp only: finalize_internet untext_internet)
  next
    case 2
    then show ?thesis by (simp only: untext_target)
  next
    case 3
    then have "map_option textless (finalize res i) = untext (reconcile_dns res) i"
      using untext_before_last [of i res] by (simp add: finalize_before_last untext_at)
    then show ?thesis
      using 3 untext_dns by (cases "i = ProbeDNSPublic") (simp_all add: untext_at reconciled_def)
  qed
qed

text \<open>
  C6. What \<^verbatim>\<open>Finalize\<close> writes, exactly. A status changes in three cases only, each to
  a warning: the egress row, when it failed on a path nobody intercepted and another path is
  known to work; the public DNS row, when the two resolvers were asked about one absolute name
  and their answers disagree; the target row, when one of its two address families was reached
  and the other is down by the evidence of the run. Beside the statuses and the two texts of a
  row, it writes the cause, its family and the downgrade mark of the egress row, the comparison
  of the public DNS row and the recorded families of the target row, each to the value that
  \<open>reconciled\<close> states; every other field of every row is the one its probe reported.
\<close>

theorem finalize_exact:
  "map_option row_status (finalize res i) =
     map_option (\<lambda>r. if i = ProbeInternet \<and> way_around res \<or> i = ProbeDNSPublic \<and> public_disputed res
                       \<or> i = ProbeTargetTCP \<and> one_family_lost res then StatusWarn else row_status r) (res i)
   \<and> map_option textless (finalize res i) = map_option (\<lambda>r. textless (reconciled res i r)) (res i)"
  using finalize_status finalize_reconciled by (rule conjI)

section \<open>A second call\<close>

text \<open>A probe names a selected address only when it connected: what the target probe promises.\<close>

definition selected_works :: "results \<Rightarrow> bool" where
  "selected_works res \<longleftrightarrow> (row_selected (row_at res ProbeTargetTCP) \<noteq> [] \<longrightarrow> functional (row_status (row_at res ProbeTargetTCP)))"

lemma finalize_dns_rows:
  "finalize res ProbeDNS = reconcile_dns res ProbeDNS" "finalize res ProbeDNSPublic = reconcile_dns res ProbeDNSPublic"
  by (simp_all add: finalize_def)

lemma finalize_has [simp]: "has (finalize res) i = has res i"
  using row_change_None [OF keeps_finalize] by (simp add: has_def)

lemma unwritten_of_finalize: "unwritten (row_at (finalize res) i) = unwritten (row_at res i)"
  using row_change_Some [OF keeps_finalize, of res i] row_change_None [OF keeps_finalize, of res i]
  by (cases "res i") (fastforce simp: row_at_def)+

lemma unwritten_fields:
  assumes "unwritten r' = unwritten r"
  shows "row_portal r' = row_portal r" "row_addrs r' = row_addrs r" "row_scope r' = row_scope r"
    "row_not_found r' = row_not_found r" "row_selected r' = row_selected r" "row_source r' = row_source r"
    "row_iface r' = row_iface r" "row_routes r' = row_routes r" "row_attempts r' = row_attempts r"
    "row_alternates r' = row_alternates r" "row_iface_ambiguous r' = row_iface_ambiguous r"
    "row_clock_offset r' = row_clock_offset r"
  using assms by (cases r; cases r'; simp add: unwritten_def)+

lemmas finalized_fields = unwritten_fields [OF unwritten_of_finalize]

lemma finalize_status_at:
  "row_status (row_at (finalize res) i) =
     (if has res i \<and> (i = ProbeInternet \<and> way_around res \<or> i = ProbeDNSPublic \<and> public_disputed res
         \<or> i = ProbeTargetTCP \<and> one_family_lost res) then StatusWarn else row_status (row_at res i))"
  using finalize_status [of res i] row_change_None [OF keeps_finalize, of res i]
  by (cases "res i"; cases "finalize res i") (auto simp: row_at_def has_def zero_row_def)


lemma compare_dns_fields:
  "row_addrs (fst (compare_dns s p)) = row_addrs s" "row_not_found (fst (compare_dns s p)) = row_not_found s"
  "row_addrs (snd (compare_dns s p)) = row_addrs p" "row_not_found (snd (compare_dns s p)) = row_not_found p"
  "row_comparison (snd (compare_dns s p)) = row_comparison p" "row_scope (snd (compare_dns s p)) = row_scope p"
  by (simp_all add: compare_dns_def)

lemma record_comparison_scope [simp]: "row_scope (record_comparison s p) = row_scope p"
  by (simp add: record_comparison_def)

lemma record_comparison_again:
  assumes "row_status s' = row_status s" "row_addrs s' = row_addrs s" "row_addrs p' = row_addrs p"
    "row_comparison p' = row_comparison (record_comparison s p)"
  shows "record_comparison s' p' = p'"
proof -
  have "p'\<lparr>row_comparison := row_comparison p'\<rparr> = p'" by simp
  then show ?thesis
    using assms unfolding record_comparison_def by (simp split: if_splits)
qed

lemma dns_again: "untext (reconcile_dns (reconcile_dns res)) = untext (reconcile_dns res)"
proof (cases "dns_names_comparable res \<and> row_status (row_at res ProbeDNSPublic) = StatusPass")
  case False
  have r: "reconcile_dns res = res"
    unfolding dns_rows using False by (rule if_not_P)
  show ?thesis by (simp only: r)
next
  case True
  define s where "s = row_at res ProbeDNS"
  define p where "p = record_comparison s (row_at res ProbeDNSPublic)"
  define s' where "s' = fst (compare_dns s p)"
  define p' where "p' = snd (compare_dns s p)"
  let ?g = "reconcile_dns res"
  have g: "?g = res(ProbeDNS \<mapsto> s', ProbeDNSPublic \<mapsto> p')"
    using True by (simp add: dns_rows Let_def s_def p_def s'_def p'_def)
  show ?thesis
  proof (cases "row_status p' = StatusPass")
    case False
    have r: "reconcile_dns ?g = ?g"
      unfolding dns_rows [of ?g] by (rule if_not_P) (simp add: g False)
    show ?thesis by (simp only: r)
  next
    case pass: True
    have rc: "record_comparison s' p' = p'"
      by (rule record_comparison_again [of _ s _ "row_at res ProbeDNSPublic"])
        (simp_all add: s'_def p'_def compare_dns_status compare_dns_fields p_def)
    have "row_status (snd (compare_dns s' p')) = StatusPass"
      using pass unfolding compare_dns_status p'_def s'_def compare_dns_fields
      by (simp add: compare_dns_status compare_dns_fields split: if_splits)
    then have "textless (snd (compare_dns s' p')) = textless p'"
      using pass by (simp add: textless_compare_dns)
    moreover have "textless (fst (compare_dns s' p')) = textless s'"
      by (rule textless_compare_dns)
    moreover have "reconcile_dns ?g =
        (if dns_names_comparable ?g \<and> row_status (row_at ?g ProbeDNSPublic) = StatusPass
         then ?g(ProbeDNS \<mapsto> fst (compare_dns s' p'), ProbeDNSPublic \<mapsto> snd (compare_dns s' p')) else ?g)"
      unfolding dns_rows [of ?g] by (simp add: g rc)
    moreover have "(untext ?g)(ProbeDNS \<mapsto> textless s', ProbeDNSPublic \<mapsto> textless p') = untext ?g"
      by (simp add: g untext_def fun_eq_iff)
    ultimately show ?thesis
      by (simp add: untext_upd)
  qed
qed

lemma dns_local:
  assumes "a ProbeDNS = b ProbeDNS" "a ProbeDNSPublic = b ProbeDNSPublic" "i = ProbeDNS \<or> i = ProbeDNSPublic"
  shows "reconcile_dns a i = reconcile_dns b i"
  using assms(3) unfolding dns_rows dns_names_comparable_def has_def row_at_def Let_def assms(1,2)
  by (auto simp: assms(1,2))

lemma finalized_dns: "untext (reconcile_dns (finalize res)) = untext (finalize res)"
proof
  fix i
  let ?f = "finalize res" and ?g = "reconcile_dns res"
  have same: "?f ProbeDNS = ?g ProbeDNS" "?f ProbeDNSPublic = ?g ProbeDNSPublic"
    by (rule finalize_dns_rows)+
  show "untext (reconcile_dns ?f) i = untext ?f i"
  proof (cases "i = ProbeDNS \<or> i = ProbeDNSPublic")
    case True
    have "untext (reconcile_dns ?g) i = untext ?g i" by (simp only: dns_again)
    with dns_local [OF same True] True same show ?thesis by (auto simp: untext_at)
  qed (simp add: untext_at)
qed

lemma effective_again:
  assumes "row_families (row_at a ProbeTargetTCP) =
      (if F = no_families then None else Some F)" "F = effective_target_families b"
    "row_attempts (row_at a ProbeTargetTCP) = row_attempts (row_at b ProbeTargetTCP)"
    "row_families (row_at a ProbeInternet) = row_families (row_at b ProbeInternet)"
  shows "effective_target_families a = F"
proof (cases "F = no_families")
  case True
  with assms(1) show ?thesis by (simp add: effective_target_families_def)
next
  case False
  have refused: "family_attempts_all_refused (row_at a ProbeTargetTCP) v = family_attempts_all_refused (row_at b ProbeTargetTCP) v" for v
    by (simp add: family_attempts_all_refused_def assms(3))
  from False obtain out where "row_families (row_at b ProbeTargetTCP) = Some out"
    using assms(2) by (auto simp: effective_target_families_def Let_def split: option.splits)
  with False show ?thesis
    unfolding effective_target_families_def [of a] assms(1) Let_def assms(4) refused
    by (auto simp: assms(2) effective_target_families_def [of b] Let_def)
qed

lemma finalized_internet_families:
  "row_families (row_at (finalize res) ProbeInternet) = row_families (row_at res ProbeInternet)"
  using before_last_internet_families [of res] by (simp add: row_at_def finalize_internet)

lemma finalized_target_families:
  assumes "row_families (row_at res ProbeTargetTCP) \<noteq> None"
  shows "row_families (row_at (finalize res) ProbeTargetTCP) =
     (if effective_target_families res = no_families then None else Some (effective_target_families res))"
proof -
  obtain r where r: "res ProbeTargetTCP = Some r" "row_families r \<noteq> None"
    using assms by (cases "res ProbeTargetTCP") auto
  then have "row_at (finalize res) ProbeTargetTCP = settle_families (effective_target_families res) r"
    by (auto simp: row_at_def finalize_target)
  moreover have "fc_v4 F = FamilyUntested \<and> fc_v6 F = FamilyUntested \<longleftrightarrow> F = no_families" for F :: family_connectivity
    by (cases F) (simp add: no_families_def)
  ultimately show ?thesis
    by (simp add: settle_families_def Let_def)
qed

lemma finalized_counterfactuals: "untext (reconcile_counterfactuals (finalize res)) = untext (finalize res)"
proof (cases "row_families (row_at (finalize res) ProbeTargetTCP) = None")
  case True
  then show ?thesis
    by (cases "finalize res ProbeTargetTCP") (simp_all add: reconcile_counterfactuals_def)
next
  case False
  let ?f = "finalize res" and ?F = "effective_target_families res"
  obtain r where r: "res ProbeTargetTCP = Some r" "row_families r \<noteq> None"
    using False by (cases "res ProbeTargetTCP") (auto simp: finalize_target row_at_def split: if_splits)
  then have families: "row_families (row_at ?f ProbeTargetTCP) = (if ?F = no_families then None else Some ?F)"
    by (intro finalized_target_families) simp
  have f: "?f ProbeTargetTCP = Some (settle_families ?F r)"
    using r by (auto simp: finalize_target)
  have "effective_target_families ?f = ?F"
    by (rule effective_again [OF families refl finalized_fields(9) finalized_internet_families])
  moreover have "row_families (settle_families ?F r) \<noteq> None"
    using False f by simp
  moreover have "textless (settle_families ?F (settle_families ?F r)) = textless (settle_families ?F r)"
    by (simp add: settle_families_def Let_def)
  ultimately show ?thesis
    by (simp add: reconcile_counterfactuals_def f untext_upd) (simp add: untext_def fun_eq_iff f)
qed

lemma finalized_egress_row:
  assumes "has res ProbeInternet" "row_status (row_at (finalize res) ProbeInternet) = StatusFail"
  shows "row_cause (row_at (finalize res) ProbeInternet) = row_cause (row_at res ProbeInternet)"
    "\<not> way_around res" "row_status (row_at res ProbeInternet) = StatusFail"
proof -
  obtain r where r: "res ProbeInternet = Some r" using assms(1) by (auto simp: has_def)
  show w: "\<not> way_around res"
    using assms by (auto simp: finalize_status_at split: if_splits)
  show f: "row_status (row_at res ProbeInternet) = StatusFail"
    using assms w by (auto simp: finalize_status_at split: if_splits)
  have "alternate_family res = None"
    using w alternate_family_failed [of res] unfolding way_around_def by blast
  then show "row_cause (row_at (finalize res) ProbeInternet) = row_cause (row_at res ProbeInternet)"
    using w r by (simp add: row_at_def finalize_internet before_last_internet egress_row_def)
qed

lemma finalized_no_way:
  assumes "selected_works res"
  shows "\<not> way_around (finalize res)"
proof
  let ?f = "finalize res"
  assume w: "way_around ?f"
  have has: "has res ProbeInternet" and failed: "row_status (row_at ?f ProbeInternet) = StatusFail"
    using w by (auto simp: way_around_def status_is_row_at)
  note row = finalized_egress_row [OF has failed]
  have portal: "row_portal (row_at res ProbeInternet) = None"
    using w has by (auto simp: way_around_def intercepted_row_at finalized_fields)
  have no: "row_cause (row_at res ProbeInternet) \<noteq> RouteCausePreferredPathAlternateReachable"
      "alternate_family res = None" "\<not> public_target_reached res" "\<not> proxy_carries res"
    using row(2,3) portal has by (auto simp: way_around_def status_is_row_at intercepted_row_at)
  have target: "functional (row_status (row_at ?f ProbeTargetTCP)) \<longleftrightarrow> functional (row_status (row_at res ProbeTargetTCP))"
    if "row_selected (row_at res ProbeTargetTCP) \<noteq> []"
    using assms that by (auto simp: selected_works_def finalize_status_at functional_def)
  have "alternate_family ?f = alternate_family res"
    unfolding alternate_family_def Let_def finalized_fields finalized_internet_families failed row(3)
    using target by (auto split: option.split)
  moreover have "public_target_reached ?f = public_target_reached res"
    unfolding public_target_reached_row_at works_def finalize_has finalized_fields using target by auto
  moreover have "proxy_carries ?f = proxy_carries res"
    by (simp add: proxy_carries_def works_def finalize_status_at)
  ultimately show False
    using w no row(1) by (simp add: way_around_def)
qed

lemma finalized_egress:
  assumes "selected_works res"
  shows "reconcile_preferred_path (finalize res) = finalize res" "downgrade_egress (finalize res) = finalize res"
proof -
  note w = finalized_no_way [OF assms]
  then have "alternate_family (finalize res) = None"
    using alternate_family_failed [of "finalize res"] unfolding way_around_def by blast
  then show "reconcile_preferred_path (finalize res) = finalize res"
    by (simp add: reconcile_preferred_path_def)
  show "downgrade_egress (finalize res) = finalize res"
    using w by (cases "finalize res ProbeInternet")
      (auto simp: downgrade_egress_def way_around_def other_path_works_def status_is_def intercepted_def)
qed

lemma finalize_again:
  assumes "selected_works res"
  shows "untext (finalize (finalize res)) = untext (finalize res)"
proof -
  let ?f = "finalize res"
  have "untext (reconcile_preferred_path (reconcile_dns ?f)) = untext ?f"
    using preferred_agrees [OF finalized_dns] finalized_egress(1) [OF assms] by simp
  then have "untext (downgrade_egress (reconcile_preferred_path (reconcile_dns ?f))) = untext ?f"
    using egress_agrees finalized_egress(2) [OF assms] by metis
  then have "untext (reconcile_clock_skew (reconcile_encrypted_dns (downgrade_egress (reconcile_preferred_path (reconcile_dns ?f)))))
      = untext ?f"
    by (simp add: encrypted_textual skew_textual)
  from counterfactuals_agrees [OF this] show ?thesis
    by (simp add: finalize_def [of ?f] finalized_counterfactuals)
qed

text \<open>
  Once \<^verbatim>\<open>Finalize\<close> has run, running it again changes no status, no cause and no other
  field than the two texts of a row, provided the target row names a selected address only
  when it connected, which is what its probe promises.
\<close>

theorem finalize_settled:
  assumes "selected_works res"
  shows "untext (finalize (finalize res)) = untext (finalize res)"
  using assms by (rule finalize_again)

text \<open>A name that neither resolver knows, on a machine with a working path.\<close>

definition missing_name_lab :: results where
  "missing_name_lab =
     [ProbeDNS \<mapsto> zero_row\<lparr>row_status := StatusFail, row_not_found := True\<rparr>,
      ProbeDNSPublic \<mapsto> zero_row\<lparr>row_not_found := True, row_scope := DNSNameAbsolute\<rparr>,
      ProbeInternet \<mapsto> zero_row]"

theorem finalize_settled_witness:
  "selected_works missing_name_lab \<and> untext (finalize (finalize missing_name_lab)) = untext (finalize missing_name_lab)"
proof -
  have "selected_works missing_name_lab"
    by (simp add: selected_works_def missing_name_lab_def zero_row_def)
  then show ?thesis
    using finalize_settled [of missing_name_lab] by blast
qed

text \<open>The texts do change: on that run a second call appends its sentence again, so
  \<^verbatim>\<open>Finalize\<close> is not idempotent, as the comment on it says it is.\<close>

theorem finalize_repeats_text:
  "row_detail (row_at (finalize (finalize missing_name_lab)) ProbeDNS)
     \<noteq> row_detail (row_at (finalize missing_name_lab) ProbeDNS)"
proof -
  have step: "row_detail (row_at (finalize res) ProbeDNS) = row_detail (row_at res ProbeDNS) @ agreed_missing_text"
    if "dns_names_comparable res" "row_not_found (row_at res ProbeDNS)" "row_not_found (row_at res ProbeDNSPublic)"
      "row_status (row_at res ProbeDNSPublic) = StatusPass" for res
    using that by (simp add: row_at_eq [of "finalize res" ProbeDNS "reconcile_dns res", OF finalize_dns_rows(1)] dns_rows Let_def compare_dns_def)
  have lab: "dns_names_comparable missing_name_lab" "row_not_found (row_at missing_name_lab ProbeDNS)"
      "row_not_found (row_at missing_name_lab ProbeDNSPublic)" "row_status (row_at missing_name_lab ProbeDNSPublic) = StatusPass"
    "\<not> public_disputed missing_name_lab"
    by (simp_all add: missing_name_lab_def dns_names_comparable_def has_def zero_row_def public_disputed_def)
  have "dns_names_comparable (finalize missing_name_lab)"
    using lab(1) by (simp add: dns_names_comparable_def finalized_fields)
  moreover have "row_status (row_at (finalize missing_name_lab) ProbeDNSPublic) = StatusPass"
    using lab by (simp add: finalize_status_at)
  ultimately have "row_detail (row_at (finalize (finalize missing_name_lab)) ProbeDNS)
      = row_detail (row_at (finalize missing_name_lab) ProbeDNS) @ agreed_missing_text"
    using lab by (intro step) (simp_all add: finalized_fields)
  then show ?thesis
    by (simp add: agreed_missing_text_def)
qed

section \<open>The size of a clock offset\<close>

text \<open>Rounding to a unit: at most half a unit away, and never below the whole units, also
  where the largest duration cuts the sum off.\<close>

lemma round_units:
  fixes d m :: int
  assumes "0 < m" "0 \<le> d" "d \<le> max_duration"
  shows "d div m \<le> round_dur d m div m"
    "d + m \<le> max_duration \<Longrightarrow> 2 * \<bar>round_dur d m div m * m - d\<bar> \<le> m"
proof -
  define q r where "q = d div m" and "r = d mod m"
  have d: "d = q * m + r" "0 \<le> r" "r < m"
    using assms(1) by (simp_all add: q_def r_def)
  have up: "d + m - r = (q + 1) * m" "d - r = q * m"
    using d(1) by (simp_all add: algebra_simps)
  have div: "(q + 1) * m div m = q + 1" "q * m div m = q"
    using assms(1) by simp_all
  have cut: "q \<le> max_duration div m"
    unfolding q_def using assms by (intro zdiv_mono1)
  show "d div m \<le> round_dur d m div m"
    using cut unfolding round_dur_def Let_def q_def [symmetric] r_def [symmetric] up
    by (simp add: div del: distrib_right_numeral)
  assume "d + m \<le> max_duration"
  then have "d + m - r \<le> max_duration" using d by linarith
  then show "2 * \<bar>round_dur d m div m * m - d\<bar> \<le> m"
    unfolding round_dur_def Let_def r_def [symmetric] up(1)
    using d(2,3) unfolding up(2) by (auto simp: div) (auto simp: d(1) algebra_simps)
qed

definition skew_unit :: "int \<Rightarrow> int" where
  "skew_unit d =
     (if minutes (48 * 60) \<le> dur_abs d then minutes (24 * 60) else if minutes 90 \<le> dur_abs d then minutes 60 else minutes 1)"

lemma dur_abs_range: "- (2 ^ 63) \<le> d \<Longrightarrow> d \<le> max_duration \<Longrightarrow> 0 \<le> dur_abs d \<and> dur_abs d \<le> max_duration"
  by (auto simp: dur_abs_def max_duration_def)

lemma skew_count_unit: "fst (skew_count d) = round_dur (dur_abs d) (skew_unit d) div skew_unit d"
  by (simp add: skew_count_def skew_unit_def Let_def)

lemma skew_count_iff:
  assumes "clock_skew_threshold \<le> dur_abs d" "- (2 ^ 63) \<le> d" "d \<le> max_duration"
  shows "2 \<le> fst (skew_count d)"
    "dur_abs d \<le> max_duration - minutes (24 * 60) \<Longrightarrow>
       2 * \<bar>fst (skew_count d) * skew_unit d - dur_abs d\<bar> \<le> skew_unit d"
proof -
  define a where "a = dur_abs d"
  have a: "0 \<le> a" "a \<le> max_duration" "minutes 5 \<le> a"
    using assms dur_abs_range [of d] by (simp_all add: a_def clock_skew_threshold_def)
  have unit: "0 < skew_unit d" "skew_unit d \<le> minutes (24 * 60)"
    by (auto simp: skew_unit_def minutes_def)
  show "2 \<le> fst (skew_count d)"
  proof (cases "minutes 90 \<le> a \<and> a < minutes 120")
    case True
    then have u: "skew_unit d = minutes 60" by (simp add: skew_unit_def a_def minutes_def)
    let ?u = "minutes 60"
    have r: "0 < ?u" "3 * ?u \<le> 2 * a" "a < 2 * ?u"
      using True by (simp_all add: minutes_def)
    then have "a mod ?u = a - ?u"
      using mod_pos_geq [of ?u a] mod_pos_pos_trivial [of "a - ?u" ?u] by linarith
    moreover have "2 * ?u \<le> max_duration" by (simp add: minutes_def max_duration_def)
    ultimately have "round_dur a ?u = 2 * ?u"
      using r by (simp add: round_dur_def)
    then show ?thesis
      using r(1) unfolding skew_count_unit u a_def [symmetric] by simp
  next
    case False
    then have "2 * skew_unit d \<le> a"
      using a by (auto simp: skew_unit_def a_def [symmetric] minutes_def)
    then have "2 \<le> a div skew_unit d"
      using zdiv_mono1 [of "2 * skew_unit d" a "skew_unit d"] unit(1) by simp
    with round_units(1) [OF unit(1) a(1,2)] show ?thesis
      unfolding skew_count_unit a_def [symmetric] by linarith
  qed
  assume "dur_abs d \<le> max_duration - minutes (24 * 60)"
  then show "2 * \<bar>fst (skew_count d) * skew_unit d - dur_abs d\<bar> \<le> skew_unit d"
    using round_units(2) [OF unit(1) a(1,2)] unit(2) unfolding skew_count_unit a_def by linarith
qed

text \<open>
  The count printed for an offset worth naming is at least two, so its plural is right,
  and it is at most half a unit away from the unwritten offset, unless the offset is within a
  day of the largest duration.
\<close>

theorem skew_count_bounds:
  assumes "clock_skew_threshold \<le> dur_abs d" "- (2 ^ 63) \<le> d" "d \<le> max_duration"
  shows "2 \<le> fst (skew_count d)
    \<and> (dur_abs d \<le> max_duration - minutes (24 * 60) \<longrightarrow>
        2 * \<bar>fst (skew_count d) * skew_unit d - dur_abs d\<bar> \<le> skew_unit d)"
  using skew_count_iff [OF assms] by blast

theorem skew_count_bounds_witness: "2 \<le> fst (skew_count (minutes 90))"
  using skew_count_bounds [of "minutes 90"]
  by (simp add: clock_skew_threshold_def dur_abs_def max_duration_def minutes_def)

end
