(* ===== verification/Interpret_Laws.thy ===== *)
theory Interpret_Laws
  imports Interpret Finalize_Laws
begin

text \<open>
  What a diagnosis may be relied on for: every item of its evidence is a fact of the run, it
  is well formed, it is incomplete only while a row is missing, and its verdict neither hides
  a failure nor accuses a service the run never reached.
\<close>

section \<open>Evidence is recorded\<close>

text \<open>What an observation says of the row that recorded it, with the value that picks a member
  of a structured field.\<close>

fun fact_of :: "row \<Rightarrow> observation_id \<Rightarrow> string \<Rightarrow> bool" where
  "fact_of r ObservationCause v = (row_cause r \<noteq> NoCause \<and> (v = [] \<or> v = family_text (row_cause_family r)))"
| "fact_of r ObservationDNSAnswers v = (row_addrs r \<noteq> [] \<and> (v = [] \<or> v \<in> ip_string ` set (row_addrs r)))"
| "fact_of r ObservationFamilyReachable v =
     (\<exists>f. row_families r = Some f \<and> (v = family_text IPv4 \<and> fc_v4 f = FamilyReachable \<or> v = family_text IPv6 \<and> fc_v6 f = FamilyReachable))"
| "fact_of r ObservationFamilyFailed v =
     (\<exists>f. row_families r = Some f \<and> (v = family_text IPv4 \<and> fc_v4 f = FamilyUnreachable \<or> v = family_text IPv6 \<and> fc_v6 f = FamilyUnreachable))"
| "fact_of r ObservationAddressFailed v = (\<exists>a\<in>set (row_attempts r). v = ip_string (at_ip a) \<and> at_err a \<noteq> None)"
| "fact_of r ObservationAddressSucceeded v = (\<exists>a\<in>set (row_attempts r). v = ip_string (at_ip a) \<and> at_err a = None)"
| "fact_of r ObservationRouteTunneled v = (\<exists>d\<in>set (row_routes r). v = rd_iface d \<and> tunneled d)"
| "fact_of r ObservationRouteDirect v = (\<exists>d\<in>set (row_routes r). v = rd_iface d \<and> \<not> tunneled d)"
| "fact_of r ObservationRouteUnreachable v = (\<exists>d\<in>set (row_routes r). v = ip_string (rd_destination d) \<and> rd_unreachable d)"
| "fact_of r ObservationRoutePathDiffers v = (\<exists>d\<in>set (row_routes r). rd_iface d \<noteq> [] \<and> rd_iface d \<noteq> v)"
| "fact_of r ObservationRouteNextHopDiffers v =
     (\<exists>d\<in>set (row_routes r). \<exists>g. rd_gateway d \<noteq> [] \<and> v = ip_string g \<and> \<not> ip_equal (rd_gateway d) g)"
| "fact_of r ObservationRouteTableDiffers v = (v = [] \<and> (\<exists>d\<in>set (row_routes r). \<exists>t. routing_domain d = Some t \<and> t \<noteq> []))"
| "fact_of r ObservationRouteFamilySplit v =
     (v = [] \<and> (\<exists>d\<in>set (row_routes r). rd_family d = IPv4) \<and> (\<exists>d\<in>set (row_routes r). rd_family d = IPv6))"
| "fact_of r ObservationRouteInterfaceMTU v = (\<exists>d\<in>set (row_routes r). v = rd_iface d \<and> 0 < rd_mtu d)"
| "fact_of r ob v = (v = [] \<and> holds_on r ob)"

definition recorded :: "probe_id list \<Rightarrow> results \<Rightarrow> causal_evidence \<Rightarrow> bool" where
  "recorded order res e \<longleftrightarrow>
     (if ce_kind e = EvidenceNotEvaluated then
        (ce_observation e, ce_reason e) = (Some ObservationStatusSkip, Some NotEvaluatedPrerequisite) \<and> status_is StatusSkip res (ce_check e)
        \<or> (ce_observation e, ce_reason e) = (Some ObservationStatusNA, Some NotEvaluatedNotApplicable) \<and> status_is StatusNA res (ce_check e)
        \<or> (ce_observation e, ce_reason e) = (None, Some NotEvaluatedNotSelected) \<and> \<not> has res (ce_check e) \<and> ce_check e \<notin> set order
        \<or> (ce_observation e, ce_reason e) = (None, Some NotEvaluatedIncomplete) \<and> \<not> has res (ce_check e) \<and> ce_check e \<in> set order
      else (case (res (ce_check e), ce_observation e) of
              (Some r, Some ob) \<Rightarrow> fact_of r ob (ce_value e) \<and> (ce_kind e = EvidenceSupport \<longleftrightarrow> ce_candidate e = None)
            | _ \<Rightarrow> False))"

abbreviation all_recorded :: "probe_id list \<Rightarrow> results \<Rightarrow> causal_evidence list \<Rightarrow> bool" where
  "all_recorded order res \<equiv> list_all (recorded order res)"

definition item_recorded :: "probe_id list \<Rightarrow> results \<Rightarrow> causal_evidence option \<Rightarrow> bool" where
  "item_recorded order res e \<longleftrightarrow> (case e of None \<Rightarrow> True | Some e \<Rightarrow> recorded order res e)"

lemma holds_on_fact: "holds_on r ob \<Longrightarrow> fact_of r ob []"
  by (cases ob) auto

lemma recorded_support [simp]:
  "recorded order res (support i ob v) \<longleftrightarrow> (\<exists>r. res i = Some r \<and> fact_of r ob v)"
  by (simp add: recorded_def support_def split: option.split)

lemma recorded_not_run:
  "recorded order res ((support i ObservationStatusSkip [])\<lparr>ce_kind := EvidenceNotEvaluated, ce_reason := Some NotEvaluatedPrerequisite\<rparr>)
     \<longleftrightarrow> status_is StatusSkip res i"
  "recorded order res ((support i ObservationStatusNA [])\<lparr>ce_kind := EvidenceNotEvaluated, ce_reason := Some NotEvaluatedNotApplicable\<rparr>)
     \<longleftrightarrow> status_is StatusNA res i"
  by (simp_all add: recorded_def support_def)

lemma set_map_filter: "set (List.map_filter f xs) = {y. \<exists>x\<in>set xs. f x = Some y}"
  by (induction xs) (auto simp: map_filter_simps split: option.splits)

lemma observed_recorded [simp]: "item_recorded order res (observed res i)"
proof (cases "res i")
  case (Some r)
  then show ?thesis
    by (simp add: item_recorded_def observed_def recorded_not_run status_is_def split: status.split)
qed (simp add: item_recorded_def observed_def)

lemma relation_recorded [simp]: "item_recorded order res (relation res k c i ob)"
  by (auto simp: item_recorded_def relation_def recorded_def support_def observation_exists_def split: option.splits
      intro: holds_on_fact)

lemma support_observation_recorded [simp]: "item_recorded order res (support_observation res i ob)"
  by (auto simp: item_recorded_def support_observation_def observation_exists_def split: option.splits intro: holds_on_fact)

lemma not_evaluated_recorded [simp]: "item_recorded order res (not_evaluated order res i why)"
  by (cases why) (auto simp: item_recorded_def not_evaluated_def recorded_def observation_exists_def status_is_def has_def Let_def
      split: option.splits)

lemma support_rows_recorded [simp]: "all_recorded order res (support_rows res ids)"
proof -
  have "recorded order res e" if "observed res i = Some e" for i e
    using observed_recorded [of order res i] that by (simp add: item_recorded_def)
  then show ?thesis
    by (auto simp: support_rows_def list_all_iff set_map_filter)
qed

lemma add_evidence_recorded [simp]:
  "all_recorded order res (add_evidence base extra) \<longleftrightarrow>
     all_recorded order res base \<and> list_all (item_recorded order res) extra"
  by (auto simp: add_evidence_def list_all_iff item_recorded_def set_map_filter split: option.splits)

definition well_founded_diagnosis :: "probe_id list \<Rightarrow> results \<Rightarrow> diagnosis \<Rightarrow> bool" where
  "well_founded_diagnosis order res d \<longleftrightarrow> list_all (\<lambda>f. all_recorded order res (fi_evidence f)) (di_findings d)"

lemma plain_recorded [simp]: "well_founded_diagnosis order res (plain say v)"
  by (simp add: well_founded_diagnosis_def plain_def)

lemma list_all_append_new [simp]: "list_all P (foldl append_new xs ys) \<longleftrightarrow> list_all P xs \<and> list_all P ys"
  by (auto simp: list_all_iff)

lemma with_evidence_recorded [simp]:
  "well_founded_diagnosis order res (with_evidence i foc say v es) \<longleftrightarrow> all_recorded order res es"
  by (simp add: well_founded_diagnosis_def with_evidence_def)

lemma blame_recorded [simp]: "well_founded_diagnosis order res (blame res i foc say v rows)"
  by (simp add: blame_def)

lemma fallback_recorded [simp]: "well_founded_diagnosis order res (fallback order res)"
  by (simp add: fallback_def split: option.split)

lemma generic_recorded [simp]: "well_founded_diagnosis order res (interpret_generic order res)"
  by (simp add: interpret_generic_def generic_dns_def generic_quic_def encrypted_dns_diagnosis_def Let_def)

lemma target_cases_recorded [simp]:
  "well_founded_diagnosis order res (target_dns order t res)"
  "well_founded_diagnosis order res (target_tcp order t res)"
  "well_founded_diagnosis order res (target_tls t res)"
  "well_founded_diagnosis order res (target_https t res)"
  "well_founded_diagnosis order res (target_http order t res)"
  "well_founded_diagnosis order res (reference_egress t res)"
  subgoal by (simp add: target_dns_def Let_def)
  subgoal by (simp add: target_tcp_def local_tcp_def routed_tcp_def Let_def)
  subgoal by (simp add: target_tls_def Let_def split: option.split)
  subgoal by (simp add: target_https_def Let_def)
  subgoal by (simp add: target_http_def Let_def)
  subgoal by (simp add: reference_egress_def)
  done

lemma target_recorded [simp]: "well_founded_diagnosis order res (interpret_target order t res)"
  by (simp add: interpret_target_def encrypted_dns_diagnosis_def Let_def)

lemma table_recorded: "well_founded_diagnosis order res (truth_table t order res)"
  by (simp add: truth_table_def link_down_def split: option.split)


section \<open>Compared alternatives\<close>

lemma recorded_support_at: "has res i \<Longrightarrow> recorded order res (support i ob v) \<longleftrightarrow> fact_of (row_at res i) ob v"
  by (auto simp: has_def)

lemma comparable_has: "dns_names_comparable res \<Longrightarrow> has res ProbeDNS \<and> has res ProbeDNSPublic"
  by (simp add: dns_names_comparable_def)

lemma support_fields [simp]:
  "ce_check (support i ob v) = i" "ce_kind (support i ob v) = EvidenceSupport" "ce_observation (support i ob v) = Some ob"
  by (simp_all add: support_def)

text \<open>The kinds of findings the comparisons make.\<close>

definition compares :: "probe_id list \<Rightarrow> results \<Rightarrow> diagnosis_id set \<Rightarrow> diagnosis_finding \<Rightarrow> bool" where
  "compares order res ids f \<longleftrightarrow>
     fi_id f \<in> ids \<and> fi_verdict f \<in> {VerdictDNS, VerdictDegraded} \<and> has res (fi_focus f)
     \<and> fi_evidence f \<noteq> [] \<and> ce_check (hd (fi_evidence f)) = fi_focus f \<and> all_recorded order res (fi_evidence f)"

lemma dns_counterfactual_compares:
  assumes "dns_counterfactual t res = Some f"
  shows "compares order res {DiagnosisDNSNameNotFound, DiagnosisSystemDNSFailure, DiagnosisDNSDisagreement} f"
proof -
  have "dns_names_comparable res"
    using assms by (simp add: dns_counterfactual_def Let_def split: if_splits)
  then have "has res ProbeDNS" "has res ProbeDNSPublic"
    using comparable_has by blast+
  note at = recorded_support_at [OF this(1)] recorded_support_at [OF this(2)]
  show ?thesis
    using assms \<open>has res ProbeDNS\<close>
    by (auto simp: dns_counterfactual_def dns_finding_def alternative_of_def compares_def at Let_def
        simp del: recorded_support split: if_splits)
qed


lemma effective_families:
  assumes "row_families (row_at res ProbeTargetTCP) = Some f"
  shows "fc_v4 (effective_target_families res) \<noteq> FamilyUntested \<Longrightarrow> fc_v4 (effective_target_families res) = fc_v4 f"
    "fc_v6 (effective_target_families res) \<noteq> FamilyUntested \<Longrightarrow> fc_v6 (effective_target_families res) = fc_v6 f"
  using assms by (auto simp: effective_target_families_def Let_def split: if_splits)

lemma has_field: "row_families (row_at res i) \<noteq> None \<Longrightarrow> has res i" "row_selected (row_at res i) \<noteq> [] \<Longrightarrow> has res i"
  by (auto simp: has_def row_at_def zero_row_def split: option.splits)

lemma family_counterfactual_compares:
  assumes "family_counterfactual t res = Some f"
  shows "compares order res {DiagnosisIPv6TargetUnreachable, DiagnosisIPv4TargetUnreachable} f"
proof -
  obtain g where g: "row_families (row_at res ProbeTargetTCP) = Some g"
    using assms by (auto simp: family_counterfactual_def split: if_splits)
  then have there: "has res ProbeTargetTCP" by (intro has_field) simp
  note eff = effective_families [OF g]
  have net: "has res ProbeInternet" if "reaches (row_families (row_at res ProbeInternet)) sel" for sel
    using that by (intro has_field) (auto simp: reaches_def split: option.splits)
  note at = recorded_support_at [OF there] recorded_support_at [OF net]
  show ?thesis
    using assms there g eff
    by (auto simp: family_counterfactual_def family_finding_def compares_def at Let_def reaches_def
        simp del: recorded_support split: if_splits option.splits)
qed

lemma ip_equal_string: "ip_equal x y \<Longrightarrow> ip_string x = ip_string y"
proof -
  have mapped: "ip_string y = ip_string (drop 12 y)" if "length y = 16" "take 12 y = v4_in_v6_prefix" for y
  proof -
    have "to4 y = drop 12 y" "to4 (drop 12 y) = drop 12 y" "y \<noteq> []" "drop 12 y \<noteq> []"
      using that by (auto simp: to4_def)
    then show ?thesis
      using that by (simp add: ip_string_def is4_def)
  qed
  show "ip_equal x y \<Longrightarrow> ip_string x = ip_string y"
    unfolding ip_equal_def using mapped [of x] mapped [of y] by (auto split: if_splits)
qed

lemma contains_resolved_string: "contains_resolved xs x \<Longrightarrow> xs \<noteq> [] \<and> ip_string x \<in> ip_string ` set xs"
proof -
  assume "contains_resolved xs x"
  then obtain y where "y \<in> set xs" "ip_equal y x"
    by (auto simp: contains_resolved_def list_ex_iff)
  with ip_equal_string [of y x] show ?thesis
    by (metis image_eqI list.set_cases list.distinct(1))
qed

text \<open>What the loop over the attempts collects.\<close>

definition collected :: "row \<Rightarrow> ip list \<Rightarrow> ip list \<times> ip list \<Rightarrow> bool" where
  "collected r resolved acc \<longleftrightarrow>
     (\<forall>x\<in>set (fst acc). contains_resolved resolved x \<and> (\<exists>a\<in>set (row_attempts r). at_ip a = x \<and> at_err a \<noteq> None))
     \<and> (\<forall>x\<in>set (snd acc). contains_resolved resolved x \<and> (\<exists>a\<in>set (row_attempts r). at_ip a = x \<and> at_err a = None))"

lemma sibling_success_found:
  "sibling_success r resolved x = Some s \<Longrightarrow> s \<in> set (row_attempts r) \<and> at_err s = None \<and> contains_resolved resolved (at_ip s)"
  unfolding sibling_success_def by (auto simp: find_Some_iff)

lemma collected_step:
  "collected r resolved acc \<Longrightarrow> a \<in> set (row_attempts r) \<Longrightarrow> collected r resolved (address_step r resolved f acc a)"
  unfolding address_step_def collected_def
  by (auto split: prod.split option.split dest: sibling_success_found)

lemma collected_addresses:
  "collected (row_at res ProbeTargetTCP) (row_addrs (row_at res ProbeDNS)) (compared_addresses res)"
proof -
  let ?r = "row_at res ProbeTargetTCP"
  have loop: "collected ?r xs (foldl (address_step ?r xs f) acc as)"
    if "collected ?r xs acc" "set as \<subseteq> set (row_attempts ?r)" for xs f acc as
    using that
  proof (induction as arbitrary: acc)
    case (Cons a as)
    then have "collected ?r xs (address_step ?r xs f acc a)"
      by (intro collected_step) auto
    then show ?case
      using Cons.IH Cons.prems(2) by simp
  qed simp
  show ?thesis
    unfolding compared_addresses_def Let_def by (rule loop) (simp_all add: collected_def)
qed

lemma address_counterfactual_compares:
  assumes "address_counterfactual t res = Some f"
  shows "compares order res {DiagnosisPartialReachability} f"
proof -
  let ?r = "row_at res ProbeTargetTCP" and ?d = "row_at res ProbeDNS"
  obtain bad good where c: "compared_addresses res = (bad, good)" by (cases "compared_addresses res")
  have sel: "row_selected ?r \<noteq> []" and two: "2 \<le> length (row_addrs ?d)" and bad: "bad \<noteq> []"
    using assms unfolding address_counterfactual_def Let_def c prod.case by (simp_all only: de_Morgan_disj not_less simp_thms option.distinct split: if_split_asm)
  have there: "has res ProbeTargetTCP" "has res ProbeDNS"
    using has_field(2) [OF sel] two by (auto simp: has_def row_at_def zero_row_def split: option.splits)
  note at = recorded_support_at [OF there(1)] recorded_support_at [OF there(2)]
  have facts: "all_recorded order res (address_evidence x ObservationAddressFailed)" if "x \<in> set bad" for x
  proof -
    obtain a where a: "a \<in> set (row_attempts ?r)" "at_ip a = x" "at_err a \<noteq> None" and "contains_resolved (row_addrs ?d) x"
      using \<open>x \<in> set bad\<close> collected_addresses [of res] unfolding c collected_def by auto
    then have "fact_of ?d ObservationDNSAnswers (ip_string x)" "fact_of ?r ObservationAddressFailed (ip_string x)"
      using contains_resolved_string [of "row_addrs ?d" x] by (simp_all, blast+)
    then show ?thesis
      by (simp add: address_evidence_def at del: recorded_support fact_of.simps)
  qed
  have facts': "all_recorded order res (address_evidence x ObservationAddressSucceeded)" if "x \<in> set good" for x
  proof -
    obtain a where a: "a \<in> set (row_attempts ?r)" "at_ip a = x" "at_err a = None" and "contains_resolved (row_addrs ?d) x"
      using \<open>x \<in> set good\<close> collected_addresses [of res] unfolding c collected_def by auto
    then have "fact_of ?d ObservationDNSAnswers (ip_string x)" "fact_of ?r ObservationAddressSucceeded (ip_string x)"
      using contains_resolved_string [of "row_addrs ?d" x] by (simp_all, blast+)
    then show ?thesis
      by (simp add: address_evidence_def at del: recorded_support fact_of.simps)
  qed
  obtain x bad' where "bad = x # bad'" using bad by (cases bad) auto
  with assms c there(1) have f: "fi_id f = DiagnosisPartialReachability" "fi_verdict f = VerdictDegraded" "has res (fi_focus f)"
    "fi_evidence f \<noteq> []" "ce_check (hd (fi_evidence f)) = fi_focus f"
    "set (fi_evidence f) = (\<Union>x\<in>set bad. set (address_evidence x ObservationAddressFailed))
       \<union> (\<Union>x\<in>set good. set (address_evidence x ObservationAddressSucceeded))"
    by (auto simp: address_counterfactual_def Let_def address_alternative_def address_evidence_def split: if_splits)
  then show ?thesis
    using facts facts' unfolding compares_def list_all_iff by auto
qed

section \<open>Routes\<close>

lemma add_route_recorded:
  assumes "all_recorded order res items" "has res i \<Longrightarrow> fact_of (row_at res i) ob v"
  shows "all_recorded order res (add_route order res i ob v items)"
  using assms by (auto simp: add_route_def append_new_def recorded_support_at simp del: recorded_support)

lemma path_differs_iff: "path_agreement_of b = PathDiffers \<longleftrightarrow> \<not> b" "path_agreement_of b = PathSame \<longleftrightarrow> b"
  by (simp_all add: path_agreement_of_def)

lemma route_policy_recorded:
  assumes "all_recorded order res items" "path \<in> set (row_routes (row_at res i))"
  shows "all_recorded order res (route_policy_evidence order res i path ref items)"
proof -
  let ?r = "row_at res i"
  have hop: "fact_of ?r ObservationRouteNextHopDiffers (ip_string (rd_gateway ref))"
    if "rd_gateway path \<noteq> []" "\<not> ip_equal (rd_gateway path) (rd_gateway ref)"
    using assms(2) that by (simp, blast)
  have table: "fact_of ?r ObservationRouteTableDiffers []" if "routing_domain path = Some x" "x \<noteq> []" for x
    using assms(2) that by (simp, blast)
  show ?thesis
    using assms hop table unfolding route_policy_evidence_def Let_def
    by (auto simp: compare_paths_def path_differs_iff simp del: fact_of.simps intro!: add_route_recorded split: if_splits option.splits)
qed

lemma selected_route_in: "selected_target_route res = Some d \<Longrightarrow> d \<in> set (row_routes (row_at res ProbeTargetTCP))"
  by (auto simp: selected_target_route_def Let_def route_for_def find_Some_iff split: if_splits)

lemma route_by_family_in:
  "rd_iface (route_by_family rs fam) \<noteq> [] \<Longrightarrow> route_by_family rs fam \<in> set rs \<and> rd_family (route_by_family rs fam) = fam"
proof -
  assume some: "rd_iface (route_by_family rs fam) \<noteq> []"
  show ?thesis
  proof (cases "route_by_family rs fam = no_decision")
    case True
    with some show ?thesis by (simp add: no_decision_def)
  next
    case False
    show ?thesis
    proof (cases "find (\<lambda>d. rd_family d = fam) rs")
      case None
      with False show ?thesis by (simp add: route_by_family_def)
    next
      case (Some d)
      then show ?thesis unfolding route_by_family_def Some option.case
        using Some by (auto simp: find_Some_iff)
    qed
  qed
qed

lemma split_tunnel_facts:
  "split_tunnel_state t r = SplitTargetTunneled \<Longrightarrow> rd_iface r \<noteq> [] \<and> tunneled t \<and> \<not> tunneled r"
  "split_tunnel_state t r = SplitTargetBypassesTunnel \<Longrightarrow> rd_iface r \<noteq> [] \<and> \<not> tunneled t \<and> tunneled r"
  by (auto simp: split_tunnel_state_def split: if_splits)

lemma family_split_facts:
  "family_paths_differ rs = Some True \<Longrightarrow> (\<exists>d\<in>set rs. rd_family d = IPv4) \<and> (\<exists>d\<in>set rs. rd_family d = IPv6)"
  using route_by_family_in [of rs IPv4] route_by_family_in [of rs IPv6]
  by (auto simp: family_paths_differ_def family_differs_def compare_paths_def split: if_splits)

lemma target_routes_recorded: "all_recorded order res (target_route_evidence k order res)"
proof (cases "selected_target_route res")
  case (Some tgt)
  define ref where "ref = route_by_family (row_routes (row_at res ProbeIface)) (rd_family tgt)"
  have t: "tgt \<in> set (row_routes (row_at res ProbeTargetTCP))"
    by (rule selected_route_in [OF Some])
  have r: "ref \<in> set (row_routes (row_at res ProbeIface))" if "rd_iface ref \<noteq> []"
    using route_by_family_in that unfolding ref_def by blast
  have gone: "rd_unreachable tgt \<Longrightarrow> fact_of (row_at res ProbeTargetTCP) ObservationRouteUnreachable (ip_string (rd_destination tgt))"
    using t by (simp, blast)
  have split: "split_tunnel_state tgt ref = SplitTargetTunneled \<Longrightarrow>
      fact_of (row_at res ProbeIface) ObservationRouteDirect (rd_iface ref)
      \<and> fact_of (row_at res ProbeTargetTCP) ObservationRouteTunneled (rd_iface tgt)"
    "split_tunnel_state tgt ref = SplitTargetBypassesTunnel \<Longrightarrow>
      fact_of (row_at res ProbeIface) ObservationRouteTunneled (rd_iface ref)
      \<and> fact_of (row_at res ProbeTargetTCP) ObservationRouteDirect (rd_iface tgt)"
    using split_tunnel_facts [of tgt ref] r t by (simp, blast)+
  have families: "family_paths_differ (row_routes (row_at res ProbeTargetTCP)) = Some True \<Longrightarrow>
      fact_of (row_at res ProbeTargetTCP) ObservationRouteFamilySplit []"
    using family_split_facts by simp
  have mtu: "narrower_path_mtu tgt ref \<noteq> None \<Longrightarrow>
      fact_of (row_at res ProbeTargetTCP) ObservationRouteInterfaceMTU (rd_iface tgt)"
    using t by (auto simp: narrower_path_mtu_def split: if_splits)
  note step = add_route_recorded if_split [where P = "list_all (recorded order res)", THEN iffD2]
  show ?thesis
    unfolding target_route_evidence_def Some option.case Let_def ref_def [symmetric]
    by (cases "split_tunnel_state tgt ref"; simp only: split_tunnel.case;
        intro route_policy_recorded t add_route_recorded step conjI impI; simp add: gone split families mtu del: fact_of.simps)
qed (simp add: target_route_evidence_def)

lemma foldl_recorded:
  "(\<And>out r. all_recorded order res out \<Longrightarrow> r \<in> set rs \<Longrightarrow> all_recorded order res (g out r)) \<Longrightarrow>
     all_recorded order res out \<Longrightarrow> all_recorded order res (foldl g out rs)"
  by (induction rs arbitrary: out) auto

lemma reference_routes_recorded: "all_recorded order res (reference_route_evidence order res)"
  unfolding reference_route_evidence_def by (rule foldl_recorded) (auto intro!: add_route_recorded)

lemma resolver_routes_recorded: "all_recorded order res (resolver_route_evidence order res)"
  unfolding resolver_route_evidence_def
  by (rule foldl_recorded)
    (auto intro!: add_route_recorded route_policy_recorded simp: compare_paths_def path_differs_iff split: option.split if_splits)

lemma routes_recorded: "all_recorded order res (route_evidence k order res)"
  unfolding route_evidence_def using target_routes_recorded reference_routes_recorded resolver_routes_recorded by simp

section \<open>The whole interpretation\<close>

lemma attach_recorded [simp]:
  "all_recorded order res (fi_evidence (attach_route_evidence order res f)) \<longleftrightarrow> all_recorded order res (fi_evidence f)"
  by (simp add: attach_route_evidence_def routes_recorded)

lemma with_confidence_fields [simp]:
  "fi_id (with_confidence f) = fi_id f" "fi_verdict (with_confidence f) = fi_verdict f"
  "fi_summary (with_confidence f) = fi_summary f" "fi_focus (with_confidence f) = fi_focus f"
  "fi_evidence (with_confidence f) = fi_evidence f" "fi_confidence (with_confidence f) \<noteq> None"
  by (simp_all add: with_confidence_def)

lemma attach_fields [simp]:
  "fi_id (attach_route_evidence order res f) = fi_id f" "fi_verdict (attach_route_evidence order res f) = fi_verdict f"
  "fi_summary (attach_route_evidence order res f) = fi_summary f" "fi_focus (attach_route_evidence order res f) = fi_focus f"
  by (simp_all add: attach_route_evidence_def)

text \<open>A property of findings that merging keeps and comparisons have is one of all of them.\<close>

lemma merge_first_all:
  assumes "merge_first fs new = Some gs" "list_all P fs" "\<And>f. P f \<Longrightarrow> fi_id f = fi_id new \<Longrightarrow> P (merge_finding f new)"
  shows "list_all P gs"
  using assms by (induction fs arbitrary: gs) (auto split: if_splits)

lemma add_counterfactual_all:
  assumes "list_all P (di_findings d)" "P new" "\<And>f. P f \<Longrightarrow> fi_id f = fi_id new \<Longrightarrow> P (merge_finding f new)"
  shows "list_all P (di_findings (add_counterfactual d new))"
  using assms merge_first_all [of "di_findings d" new _ P]
  by (auto simp: add_counterfactual_def Let_def split: option.split)

lemma with_counterfactuals_all:
  assumes "list_all P (di_findings d)" "list_all P (counterfactual_findings t res)"
    "\<And>f new. P f \<Longrightarrow> P new \<Longrightarrow> fi_id f = fi_id new \<Longrightarrow> P (merge_finding f new)"
  shows "list_all P (di_findings (with_counterfactuals t res d))"
proof -
  have "list_all P (di_findings (foldl add_counterfactual d fs))" if "list_all P (di_findings d)" "list_all P fs" for d fs
    using that
  proof (induction fs arbitrary: d)
    case (Cons f fs)
    then have "list_all P (di_findings (add_counterfactual d f))"
      by (intro add_counterfactual_all) (auto intro: assms(3))
    then show ?case using Cons.IH Cons.prems(2) by simp
  qed simp
  then show ?thesis
    using assms(1,2) by (simp add: with_counterfactuals_def)
qed

lemma counterfactuals_compare: "list_all (compares order res UNIV) (counterfactual_findings t res)"
proof -
  have wider: "compares order res UNIV f" if "compares order res ids f" for ids f
    using that by (simp add: compares_def)
  then show ?thesis
    by (auto simp: counterfactual_findings_def list_all_iff set_map_filter dest!: sym [of "Some _"]
        intro: wider [OF dns_counterfactual_compares] wider [OF family_counterfactual_compares]
          wider [OF address_counterfactual_compares] split: option.splits)
qed

text \<open>C3. Nothing is said that the run did not record: every item of evidence of every finding
  names a row of the results and a fact that row holds, and an item about a check that did not
  run names one that was skipped, did not apply, was not selected or has not finished.\<close>

theorem evidence_recorded:
  "list_all (\<lambda>f. list_all (recorded order res) (fi_evidence f)) (di_findings (interpret_run t order res))"
proof -
  let ?P = "\<lambda>f. all_recorded order res (fi_evidence f)"
  have "list_all ?P (di_findings (with_counterfactuals t res (truth_table t order res)))"
    using table_recorded [of order res t] counterfactuals_compare [of order res t]
    by (intro with_counterfactuals_all)
      (auto simp: well_founded_diagnosis_def compares_def merge_finding_def list_all_iff)
  then show ?thesis
    by (simp add: interpret_run_def Let_def list.pred_map comp_def)
qed

section \<open>Well-formedness\<close>

definition grounded_finding :: "results \<Rightarrow> diagnosis_finding \<Rightarrow> bool" where
  "grounded_finding res f \<longleftrightarrow>
     has res (fi_focus f) \<and> (case fi_evidence f of [] \<Rightarrow> False | e # _ \<Rightarrow> ce_check e = fi_focus f)"

text \<open>The table gives no finding, or one that repeats its conclusion.\<close>

definition single :: "results \<Rightarrow> diagnosis \<Rightarrow> bool" where
  "single res d \<longleftrightarrow>
     di_findings d = []
     \<or> (\<exists>f. di_findings d = [f] \<and> grounded_finding res f \<and> fi_verdict f = di_verdict d \<and> fi_summary f = di_summary d)"

lemma plain_single [simp]: "single res (plain say v)"
  by (simp add: single_def plain_def)

lemma foldl_append_new_grows: "\<exists>zs. foldl append_new xs ys = xs @ zs"
proof (induction ys arbitrary: xs)
  case (Cons y ys)
  obtain zs where "foldl append_new (append_new xs y) ys = append_new xs y @ zs" using Cons by blast
  moreover have "\<exists>ws. append_new xs y = xs @ ws" by (simp add: append_new_def)
  ultimately show ?case by auto
qed simp

lemma foldl_append_new_Cons: "\<exists>zs. foldl append_new [] (y # ys) = y # zs"
  using foldl_append_new_grows [of "[y]" ys] by (simp add: append_new_def)

lemma observed_at: "has res i \<Longrightarrow> \<exists>e. observed res i = Some e \<and> ce_check e = i"
  by (auto simp: observed_def has_def support_def split: status.split)

lemma support_rows_Cons: "has res i \<Longrightarrow> \<exists>e es. support_rows res (i # is) = e # es \<and> ce_check e = i"
  using observed_at [of res i] by (auto simp: support_rows_def map_filter_simps)

lemma with_evidence_leads:
  assumes "has res i" "es = e # es'" "ce_check e = i"
  shows "single res (with_evidence k i say v es)"
proof -
  obtain zs where "foldl append_new [] es = e # zs"
    using foldl_append_new_Cons assms(2) by metis
  then show ?thesis
    using assms by (simp add: single_def with_evidence_def grounded_finding_def)
qed

lemma with_evidence_single:
  assumes "has res i"
  shows "single res (with_evidence k i say v (support_rows res (i # is)))"
    "single res (with_evidence k i say v (add_evidence (support_rows res (i # is)) extra))"
  using support_rows_Cons [OF assms, of "is"] with_evidence_leads [OF assms] by (auto simp: add_evidence_def)

lemma blame_single: "has res i \<Longrightarrow> single res (blame res k i say v is)"
  unfolding blame_def by (rule with_evidence_single)

lemma at_has: "status_is s res i \<Longrightarrow> has res i"
  by (auto simp: status_is_def has_def split: option.splits)

lemma works_has: "works res i \<Longrightarrow> has res i"
  by (auto simp: works_def has_def status_is_def split: option.splits)

lemma portal_has: "intercepted res \<Longrightarrow> has res ProbeInternet"
  by (auto simp: intercepted_def has_def row_at_def zero_row_def split: option.splits)

lemmas singles = plain_single with_evidence_single blame_single

lemma fallback_single: "single res (fallback order res)"
proof (cases "find (failed res) order")
  case None
  then show ?thesis by (simp add: fallback_def)
next
  case (Some i)
  then have "has res i" by (auto simp: find_Some_iff intro: at_has)
  then show ?thesis unfolding fallback_def Some option.case by (auto intro!: singles)
qed

lemma if_single: "(c \<Longrightarrow> single res a) \<Longrightarrow> single res b \<Longrightarrow> single res (if c then a else b)"
  by simp

lemma generic_single: "single res (interpret_generic order res)"
proof -
  have disagreeing: "has res ProbeDNSPublic" if "quic_used_disagreeing_answer res"
    using that comparable_has [of res] by (auto simp: quic_used_disagreeing_answer_def Let_def split: if_splits)
  have encrypted: "has res ProbeDNSEncrypted" if "encrypted_dns_blocked res"
    using that by (auto simp: encrypted_dns_blocked_def intro: at_has)
  have dns: "single res (generic_dns order res)" if "failed res ProbeDNS"
    using at_has [OF that] by (auto simp: generic_dns_def Let_def intro!: singles)
  have quic: "single res (generic_quic order res)" if "failed res ProbeQUIC"
    using at_has [OF that] disagreeing by (auto simp: generic_quic_def intro!: singles)
  show ?thesis
    unfolding interpret_generic_def Let_def encrypted_dns_diagnosis_def
    by (intro if_single singles dns quic encrypted fallback_single; blast intro: at_has portal_has works_has)
qed

lemma row_failed_has: "row_status (row_at res i) = StatusFail \<Longrightarrow> has res i"
  by (auto simp: has_def row_at_def zero_row_def split: option.splits)

lemma target_cases_single:
  "failed res ProbeDNS \<Longrightarrow> single res (target_dns order t res)"
  "failed res ProbeTargetTCP \<Longrightarrow> single res (target_tcp order t res)"
  "snd (tls_failure_row res) \<Longrightarrow> single res (target_tls t res)"
  "failed res ProbeHTTPS \<Longrightarrow> single res (target_https t res)"
  "failed res ProbeHTTP \<Longrightarrow> single res (target_http order t res)"
  "has res ProbeInternet \<Longrightarrow> single res (reference_egress t res)"
  subgoal by (auto simp: target_dns_def Let_def intro!: singles dest: at_has works_has)
  subgoal by (auto simp: target_tcp_def local_tcp_def routed_tcp_def Let_def intro!: singles dest: at_has works_has)
  subgoal
    by (auto simp: target_tls_def Let_def tls_failure_row_def intro!: singles dest: at_has row_failed_has split: option.split if_splits)
  subgoal by (auto simp: target_https_def Let_def intro!: singles dest: at_has works_has)
  subgoal by (auto simp: target_http_def Let_def intro!: singles dest: at_has works_has)
  subgoal by (auto simp: reference_egress_def intro!: singles)
  done

lemma target_single: "single res (interpret_target order t res)"
proof -
  have encrypted: "has res ProbeDNSEncrypted" if "encrypted_dns_blocked res"
    using that by (auto simp: encrypted_dns_blocked_def intro: at_has)
  have banner: "has res (banner_row res s)" if "status_is s res ProbeSSH \<or> status_is s res ProbeSMTP" for s
    using that by (auto simp: banner_row_def intro: at_has)
  show ?thesis
    unfolding interpret_target_def Let_def encrypted_dns_diagnosis_def
    by (intro if_single singles target_cases_single encrypted banner fallback_single; blast intro: at_has portal_has works_has)
qed

lemma table_single: "single res (truth_table t order res)"
  by (auto simp: truth_table_def link_down_def intro!: singles generic_single target_single dest: at_has works_has split: option.split)

text \<open>What every stage keeps: distinct identities, grounded findings, and the first finding in the
  headline.\<close>

definition headed :: "results \<Rightarrow> diagnosis \<Rightarrow> bool" where
  "headed res d \<longleftrightarrow>
     distinct (map fi_id (di_findings d)) \<and> list_all (grounded_finding res) (di_findings d)
     \<and> (case di_findings d of [] \<Rightarrow> True | f # _ \<Rightarrow> fi_verdict f = di_verdict d \<and> fi_summary f = di_summary d)"

lemma single_headed: "single res d \<Longrightarrow> headed res d"
  by (auto simp: single_def headed_def)

lemma merge_grounded: "grounded_finding res f \<Longrightarrow> grounded_finding res (merge_finding f new)"
  using foldl_append_new_grows [of "fi_evidence f" "fi_evidence new"]
  by (auto simp: grounded_finding_def merge_finding_def split: list.splits)

lemma merge_fields [simp]:
  "fi_id (merge_finding f new) = fi_id f" "fi_verdict (merge_finding f new) = fi_verdict f"
  "fi_summary (merge_finding f new) = fi_summary f" "fi_focus (merge_finding f new) = fi_focus f"
  by (simp_all add: merge_finding_def)

lemma merge_first_fields:
  "merge_first fs new = Some gs \<Longrightarrow>
     map fi_id gs = map fi_id fs \<and> map fi_verdict gs = map fi_verdict fs \<and> map fi_summary gs = map fi_summary fs"
  by (induction fs arbitrary: gs) (auto split: if_splits)

lemma merge_first_None: "merge_first fs new = None \<longleftrightarrow> fi_id new \<notin> fi_id ` set fs"
  by (induction fs) auto

lemma add_counterfactual_headed:
  assumes "headed res d" "grounded_finding res new"
  shows "headed res (add_counterfactual d new)"
proof (cases "merge_first (di_findings d) new")
  case None
  then show ?thesis
    using assms None [unfolded merge_first_None]
    by (cases "di_findings d") (auto simp: headed_def add_counterfactual_def Let_def image_iff simp del: merge_first.simps)
next
  case (Some gs)
  note fields = merge_first_fields [OF Some]
  have "list_all (grounded_finding res) gs"
    using merge_first_all [OF Some, of "grounded_finding res"] assms(1) merge_grounded by (simp add: headed_def)
  moreover have "case gs of [] \<Rightarrow> True | f # _ \<Rightarrow> fi_verdict f = di_verdict d \<and> fi_summary f = di_summary d"
    using fields assms(1) by (cases gs; cases "di_findings d") (auto simp: headed_def)
  ultimately show ?thesis
    using assms(1) Some fields by (simp add: headed_def add_counterfactual_def split: list.splits)
qed

lemma counterfactuals_headed:
  assumes "headed res d"
  shows "headed res (with_counterfactuals t res d)"
proof -
  have "headed res (foldl add_counterfactual d fs)" if "headed res d" "list_all (grounded_finding res) fs" for d fs
    using that
  proof (induction fs arbitrary: d)
    case (Cons f fs)
    then have "headed res (add_counterfactual d f)" by (intro add_counterfactual_headed) auto
    then show ?case using Cons.IH Cons.prems(2) by simp
  qed simp
  moreover have "list_all (grounded_finding res) (counterfactual_findings t res)"
    using counterfactuals_compare [of "[]" res t]
    by (auto simp: list_all_iff compares_def grounded_finding_def split: list.split)
  ultimately show ?thesis
    using assms by (simp add: with_counterfactuals_def)
qed

lemma attach_grounded: "grounded_finding res f \<Longrightarrow> grounded_finding res (attach_route_evidence order res f)"
  using foldl_append_new_grows [of "fi_evidence f" "route_evidence (fi_id f) order res"]
  by (auto simp: grounded_finding_def attach_route_evidence_def split: list.splits)

lemma with_confidence_grounded: "grounded_finding res (with_confidence f) = grounded_finding res f"
  unfolding grounded_finding_def with_confidence_fields ..

text \<open>C5. Every interpretation is well formed: identities are not repeated, each finding is about
  a row of the results and its evidence begins with that row, confidence is always assigned, the
  headline is the first finding's sentence and verdict, and the blamed row is the first finding's
  row or, without findings, the first failed row of the report.\<close>

theorem interpretation_well_formed:
  "(let d = interpret_run t order res
    in distinct (map fi_id (di_findings d))
       \<and> list_all (\<lambda>f. has res (fi_focus f) \<and> (case fi_evidence f of [] \<Rightarrow> False | e # _ \<Rightarrow> ce_check e = fi_focus f)
            \<and> fi_confidence f = Some (confidence_for f)) (di_findings d)
       \<and> (case di_findings d of
             [] \<Rightarrow> di_blamed d = find (failed res) order
           | f # _ \<Rightarrow> di_verdict d = fi_verdict f \<and> di_summary d = fi_summary f \<and> di_blamed d = Some (fi_focus f)))"
proof -
  define d where "d = with_counterfactuals t res (truth_table t order res)"
  have d: "headed res d"
    unfolding d_def by (intro counterfactuals_headed single_headed table_single)
  have same: "confidence_for (with_confidence f) = confidence_for f" for f
    unfolding confidence_for_def with_confidence_fields ..
  have fs: "list_all (\<lambda>f. grounded_finding res (attach_route_evidence order res f)) (di_findings d)"
    using d attach_grounded by (auto simp: headed_def list_all_iff)
  have conf: "fi_confidence (with_confidence f) = Some (confidence_for f)" for f
    by (simp add: with_confidence_def)
  from d fs show ?thesis
    unfolding interpret_run_def Let_def d_def [symmetric] headed_def
    by (cases "di_findings d")
      (auto simp: focus_def grounded_finding_def list.pred_map comp_def same conf list_all_iff split: list.splits)
qed

end
