(* ===== verification/Verdict_Laws.thy ===== *)
theory Verdict_Laws
  imports Interpret_Laws
begin

text \<open>
  What a verdict may be relied on for: it does not depend on route evidence, it is incomplete
  only while a row is missing, it accuses a service only where the path to it was shown, it
  says that all is well only when nothing is hidden by it, and a certificate's dates are
  certain only beside a measured clock.
\<close>

section \<open>Without routes\<close>

definition no_routes :: "row \<Rightarrow> row" where
  "no_routes r = r\<lparr>row_routes := []\<rparr>"

definition unrouted :: "results \<Rightarrow> results" where
  "unrouted res = (\<lambda>i. map_option no_routes (res i))"

lemma no_routes_fields [simp]:
  "row_status (no_routes r) = row_status r" "row_cause (no_routes r) = row_cause r"
  "row_cause_family (no_routes r) = row_cause_family r" "row_families (no_routes r) = row_families r"
  "row_downgraded (no_routes r) = row_downgraded r" "row_comparison (no_routes r) = row_comparison r"
  "row_portal (no_routes r) = row_portal r" "row_addrs (no_routes r) = row_addrs r"
  "row_scope (no_routes r) = row_scope r" "row_not_found (no_routes r) = row_not_found r"
  "row_selected (no_routes r) = row_selected r" "row_attempts (no_routes r) = row_attempts r"
  "row_timed_out (no_routes r) = row_timed_out r" "row_clock_offset (no_routes r) = row_clock_offset r"
  by (simp_all add: no_routes_def)

lemma unrouted_at [simp]: "unrouted res i = map_option no_routes (res i)"
  by (simp add: unrouted_def)

lemma row_at_unrouted [simp]: "row_at (unrouted res) i = no_routes (row_at res i)"
  by (simp add: row_at_def no_routes_def zero_row_def split: option.split)

lemma asks_unrouted [simp]:
  "has (unrouted res) i = has res i"
  "status_is s (unrouted res) i = status_is s res i"
  by (simp_all add: has_def status_is_def split: option.split)

lemma works_unrouted [simp]: "works (unrouted res) i = works res i"
  by (simp add: works_def)

lemma system_derived_unrouted [simp]: "system_derived origin (no_routes r) = system_derived origin r"
  by (rule ext) (simp add: system_derived_def)

lemma refused_unrouted: "family_attempts_all_refused (no_routes r) = family_attempts_all_refused r"
  by (rule ext) (simp add: family_attempts_all_refused_def)

lemma predicates_unrouted [simp]:
  "dns_names_comparable (unrouted res) = dns_names_comparable res"
  "intercepted (unrouted res) = intercepted res"
  "direct_egress_ok (unrouted res) = direct_egress_ok res"
  "public_target_reached (unrouted res) = public_target_reached res"
  "proxy_carries (unrouted res) = proxy_carries res"
  "encrypted_dns_blocked (unrouted res) = encrypted_dns_blocked res"
  "local_target t (unrouted res) = local_target t res"
  "clock_skew (unrouted res) = clock_skew res"
  "tls_failure_row (unrouted res) = tls_failure_row res"
  "quic_used_disagreeing_answer (unrouted res) = quic_used_disagreeing_answer res"
  "uncorroborated_endpoint_failure (unrouted res) j origin = uncorroborated_endpoint_failure res j origin"
  "effective_target_families (unrouted res) = effective_target_families res"
  subgoal by (simp add: dns_names_comparable_def)
  subgoal by (simp add: intercepted_row_at)
  subgoal by (simp add: direct_egress_row_at)
  subgoal by (simp add: public_target_reached_row_at)
  subgoal by (simp add: proxy_carries_def)
  subgoal by (simp add: encrypted_dns_blocked_def direct_egress_row_at)
  subgoal by (simp add: local_target_def)
  subgoal by (simp add: clock_skew_def)
  subgoal by (simp add: tls_failure_row_def)
  subgoal by (simp add: quic_used_disagreeing_answer_def dns_names_comparable_def Let_def)
  subgoal by (simp add: uncorroborated_endpoint_failure_def dns_names_comparable_def Let_def)
  subgoal by (simp add: effective_target_families_def refused_unrouted Let_def cong: option.case_cong)
  done

lemma evidence_unrouted [simp]:
  "observed (unrouted res) = observed res"
  "observation_exists (unrouted res) = observation_exists res"
proof -
  have "holds_on (no_routes r) ob = holds_on r ob" for r ob by (cases ob) simp_all
  then show "observation_exists (unrouted res) = observation_exists res"
    by (intro ext) (simp add: observation_exists_def split: option.split)
  show "observed (unrouted res) = observed res"
    by (intro ext) (simp add: observed_def split: option.split)
qed

lemma items_unrouted [simp]:
  "support_rows (unrouted res) = support_rows res"
  "support_observation (unrouted res) = support_observation res"
  "relation (unrouted res) = relation res"
  "not_evaluated order (unrouted res) = not_evaluated order res"
  "blame (unrouted res) = blame res"
proof -
  show "support_rows (unrouted res) = support_rows res"
    by (rule ext) (simp add: support_rows_def)
  then show "blame (unrouted res) = blame res"
    by (intro ext) (simp add: blame_def)
  show "support_observation (unrouted res) = support_observation res" "relation (unrouted res) = relation res"
    by (intro ext; simp add: support_observation_def relation_def)+
  show "not_evaluated order (unrouted res) = not_evaluated order res"
    unfolding not_evaluated_def evidence_unrouted asks_unrouted ..
qed

lemma status_unrouted [simp]: "status_is s (unrouted res) = status_is s res"
  by (rule ext) simp

lemma table_parts_unrouted [simp]:
  "degraded_in order (unrouted res) = degraded_in order res"
  "fallback order (unrouted res) = fallback order res"
  "public_resolves (unrouted res) = public_resolves res"
  "both_not_found (unrouted res) = both_not_found res"
  "egress_observation (unrouted res) = egress_observation res"
  "encrypted_dns_diagnosis (unrouted res) = encrypted_dns_diagnosis res"
  subgoal by (simp add: degraded_in_def)
  subgoal unfolding fallback_def degraded_in_def status_unrouted items_unrouted ..
  subgoal by (simp add: public_resolves_def)
  subgoal by (simp add: both_not_found_def)
  subgoal by (simp add: egress_observation_def)
  subgoal by (simp add: encrypted_dns_diagnosis_def)
  done

lemma generic_verdict_unrouted [simp]: "generic_verdict order (unrouted res) = generic_verdict order res"
  by (simp add: generic_verdict_def healthy_verdict_def)

lemma generic_unrouted [simp]: "interpret_generic order (unrouted res) = interpret_generic order res"
  unfolding interpret_generic_def generic_dns_def generic_quic_def Let_def by simp

lemma target_facts_unrouted [simp]:
  "target_ok t (unrouted res) = target_ok t res"
  "stalled_rows (unrouted res) = stalled_rows res"
  "cert_rejected (unrouted res) = cert_rejected res"
  "target_cause (unrouted res) = target_cause res"
  "internet_cause (unrouted res) = internet_cause res"
  "banner_row (unrouted res) s = banner_row res s"
  subgoal by (simp add: target_ok_def list_all_iff)
  subgoal by (simp add: stalled_rows_def)
  subgoal by (simp add: cert_rejected_def)
  subgoal by (simp add: target_cause_def)
  subgoal by (simp add: internet_cause_def)
  subgoal by (simp add: banner_row_def)
  done

lemmas unrouted_rules = row_at_unrouted no_routes_fields asks_unrouted works_unrouted predicates_unrouted
  items_unrouted status_unrouted table_parts_unrouted target_facts_unrouted

lemma target_cases_unrouted [simp]:
  "target_dns order t (unrouted res) = target_dns order t res"
  "target_tcp order t (unrouted res) = target_tcp order t res"
  "target_tls t (unrouted res) = target_tls t res"
  "target_https t (unrouted res) = target_https t res"
  "target_http order t (unrouted res) = target_http order t res"
  "reference_egress t (unrouted res) = reference_egress t res"
  subgoal unfolding target_dns_def Let_def unrouted_rules ..
  subgoal unfolding target_tcp_def local_tcp_def routed_tcp_def Let_def unrouted_rules ..
  subgoal unfolding target_tls_def Let_def unrouted_rules ..
  subgoal unfolding target_https_def Let_def unrouted_rules ..
  subgoal unfolding target_http_def Let_def unrouted_rules ..
  subgoal unfolding reference_egress_def unrouted_rules ..
  done

lemma target_unrouted [simp]: "interpret_target order t (unrouted res) = interpret_target order t res"
  unfolding interpret_target_def Let_def target_cases_unrouted unrouted_rules ..

lemma table_unrouted [simp]: "truth_table t order (unrouted res) = truth_table t order res"
  unfolding truth_table_def link_down_def by (simp split: option.split)

lemma counterfactuals_unrouted [simp]: "counterfactual_findings t (unrouted res) = counterfactual_findings t res"
proof -
  have "dns_counterfactual u (unrouted res) = dns_counterfactual u res" for u
    unfolding dns_counterfactual_def dns_answers_disagree_def Let_def unrouted_rules ..
  moreover have "family_counterfactual u (unrouted res) = family_counterfactual u res" for u
    by (simp add: family_counterfactual_def family_finding_def Let_def)
  moreover have sibling: "sibling_success (no_routes r) = sibling_success r" for r
    by (intro ext) (simp add: sibling_success_def)
  have "address_step (no_routes r) = address_step r" for r
    by (intro ext) (unfold address_step_def sibling no_routes_fields, rule refl)
  then have "address_counterfactual u (unrouted res) = address_counterfactual u res" for u
    by (simp add: address_counterfactual_def compared_addresses_def Let_def)
  ultimately show ?thesis
    by (simp add: counterfactual_findings_def split: option.split)
qed

lemma with_counterfactuals_unrouted [simp]: "with_counterfactuals t (unrouted res) d = with_counterfactuals t res d"
  by (simp add: with_counterfactuals_def compares_alternatives_def)

text \<open>A finding without its evidence.\<close>

definition bare_finding :: "diagnosis_finding \<Rightarrow> diagnosis_finding" where
  "bare_finding f = f\<lparr>fi_evidence := []\<rparr>"

lemma add_route_supports:
  "list_all (\<lambda>e. ce_kind e = EvidenceSupport) items \<Longrightarrow>
     list_all (\<lambda>e. ce_kind e = EvidenceSupport) (add_route order res i ob v items)"
  by (simp add: add_route_def append_new_def)

lemma foldl_keeps: "(\<And>out r. P out \<Longrightarrow> P (g out r)) \<Longrightarrow> P out \<Longrightarrow> P (foldl g out rs)"
  by (induction rs arbitrary: out) auto

lemma route_evidence_supports: "list_all (\<lambda>e. ce_kind e = EvidenceSupport) (route_evidence k order res)"
proof -
  let ?S = "list_all (\<lambda>e. ce_kind e = EvidenceSupport)"
  note add = add_route_supports
  have policy: "?S items \<Longrightarrow> ?S (route_policy_evidence order res i a b items)" for i a b items
    unfolding route_policy_evidence_def Let_def by (auto intro!: add)
  have "?S (target_route_evidence k order res)"
    unfolding target_route_evidence_def Let_def
    by (auto intro!: add policy split: option.split split_tunnel.split)
  moreover have "?S (reference_route_evidence order res)"
    unfolding reference_route_evidence_def by (rule foldl_keeps) (auto intro!: add)
  moreover have "?S (resolver_route_evidence order res)"
    unfolding resolver_route_evidence_def
    by (rule foldl_keeps) (auto intro!: add policy split: option.split)
  ultimately show ?thesis
    by (simp add: route_evidence_def)
qed

lemma confidence_of_supports:
  assumes "list_all (\<lambda>e. ce_kind e = EvidenceSupport) ys"
  shows "confidence_for (f\<lparr>fi_evidence := foldl append_new (fi_evidence f) ys\<rparr>) = confidence_for f"
proof -
  have kinds: "ce_kind e = EvidenceSupport" if "e \<in> set ys" for e
    using assms that by (simp add: list_all_iff)
  let ?es = "foldl append_new (fi_evidence f) ys"
  have "excludes ?es c = excludes (fi_evidence f) c" for c
    using kinds by (auto simp: excludes_def list_ex_iff)
  moreover have "unresolved_alternative ?es = unresolved_alternative (fi_evidence f)"
    using kinds unfolding unresolved_alternative_def list_ex_iff set_foldl_append_new by (auto; force)
  moreover have "missing_differential ?es = missing_differential (fi_evidence f)"
    using kinds unfolding missing_differential_def list_ex_iff set_foldl_append_new by force
  ultimately show ?thesis
    by (simp add: confidence_for_def cong: option.case_cong)
qed

lemma attach_confidence: "confidence_for (attach_route_evidence order res f) = confidence_for f"
  unfolding attach_route_evidence_def by (rule confidence_of_supports [OF route_evidence_supports])

lemma bare_interpreted:
  "bare_finding (with_confidence (attach_route_evidence order res f)) = bare_finding (with_confidence f)"
  unfolding bare_finding_def with_confidence_def attach_confidence by (simp add: attach_route_evidence_def)

text \<open>C4. Routes are evidence and never a verdict: erasing every recorded route from the results
  leaves the verdict, the summary and the blamed row as they were, and every finding with its
  identity, its sentence, its row, its comparison and its confidence; only evidence differs.\<close>

theorem routes_never_conclude:
  "(let full = interpret_run t order res; bare = interpret_run t order (unrouted res)
    in di_verdict bare = di_verdict full \<and> di_summary bare = di_summary full \<and> di_blamed bare = di_blamed full
       \<and> map bare_finding (di_findings bare) = map bare_finding (di_findings full))"
  unfolding interpret_run_def Let_def table_unrouted with_counterfactuals_unrouted status_unrouted
  by (cases "di_findings (with_counterfactuals t res (truth_table t order res))")
    (simp_all add: focus_def bare_interpreted)

section \<open>Verdicts\<close>

lemma verdict_simps [simp]:
  "di_verdict (plain say v) = v" "di_verdict (with_evidence k i say v es) = v" "di_verdict (blame res k i say v is) = v"
  by (simp_all add: plain_def with_evidence_def blame_def)

text \<open>Comparisons only ever make a conclusion worse, and only one without findings.\<close>

definition compared_verdict :: "verdict \<Rightarrow> verdict \<Rightarrow> bool" where
  "compared_verdict v v' \<longleftrightarrow> v' = v \<or> v \<in> {VerdictOK, VerdictDegraded} \<and> v' \<in> {VerdictDNS, VerdictDegraded}"

lemma interpreted_verdict: "compared_verdict (di_verdict (truth_table t order res)) (di_verdict (interpret_run t order res))"
proof -
  let ?d = "truth_table t order res"
  have step: "di_verdict (add_counterfactual d new) = di_verdict d
      \<or> di_findings d = [] \<and> di_verdict (add_counterfactual d new) = fi_verdict new" for d new
    by (auto simp: add_counterfactual_def Let_def split: option.split)
  have grows: "di_findings (add_counterfactual d new) \<noteq> []" for d new
    by (cases "di_findings d") (auto simp: add_counterfactual_def Let_def split: option.split)
  have later: "di_verdict (foldl add_counterfactual d fs) = di_verdict d" if "di_findings d \<noteq> []" for d fs
    using that
  proof (induction fs arbitrary: d)
    case (Cons f fs)
    then show ?case using step [of d f] grows [of d f] by simp
  qed simp
  have "list_all (\<lambda>f. fi_verdict f \<in> {VerdictDNS, VerdictDegraded}) (counterfactual_findings t res)"
    using counterfactuals_compare [of "[]" res t] by (auto simp: list_all_iff compares_def)
  then have "compared_verdict (di_verdict ?d) (di_verdict (with_counterfactuals t res ?d))"
  proof (cases "counterfactual_findings t res")
    case (Cons f fs)
    assume bad: "list_all (\<lambda>f. fi_verdict f \<in> {VerdictDNS, VerdictDegraded}) (counterfactual_findings t res)"
    have "di_verdict (foldl add_counterfactual ?d (f # fs)) = di_verdict (add_counterfactual ?d f)"
      using later [OF grows] by simp
    then show ?thesis
      using bad step [of ?d f] Cons
      by (auto simp: with_counterfactuals_def compares_alternatives_def compared_verdict_def)
  qed (simp add: with_counterfactuals_def compared_verdict_def)
  then show ?thesis by (simp add: interpret_run_def Let_def)
qed

lemma if_verdict: "(c \<Longrightarrow> P (di_verdict a)) \<Longrightarrow> P (di_verdict b) \<Longrightarrow> P (di_verdict (if c then a else b))"
  by simp

lemma generic_verdict_known: "generic_verdict order res \<noteq> VerdictIncomplete"
  by (simp add: generic_verdict_def healthy_verdict_def)

lemma fallback_known: "di_verdict (fallback order res) \<noteq> VerdictIncomplete"
  by (simp add: fallback_def split: option.split)

lemma generic_known: "di_verdict (interpret_generic order res) \<noteq> VerdictIncomplete"
  unfolding interpret_generic_def generic_dns_def generic_quic_def encrypted_dns_diagnosis_def Let_def
  by (intro if_verdict [where P = "\<lambda>v. v \<noteq> VerdictIncomplete"]; simp add: generic_verdict_known fallback_known)

lemma target_cases_known:
  "di_verdict (target_dns order t res) = VerdictDNS"
  "di_verdict (target_tcp order t res) \<in> {VerdictService, VerdictNetwork}"
  "di_verdict (target_tls t res) = VerdictService"
  "di_verdict (target_https t res) = VerdictService"
  "di_verdict (target_http order t res) = VerdictService"
  "di_verdict (reference_egress t res) = VerdictDegraded"
  subgoal by (simp add: target_dns_def Let_def)
  subgoal by (simp add: target_tcp_def local_tcp_def routed_tcp_def Let_def)
  subgoal by (simp add: target_tls_def Let_def split: option.split)
  subgoal by (simp add: target_https_def Let_def)
  subgoal by (simp add: target_http_def Let_def)
  subgoal by (simp add: reference_egress_def)
  done

lemma target_known: "di_verdict (interpret_target order t res) \<noteq> VerdictIncomplete"
  using target_cases_known(2) [of order t res] unfolding interpret_target_def encrypted_dns_diagnosis_def Let_def
  by (intro if_verdict [where P = "\<lambda>v. v \<noteq> VerdictIncomplete"]; auto simp: fallback_known target_cases_known(1,3-))

lemma table_incomplete:
  "di_verdict (truth_table t order res) = VerdictIncomplete \<longleftrightarrow> list_ex (\<lambda>i. \<not> has res i) order"
  using generic_known [of order res] target_known [of order _ res]
  by (simp add: truth_table_def link_down_def split: option.split)

text \<open>C8. A run is called incomplete exactly while a row of its report has no result.\<close>

theorem incomplete_exact:
  "di_verdict (interpret_run t order res) = VerdictIncomplete \<longleftrightarrow> list_ex (\<lambda>i. \<not> has res i) order"
  using interpreted_verdict [of t order res] table_incomplete [of t order res] by (auto simp: compared_verdict_def)

section \<open>Accusing a service\<close>

lemma target_tcp_service:
  "di_verdict (target_tcp order t res) = VerdictService \<Longrightarrow>
     direct_egress_ok res \<or> local_target t res \<and> target_cause res = ConnectionCauseRefused"
  by (auto simp: target_tcp_def local_tcp_def routed_tcp_def Let_def split: if_splits)

definition service_rows :: "probe_id list" where
  "service_rows = [ProbeTLS, ProbeHTTP, ProbeHTTPS, ProbeSSH, ProbeSMTP]"

lemma tls_failure_service: "snd (tls_failure_row res) \<Longrightarrow> list_ex (failed res) service_rows"
  by (auto simp: tls_failure_row_def service_rows_def status_is_row_at has_def row_at_def zero_row_def
      split: if_splits option.splits)

lemma fallback_service: "di_verdict (fallback order res) = VerdictService \<Longrightarrow> list_ex (failed res) service_rows"
  by (auto simp: fallback_def blame_def with_evidence_def plain_def service_rows_def find_Some_iff
      split: option.splits if_splits)

lemma target_service_rows:
  assumes "di_verdict (interpret_target order t res) = VerdictService" "\<not> failed res ProbeTargetTCP"
  shows "list_ex (failed res) service_rows"
proof (rule ccontr)
  assume none: "\<not> list_ex (failed res) service_rows"
  have rows: "\<not> snd (tls_failure_row res)" "\<not> failed res ProbeHTTPS" "\<not> failed res ProbeHTTP"
    "\<not> failed res ProbeSSH" "\<not> failed res ProbeSMTP" "di_verdict (fallback order res) \<noteq> VerdictService"
    using none tls_failure_service [of res] fallback_service [of order res] by (auto simp: service_rows_def)
  have "di_verdict (interpret_target order t res) \<noteq> VerdictService"
    unfolding interpret_target_def encrypted_dns_diagnosis_def Let_def
    by (intro if_verdict [where P = "\<lambda>v. v \<noteq> VerdictService"]; simp add: rows assms(2) target_cases_known)
  with assms(1) show False by simp
qed

text \<open>What the table alone tells of a run against a target that ends in the service verdict.\<close>

lemma service_facts:
  assumes "di_verdict (interpret_run (Some t) order res) = VerdictService"
  shows "\<not> failed res ProbeIface" "\<not> intercepted res" "\<not> failed res ProbeDNS"
    "failed res ProbeTargetTCP \<Longrightarrow> direct_egress_ok res \<or> local_target t res \<and> target_cause res = ConnectionCauseRefused"
    "\<not> failed res ProbeTargetTCP \<Longrightarrow> list_ex (failed res) service_rows"
proof -
  have table: "di_verdict (truth_table (Some t) order res) = VerdictService"
    using interpreted_verdict [of "Some t" order res] assms by (auto simp: compared_verdict_def)
  then have up: "\<not> failed res ProbeIface" and tgt: "di_verdict (interpret_target order t res) = VerdictService"
    by (auto simp: truth_table_def link_down_def split: if_splits)
  show "\<not> failed res ProbeIface" by (rule up)
  show clear: "\<not> intercepted res"
    using tgt by (auto simp: interpret_target_def Let_def)
  show named: "\<not> failed res ProbeDNS"
    using tgt clear target_cases_known(1) [of order t res] by (auto simp: interpret_target_def Let_def)
  show "direct_egress_ok res \<or> local_target t res \<and> target_cause res = ConnectionCauseRefused" if "failed res ProbeTargetTCP"
    using target_tcp_service tgt clear named that by (simp add: interpret_target_def Let_def)
  show "list_ex (failed res) service_rows" if "\<not> failed res ProbeTargetTCP"
    by (rule target_service_rows [OF tgt that])
qed

section \<open>Calling a run healthy\<close>

lemma generic_verdict_ok:
  "generic_verdict order res = VerdictOK \<longleftrightarrow>
     \<not> failed res ProbeDNS \<and> (has res ProbeInternet \<longrightarrow> direct_egress_ok res) \<and> \<not> degraded_in order res"
  by (simp add: generic_verdict_def healthy_verdict_def)

lemma fallback_ok: "di_verdict (fallback order res) = VerdictOK \<longleftrightarrow> \<not> list_ex (failed res) order \<and> \<not> degraded_in order res"
proof (cases "find (failed res) order")
  case None
  then have "\<not> list_ex (failed res) order" by (simp add: find_None_iff list_ex_iff)
  with None show ?thesis by (simp add: fallback_def)
next
  case (Some i)
  then have "list_ex (failed res) order" by (auto simp: find_Some_iff list_ex_length)
  with Some show ?thesis by (simp add: fallback_def)
qed

text \<open>Without a target: nothing failed, or the direct path, DNS and what is checked beside them work.\<close>

lemma generic_ok:
  assumes ok: "di_verdict (interpret_generic order res) = VerdictOK"
    and rows: "\<And>i. warned res i \<Longrightarrow> degraded_in order res"
    and quic: "quic_used_disagreeing_answer res \<Longrightarrow> warned res ProbeDNSPublic"
    and down: "row_downgraded (row_at res ProbeInternet) \<Longrightarrow> warned res ProbeInternet"
  shows "\<not> degraded_in order res
    \<and> (\<not> list_ex (failed res) order
       \<or> passed res ProbeInternet \<and> passed res ProbeDNS \<and> \<not> failed res ProbeQUIC \<and> \<not> failed res ProbeProxy
         \<and> \<not> failed res ProbeDNSEncrypted)"
proof -
  let ?gv = "generic_verdict order res"
  have gv: "?gv = VerdictOK \<Longrightarrow> \<not> failed res ProbeDNS \<and> \<not> degraded_in order res \<and> (has res ProbeInternet \<longrightarrow> direct_egress_ok res)"
    by (simp add: generic_verdict_ok)
  have dns: "di_verdict (generic_dns order res) = ?gv"
    by (simp add: generic_dns_def Let_def)
  have encrypted: "di_verdict (encrypted_dns_diagnosis res) = VerdictDegraded"
    by (simp add: encrypted_dns_diagnosis_def)
  have quic': "di_verdict (generic_quic order res) = VerdictOK \<Longrightarrow> warned res ProbeDNSPublic \<and> ?gv = VerdictOK"
    using quic by (auto simp: generic_quic_def split: if_splits)
  have direct: "passed res ProbeInternet \<Longrightarrow> direct_egress_ok res"
    using down by (auto simp: direct_egress_row_at works_def functional_def status_is_row_at)
  have named: "passed res ProbeDNS \<Longrightarrow> works res ProbeDNS"
    by (auto simp: works_def functional_def status_is_row_at)
  have blocked: "direct_egress_ok res \<Longrightarrow> works res ProbeDNS \<Longrightarrow> \<not> encrypted_dns_blocked res \<Longrightarrow> \<not> failed res ProbeDNSEncrypted"
    by (simp add: encrypted_dns_blocked_def)
  show ?thesis
    using ok gv dns encrypted quic' direct named blocked rows fallback_ok [of order res]
      at_has [of StatusFail res ProbeInternet] at_has [of StatusPass res ProbeInternet]
    unfolding interpret_generic_def Let_def
    by (auto split: if_split_asm)
qed

lemma target_verdict_ok:
  assumes "di_verdict (interpret_target order t res) = VerdictOK"
  shows "\<not> list_ex (failed res) order \<and> \<not> degraded_in order res"
proof -
  have "di_verdict (encrypted_dns_diagnosis res) = VerdictDegraded"
    by (simp add: encrypted_dns_diagnosis_def)
  moreover have "di_verdict (target_tcp order t res) \<noteq> VerdictOK"
    using target_cases_known(2) [of order t res] by auto
  ultimately show ?thesis
    using assms fallback_ok [of order res] unfolding interpret_target_def Let_def
    by (simp add: target_cases_known(1,3-) split: if_split_asm)
qed

text \<open>What probes leave: no row is downgraded, the answers are not compared, and a name that was
  not found has no addresses.\<close>

definition fresh :: "results \<Rightarrow> bool" where
  "fresh res \<longleftrightarrow>
     \<not> row_downgraded (row_at res ProbeInternet) \<and> row_comparison (row_at res ProbeDNSPublic) = ComparisonUnrecorded
     \<and> (row_addrs (row_at res ProbeDNS) = [] \<or> \<not> row_not_found (row_at res ProbeDNS))"

lemma finalize_downgraded:
  assumes "\<not> row_downgraded (row_at res ProbeInternet)" "row_downgraded (row_at (finalize res) ProbeInternet)"
  shows "warned (finalize res) ProbeInternet"
proof -
  have kept: "row_downgraded (egress_row res r) = row_downgraded r" for r
    by (simp add: egress_row_def split: option.split)
  show ?thesis
    using assms unfolding row_at_def finalize_internet before_last_internet status_is_def
    by (cases "res ProbeInternet") (auto simp: kept zero_row_def split: if_splits)
qed

lemma finalize_disagreeing:
  assumes "fresh res" "quic_used_disagreeing_answer (finalize res)"
  shows "warned (finalize res) ProbeDNSPublic"
proof -
  let ?s = "row_at res ProbeDNS" and ?p = "row_at res ProbeDNSPublic"
  have disagree: "row_comparison (row_at (reconcile_dns res) ProbeDNSPublic) = ComparisonDisagree"
    and here: "has res ProbeDNSPublic" and addrs: "row_addrs ?s \<noteq> []"
    using assms(2) row_at_eq [of "finalize res" ProbeDNSPublic "reconcile_dns res", OF finalize_dns_rows(2)]
    by (auto simp: quic_used_disagreeing_answer_def dns_names_comparable_def finalized_fields)
  then have found: "\<not> row_not_found ?s" and fresh: "row_comparison ?p = ComparisonUnrecorded"
    using assms(1) by (auto simp: fresh_def)
  then have compared: "dns_names_comparable res \<and> row_status ?p = StatusPass"
    using disagree by (auto simp: dns_rows split: if_splits)
  have kept: "row_comparison (snd (compare_dns s p)) = row_comparison p" for s p
    by (simp add: compare_dns_def)
  have "row_comparison (record_comparison ?s ?p) = ComparisonDisagree"
    using disagree compared by (simp add: dns_rows Let_def kept)
  then have "public_disputed res"
    using compared found by (simp add: public_disputed_def Let_def)
  then show ?thesis
    using here by (simp add: status_is_row_at finalize_status_at)
qed

text \<open>C1. A run called healthy hides nothing: when the verdict on finished results is that all is
  well, every row of the report was measured and none warned, before the passes or after them. With
  a target no row failed at all; without one, the only failures it may pass over are those of the
  second resolver, of the name of the wireless network, and of rows about a target.\<close>

theorem healthy_hides_nothing:
  assumes "fresh res" "{i. has res i} \<subseteq> set order" "di_verdict (interpret_run t order (finalize res)) = VerdictOK"
    "i \<in> set order"
  shows "has res i \<and> \<not> warned res i
    \<and> (failed res i \<longrightarrow> t = None \<and> i \<notin> {ProbeIface, ProbeInternet, ProbeQUIC, ProbeProxy, ProbeDNS, ProbeDNSEncrypted})"
proof -
  let ?f = "finalize res"
  have rows: "warned ?f j \<Longrightarrow> degraded_in order ?f" for j
    using assms(2) at_has [of StatusWarn ?f j] by (auto simp: degraded_in_def list_ex_iff)
  have table: "di_verdict (truth_table t order ?f) = VerdictOK"
    using interpreted_verdict [of t order ?f] assms(3) by (auto simp: compared_verdict_def)
  have there: "list_all (has res) order" and up: "\<not> failed ?f ProbeIface"
    using table assms(4) by (auto simp: truth_table_def link_down_def list_ex_iff list_all_iff split: if_splits)
  have fine: "\<not> degraded_in order ?f \<and> (\<not> list_ex (failed ?f) order
      \<or> t = None \<and> passed ?f ProbeInternet \<and> passed ?f ProbeDNS \<and> \<not> failed ?f ProbeQUIC \<and> \<not> failed ?f ProbeProxy
         \<and> \<not> failed ?f ProbeDNSEncrypted)"
  proof (cases t)
    case None
    then have "di_verdict (interpret_generic order ?f) = VerdictOK"
      using table assms(4) there up by (auto simp: truth_table_def list_ex_iff list_all_iff split: if_splits)
    from generic_ok [OF this rows finalize_disagreeing finalize_downgraded] show ?thesis
      using None assms(1) by (auto simp: fresh_def)
  next
    case (Some tg)
    then have "di_verdict (interpret_target order tg ?f) = VerdictOK"
      using table assms(4) there up by (auto simp: truth_table_def list_ex_iff list_all_iff split: if_splits)
    from target_verdict_ok [OF this] show ?thesis by blast
  qed
  have later: "warned res j \<Longrightarrow> warned ?f j" "failed res j \<Longrightarrow> failed ?f j \<or> warned ?f j" for j
    by (auto simp: status_is_row_at finalize_status_at)
  have calm: "\<not> warned ?f j" for j
    using fine rows by blast
  have "failed ?f i" if "failed res i"
    using later(2) [OF that] calm by blast
  moreover have "\<not> warned res i"
    using later(1) calm by blast
  moreover have "list_ex (failed ?f) order" if "failed ?f i"
    using that assms(4) by (auto simp: list_ex_iff)
  moreover have "passed ?f j \<Longrightarrow> \<not> failed ?f j" for j
    by (auto simp: status_is_row_at)
  ultimately show ?thesis
    using fine up there assms(4) by (auto simp: list_all_iff)
qed

section \<open>Dates of a certificate\<close>

abbreviation dated :: "diagnosis_id \<Rightarrow> bool" where
  "dated k \<equiv> k \<in> {DiagnosisTLSCertificateExpired, DiagnosisTLSCertificateNotYetValid}"

text \<open>Comparisons touch the findings of their own identities only.\<close>

lemma merge_first_filter:
  "merge_first fs new = Some gs \<Longrightarrow> \<not> P (fi_id new) \<Longrightarrow> filter (\<lambda>f. P (fi_id f)) gs = filter (\<lambda>f. P (fi_id f)) fs"
  by (induction fs arbitrary: gs) (auto split: if_splits)

lemma with_counterfactuals_filter:
  "filter (\<lambda>f. dated (fi_id f)) (di_findings (with_counterfactuals t res d)) = filter (\<lambda>f. dated (fi_id f)) (di_findings d)"
proof -
  have step: "filter (\<lambda>f. dated (fi_id f)) (di_findings (add_counterfactual d new)) = filter (\<lambda>f. dated (fi_id f)) (di_findings d)"
    if "\<not> dated (fi_id new)" for d new
    using that merge_first_filter [of "di_findings d" new _ dated]
    by (auto simp: add_counterfactual_def Let_def split: option.split)
  have "filter (\<lambda>f. dated (fi_id f)) (di_findings (foldl add_counterfactual d fs)) = filter (\<lambda>f. dated (fi_id f)) (di_findings d)"
    if "list_all (\<lambda>f. \<not> dated (fi_id f)) fs" for fs
    using that
  proof (induction fs arbitrary: d)
    case (Cons f fs)
    then show ?case using step [of f d] by simp
  qed simp
  moreover have "list_all (\<lambda>f. \<not> dated (fi_id f)) (counterfactual_findings t res)"
    by (auto simp: counterfactual_findings_def list_all_iff set_map_filter compares_def dest!: sym [of "Some _"]
        dest: dns_counterfactual_compares [of _ _ _ "[]"] family_counterfactual_compares [of _ _ _ "[]"]
          address_counterfactual_compares [of _ _ _ "[]"] split: option.splits)
  ultimately show ?thesis by (simp add: with_counterfactuals_def)
qed

text \<open>Only the case of a failed handshake gives such a finding.\<close>

definition undated :: "diagnosis \<Rightarrow> bool" where
  "undated d \<longleftrightarrow> list_all (\<lambda>f. \<not> dated (fi_id f)) (di_findings d)"

lemma undated_simps [simp]:
  "undated (plain say v)" "undated (with_evidence k i say v es) = (\<not> dated k)" "undated (blame res k i say v is) = (\<not> dated k)"
  by (simp_all add: undated_def plain_def with_evidence_def blame_def)

lemma if_undated: "(c \<Longrightarrow> undated a) \<Longrightarrow> undated b \<Longrightarrow> undated (if c then a else b)"
  by simp

lemma fallback_undated [simp]: "undated (fallback order res)"
  by (simp add: fallback_def split: option.split)

lemma generic_undated: "undated (interpret_generic order res)"
  unfolding interpret_generic_def generic_dns_def generic_quic_def encrypted_dns_diagnosis_def Let_def
  by (intro if_undated; simp)

lemma target_cases_undated [simp]:
  "undated (target_dns order t res)" "undated (target_tcp order t res)" "undated (target_https t res)"
  "undated (target_http order t res)" "undated (reference_egress t res)"
  by (simp_all add: target_dns_def target_tcp_def local_tcp_def routed_tcp_def target_https_def target_http_def
      reference_egress_def Let_def)

lemma target_undated: "interpret_target order t res = target_tls t res \<or> undated (interpret_target order t res)"
proof -
  have pick: "(if c then a else b) = x \<or> undated (if c then a else b)" if "a = x \<or> undated a" "b = x \<or> undated b" for c a b x
    using that by simp
  show ?thesis
    unfolding interpret_target_def encrypted_dns_diagnosis_def Let_def by (intro pick; simp)
qed

lemma table_undated:
  "undated (truth_table t order res) \<or> (\<exists>tg. truth_table t order res = target_tls tg res)"
  using generic_undated [of order res] target_undated [of order _ res]
  by (cases t) (auto simp: truth_table_def link_down_def)

text \<open>Only a measured clock can clear the dates.\<close>

lemma skew_observed: "clock_skew res = Some d \<Longrightarrow> observation_exists res ProbeInternet ObservationClockOffset"
  by (auto simp: clock_skew_def observation_exists_def row_at_def zero_row_def dur_abs_def clock_skew_threshold_def
      minutes_def max_duration_def Let_def split: option.splits if_splits)

lemma observed_kind:
  assumes "observed res i = Some e"
  shows "ce_kind e = EvidenceSupport \<or> ce_kind e = EvidenceNotEvaluated
    \<and> ce_reason e \<in> {Some NotEvaluatedPrerequisite, Some NotEvaluatedNotApplicable}"
proof (cases "res i")
  case (Some r)
  show ?thesis
    using assms unfolding observed_def Some option.case
    by (cases "row_status r") (auto simp: support_def split: if_split_asm)
qed (use assms in \<open>simp add: observed_def\<close>)

lemma support_rows_kind:
  "e \<in> set (support_rows res is) \<Longrightarrow> ce_kind e = EvidenceSupport \<or> ce_kind e = EvidenceNotEvaluated
    \<and> ce_reason e \<in> {Some NotEvaluatedPrerequisite, Some NotEvaluatedNotApplicable}"
  using observed_kind by (fastforce simp: support_rows_def set_map_filter)

text \<open>The evidence of a failed handshake: only the skew can be among what it rules out besides the
  connection, and nothing is missing from it.\<close>

lemma tls_evidence:
  assumes "e \<in> set (add_evidence (support_rows res is) extra)"
    "list_all (\<lambda>x. case x of None \<Rightarrow> True | Some e \<Rightarrow> ce_kind e = EvidenceSupport \<or> ce_kind e = EvidenceRuledOut) extra"
  shows "ce_kind e \<noteq> EvidenceContradiction"
    "ce_kind e = EvidenceNotEvaluated \<Longrightarrow> ce_reason e \<in> {Some NotEvaluatedPrerequisite, Some NotEvaluatedNotApplicable}"
    "ce_kind e = EvidenceRuledOut \<Longrightarrow> Some e \<in> set extra"
  using assms support_rows_kind [of e res "is"] by (auto simp: add_evidence_def set_map_filter list_all_iff)

lemma rules_out_kind: "rules_out res k i ob = Some e \<Longrightarrow> ce_kind e = EvidenceRuledOut \<and> ce_candidate e = Some k"
  by (auto simp: relation_def split: if_splits)

lemma confidence_dated:
  assumes "dated (fi_id f)" "set (fi_evidence f) = set (add_evidence (support_rows res rows) extra)"
    "list_all (\<lambda>x. case x of None \<Rightarrow> True | Some e \<Rightarrow> ce_kind e = EvidenceSupport \<or> ce_kind e = EvidenceRuledOut) extra"
  shows "confidence_for f =
    (if list_ex (\<lambda>x. case x of None \<Rightarrow> False | Some e \<Rightarrow> ce_kind e = EvidenceRuledOut \<and> ce_candidate e = Some DiagnosisTLSClockSkew) extra
     then ConfidenceHigh else ConfidenceMedium)"
proof -
  note kinds = tls_evidence [OF _ assms(3), of _ res rows]
  have "\<not> unresolved_alternative (fi_evidence f)" "\<not> missing_differential (fi_evidence f)"
    using kinds(1,2) by (auto simp: unresolved_alternative_def missing_differential_def list_ex_iff assms(2) dest: kinds(2))
  moreover have "excludes (fi_evidence f) (Some DiagnosisTLSClockSkew) \<longleftrightarrow>
      list_ex (\<lambda>x. case x of None \<Rightarrow> False | Some e \<Rightarrow> ce_kind e = EvidenceRuledOut \<and> ce_candidate e = Some DiagnosisTLSClockSkew) extra"
    using kinds(3) by (fastforce simp: excludes_def list_ex_iff assms(2) add_evidence_def set_map_filter split: option.splits)
  moreover have "must_rule_out (fi_id f) = Some DiagnosisTLSClockSkew" "map_of diagnosis_confidence (fi_id f) = Some ClassObserved"
    using assms(1) by (auto simp: must_rule_out_def diagnosis_confidence_def)
  ultimately show ?thesis
    by (simp add: confidence_for_def)
qed

lemma tls_dated:
  assumes "f \<in> set (di_findings (target_tls t res))" "dated (fi_id f)"
  shows "confidence_for f = (if clock_skew res = None then ConfidenceMedium else ConfidenceHigh)"
proof -
  let ?i = "fst (tls_failure_row res)"
  let ?c = "row_cause (row_at res ?i)"
  let ?reached = "rules_out res DiagnosisTLSTCPUnreachable ProbeTargetTCP ObservationStatusPass"
  have k: "fi_id f = k" "set (fi_evidence f) = set es" if "f \<in> set (di_findings (with_evidence k i say v es))" for k i say v es
    using that by (simp_all add: with_evidence_def)
  have reached: "?reached = None \<or> (\<exists>e. ?reached = Some e \<and> ce_kind e = EvidenceRuledOut \<and> ce_candidate e = Some DiagnosisTLSTCPUnreachable)"
    using rules_out_kind [of res] by (cases ?reached) auto
  show ?thesis
  proof (cases "clock_skew res")
    case None
    with k assms show ?thesis
      using reached unfolding target_tls_def Let_def None option.case
      by (subst confidence_dated [where res = res and rows = "[?i, ProbeTargetTCP]" and
            extra = "if tls_diagnosis_id ?c \<noteq> DiagnosisTLSTCPUnreachable then [?reached] else []"])
        (auto split: if_splits)
  next
    case (Some d)
    let ?skew = "rules_out res DiagnosisTLSClockSkew ProbeInternet ObservationClockOffset"
    have skew: "\<exists>e. ?skew = Some e \<and> ce_kind e = EvidenceRuledOut \<and> ce_candidate e = Some DiagnosisTLSClockSkew"
      using skew_observed [OF Some] by (simp add: relation_def)
    have "?c = TLSCauseCertificateExpired \<or> ?c = TLSCauseCertificateNotYet" if "dated (tls_diagnosis_id ?c)"
      using that by (cases ?c) auto
    then have "skew_disproves_tls ?c d" if "\<not> skew_explains_tls ?c d" "dated (tls_diagnosis_id ?c)"
      using that by (auto simp: skew_disproves_tls_def)
    then have es: "set (fi_evidence f) = set (add_evidence (support_rows res [?i, ProbeInternet, ProbeTargetTCP]) [?skew, ?reached])"
      using assms k Some unfolding target_tls_def Let_def Some option.case by (auto split: if_splits)
    show ?thesis
      using reached skew Some by (subst confidence_dated [OF assms(2) es]) auto
  qed
qed


section \<open>Sample runs\<close>

definition lab_target :: target where
  "lab_target = \<lparr>tg_host = ''example.com'', tg_ip = [], tg_port = 443, tg_proto = ProtoTLSHTTP\<rparr>"

text \<open>A healthy run without a target whose second resolver did not answer.\<close>

definition healthy_lab :: results where
  "healthy_lab = [ProbeIface \<mapsto> zero_row, ProbeInternet \<mapsto> zero_row, ProbeDNS \<mapsto> zero_row,
     ProbeDNSPublic \<mapsto> zero_row\<lparr>row_status := StatusFail\<rparr>]"

theorem healthy_hides_nothing_witness:
  "has healthy_lab ProbeDNSPublic \<and> \<not> warned healthy_lab ProbeDNSPublic \<and> failed healthy_lab ProbeDNSPublic"
proof -
  have fresh: "fresh healthy_lab" by code_simp
  have rows: "{i. has healthy_lab i} \<subseteq> set [ProbeIface, ProbeInternet, ProbeDNS, ProbeDNSPublic]"
    by (auto simp: healthy_lab_def has_def split: if_splits)
  have ok: "di_verdict (interpret_run None [ProbeIface, ProbeInternet, ProbeDNS, ProbeDNSPublic] (finalize healthy_lab)) = VerdictOK"
    by code_simp
  have "has healthy_lab ProbeDNSPublic \<and> \<not> warned healthy_lab ProbeDNSPublic"
    using healthy_hides_nothing [OF fresh rows ok, of ProbeDNSPublic] by simp
  moreover have "failed healthy_lab ProbeDNSPublic" by code_simp
  ultimately show ?thesis by blast
qed

text \<open>An expired certificate on a machine whose clock was measured ten minutes slow.\<close>

definition expired_lab :: results where
  "expired_lab = [ProbeIface \<mapsto> zero_row, ProbeInternet \<mapsto> zero_row\<lparr>row_clock_offset := minutes (- 10)\<rparr>, ProbeDNS \<mapsto> zero_row,
     ProbeTargetTCP \<mapsto> zero_row, ProbeTLS \<mapsto> zero_row\<lparr>row_status := StatusFail, row_cause := TLSCauseCertificateExpired\<rparr>]"

definition expired_finding :: diagnosis_finding where
  "expired_finding = hd (di_findings (interpret_run (Some lab_target)
     [ProbeIface, ProbeInternet, ProbeDNS, ProbeTargetTCP, ProbeTLS] expired_lab))"


end
