(* ===== verification/Probe_Graph.thy ===== *)
theory Probe_Graph
  imports Finalize Diagnosis
begin

text \<open>
  Which probes a run has: the graph \<^verbatim>\<open>buildProbeGraph\<close> of
  \<^verbatim>\<open>internal/diagnostic/checks.go\<close> assembles for a target, the marks of
  \<^verbatim>\<open>reference_policy.go\<close>, and the selection of \<^verbatim>\<open>selection.go\<close>. What a
  probe does on the network and the socket it may share are not part of a node here.
\<close>

section \<open>The graph\<close>

record planned =
  pl_id :: probe_id
  pl_name :: string
  pl_deps :: "probe_id list"
  pl_reference :: bool

definition node :: "probe_id \<Rightarrow> string \<Rightarrow> probe_id list \<Rightarrow> planned" where
  "node i name deps = \<lparr>pl_id = i, pl_name = name, pl_deps = deps, pl_reference = False\<rparr>"

definition default_public_dns :: string where
  "default_public_dns = ''8.8.8.8''"

definition auto_public_dns_fallback :: string where
  "auto_public_dns_fallback = ''2001:4860:4860::8888''"

definition public_dns_candidates :: "string \<Rightarrow> bool \<Rightarrow> string list" where
  "public_dns_candidates dns auto =
     (if dns = [] then []
      else if auto \<and> dns \<noteq> auto_public_dns_fallback then [dns, auto_public_dns_fallback]
      else [dns])"

definition public_dns_row_name :: "string \<Rightarrow> bool \<Rightarrow> string" where
  "public_dns_row_name dns auto = (if auto then ''DNS (public)'' else ''DNS (public '' @ dns @ '')'')"

definition banner_node :: "probe_id \<Rightarrow> string \<Rightarrow> string \<Rightarrow> planned" where
  "banner_node i label tls_host = node i label [if tls_host = [] then ProbeTargetTCP else ProbeTLS]"

definition iface_node :: planned where
  "iface_node = node ProbeIface ''Interface'' []"

definition network_node :: planned where
  "network_node = node ProbeSSID ''Wi-Fi network'' [ProbeIface]"

definition common_nodes :: "planned list" where
  "common_nodes =
     [iface_node, node ProbeInternet ''Internet (TCP egress)'' [ProbeIface],
      node ProbeQUIC ''QUIC / UDP 443'' [ProbeIface], node ProbeProxy ''Internet (env proxy)'' [ProbeIface]]"

definition public_dns_nodes :: "string \<Rightarrow> bool \<Rightarrow> planned list" where
  "public_dns_nodes dns auto =
     (if public_dns_candidates dns auto \<noteq> [] then [node ProbeDNSPublic (public_dns_row_name dns auto) [ProbeIface]] else [])"

definition encrypted_dns_node :: planned where
  "encrypted_dns_node = node ProbeDNSEncrypted ''DNS (encrypted DoH/DoT)'' [ProbeIface]"

text \<open>The rows of the application protocol.\<close>

definition protocol_nodes :: "target \<Rightarrow> planned list" where
  "protocol_nodes t =
     (let host = tg_host t; hp = join_host_port host (int_dec (tg_port t))
      in case tg_proto t of
           ProtoNone \<Rightarrow> []
         | ProtoTLSHTTP \<Rightarrow>
             [node ProbeTLS (''TLS '' @ host) [ProbeTargetTCP], node ProbeHTTP (''HTTP '' @ host) [ProbeDNS],
              node ProbeHTTPS (''HTTPS '' @ host) [ProbeTLS]]
         | ProtoHTTP \<Rightarrow> [node ProbeHTTP (''HTTP '' @ host) [ProbeTargetTCP]]
         | ProtoSSH \<Rightarrow> [banner_node ProbeSSH (''SSH banner '' @ hp) []]
         | ProtoSMTP \<Rightarrow>
             (if tg_port t = 465 then [node ProbeTLS (''TLS '' @ host) [ProbeTargetTCP]] else [])
             @ [banner_node ProbeSMTP (''SMTP banner '' @ hp) (if tg_port t = 465 then host else [])])"

text \<open>An unknown protocol gets the bulk write of the path-MTU check only where it was asked for.\<close>

definition build_probe_graph :: "target option \<Rightarrow> string \<Rightarrow> bool \<Rightarrow> probe_id list \<Rightarrow> planned list" where
  "build_probe_graph t dns auto explicit =
     (case t of
        None \<Rightarrow>
          common_nodes @ [node ProbeDNS ''DNS'' [ProbeIface]] @ public_dns_nodes dns auto
          @ [encrypted_dns_node, network_node]
      | Some t \<Rightarrow>
          (let hp = join_host_port (tg_host t) (int_dec (tg_port t))
           in common_nodes @ [node ProbeDNS (''DNS '' @ tg_host t) [ProbeIface]] @ public_dns_nodes dns auto
              @ [encrypted_dns_node, node ProbeTargetTCP (''TCP '' @ hp) [ProbeDNS]]
              @ (if tg_proto t \<noteq> ProtoNone \<or> ProbePMTU \<in> set explicit
                 then [node ProbePMTU (''Path MTU '' @ hp) [ProbeTargetTCP]] else [])
              @ [network_node] @ protocol_nodes t))"

section \<open>Reference egress\<close>

definition reference_egress_policy :: "probe_id \<Rightarrow> bool \<Rightarrow> bool \<Rightarrow> bool" where
  "reference_egress_policy i has_target named \<longleftrightarrow>
     i \<in> {ProbeInternet, ProbeQUIC, ProbeDNSEncrypted} \<or> i = ProbeProxy
     \<or> i = ProbeDNS \<and> \<not> has_target \<or> i = ProbeDNSPublic \<and> (\<not> has_target \<or> \<not> named)"

definition build_probes :: "target option \<Rightarrow> string \<Rightarrow> bool \<Rightarrow> probe_id list \<Rightarrow> planned list" where
  "build_probes t dns auto explicit =
     map (\<lambda>p. p\<lparr>pl_reference := reference_egress_policy (pl_id p) (t \<noteq> None) (\<not> auto)\<rparr>)
       (build_probe_graph t dns auto explicit)"

section \<open>The inventory\<close>

definition stable_name :: "string \<Rightarrow> string \<Rightarrow> string \<Rightarrow> string" where
  "stable_name host_port host name = trim_suffix (trim_suffix name (CHR '' '' # host_port)) (CHR '' '' # host)"

definition add_stable :: "string \<Rightarrow> string \<Rightarrow> (probe_id \<times> string) list \<Rightarrow> planned \<Rightarrow> (probe_id \<times> string) list" where
  "add_stable host_port host found p =
     (if pl_id p \<in> fst ` set found then found
      else found @ [(pl_id p, stable_name host_port host (pl_name p))])"

definition stable_probes :: "(probe_id \<times> string) list" where
  "stable_probes =
     (let host = ''example.invalid''; host_port = host @ '':443'';
          plans = map (\<lambda>proto. build_probes (Some \<lparr>tg_host = host, tg_ip = [], tg_port = 443, tg_proto = proto\<rparr>)
                                 default_public_dns True [ProbePMTU])
                    [ProtoNone, ProtoTLSHTTP, ProtoHTTP, ProtoSSH, ProtoSMTP]
                  @ [build_probes None default_public_dns True []]
      in foldl (foldl (add_stable host_port host)) [] plans)"

definition reference_egress_probes :: "bool \<Rightarrow> bool \<Rightarrow> probe_id list" where
  "reference_egress_probes has_target named =
     filter (\<lambda>i. reference_egress_policy i has_target named) (map fst stable_probes)"

section \<open>Selection\<close>

record probe_selection =
  ps_check :: "probe_id set"
  ps_skip :: "probe_id set"
  ps_no_reference :: bool

definition skipped_ids :: "probe_selection \<Rightarrow> planned list \<Rightarrow> probe_id set" where
  "skipped_ids s ps = ps_skip s \<union> (if ps_no_reference s then pl_id ` set (filter pl_reference ps) else {})"

text \<open>The map by identity: the last node of one identity.\<close>

definition by_id :: "planned list \<Rightarrow> probe_id \<Rightarrow> planned option" where
  "by_id ps i = find (\<lambda>p. pl_id p = i) (rev ps)"

lemma probe_ids:
  "UNIV = {ProbeIface, ProbeSSID, ProbeInternet, ProbeQUIC, ProbeProxy, ProbeDNS, ProbeDNSPublic, ProbeDNSEncrypted,
     ProbeTargetTCP, ProbePMTU, ProbeTLS, ProbeHTTP, ProbeHTTPS, ProbeSSH, ProbeSMTP}"
  using probe_id.exhaust by blast

instantiation probe_id :: enum
begin

definition enum_probe_id :: "probe_id list" where
  "enum_probe_id =
     [ProbeIface, ProbeSSID, ProbeInternet, ProbeQUIC, ProbeProxy, ProbeDNS, ProbeDNSPublic, ProbeDNSEncrypted,
      ProbeTargetTCP, ProbePMTU, ProbeTLS, ProbeHTTP, ProbeHTTPS, ProbeSSH, ProbeSMTP]"

definition enum_all_probe_id :: "(probe_id \<Rightarrow> bool) \<Rightarrow> bool" where
  "enum_all_probe_id P = list_all P enum_class.enum"

definition enum_ex_probe_id :: "(probe_id \<Rightarrow> bool) \<Rightarrow> bool" where
  "enum_ex_probe_id P = list_ex P enum_class.enum"

instance
proof
  have ids: "UNIV = set (enum_class.enum :: probe_id list)"
    by (simp add: probe_ids enum_probe_id_def)
  then show "UNIV = set (enum_class.enum :: probe_id list)" .
  show "distinct (enum_class.enum :: probe_id list)"
    by (simp add: enum_probe_id_def)
  show "enum_class.enum_all P = Ball UNIV P" "enum_class.enum_ex P = Bex UNIV P" for P :: "probe_id \<Rightarrow> bool"
    unfolding ids by (simp_all add: enum_all_probe_id_def enum_ex_probe_id_def list_all_iff list_ex_iff)
qed

end

text \<open>Closing over dependencies: the calls still to make, in the order a recursion makes them.
  \<open>within\<close> is the set a call must be in to go on.\<close>

function close_deps :: "(probe_id \<Rightarrow> planned option) \<Rightarrow> (probe_id \<Rightarrow> bool) \<Rightarrow> probe_id set \<Rightarrow> probe_id list \<Rightarrow> probe_id set" where
  "close_deps get within kept [] = kept"
| "close_deps get within kept (i # todo) =
     (if i \<in> kept \<or> \<not> within i then close_deps get within kept todo
      else close_deps get within (insert i kept) ((case get i of Some p \<Rightarrow> pl_deps p | None \<Rightarrow> []) @ todo))"
  by pat_completeness auto
termination
  by (relation "measures [\<lambda>(get, within, kept, todo). card (- kept), \<lambda>(get, within, kept, todo). length todo]")
    (auto intro!: psubset_card_mono)

definition prune_one :: "probe_id set \<Rightarrow> planned \<Rightarrow> probe_id set" where
  "prune_one kept p =
     (if pl_id p \<in> kept \<and> \<not> list_all (\<lambda>d. d \<in> kept) (pl_deps p) then kept - {pl_id p} else kept)"

lemma prune_pass_subset: "foldl prune_one kept ps \<subseteq> kept"
  by (induction ps arbitrary: kept) (fastforce simp: prune_one_def split: if_splits)+

text \<open>Passes over the nodes, as long as one of them removed a node.\<close>

function prune :: "planned list \<Rightarrow> probe_id set \<Rightarrow> probe_id set" where
  "prune ps kept = (let kept' = foldl prune_one kept ps in if kept' = kept then kept else prune ps kept')"
  by pat_completeness auto
termination
  by (relation "measure (\<lambda>(ps, kept). card kept)")
    (use prune_pass_subset in \<open>auto intro!: psubset_card_mono\<close>)

declare prune.simps [simp del]

definition requested :: "probe_selection \<Rightarrow> planned list \<Rightarrow> probe_id list" where
  "requested s ps = filter (\<lambda>i. i \<in> ps_check s) (map pl_id ps)"

definition kept_ids :: "probe_selection \<Rightarrow> planned list \<Rightarrow> probe_id set" where
  "kept_ids s ps =
     (let get = by_id ps;
          chosen = (if ps_check s = {} then set (map pl_id ps)
                    else close_deps get (\<lambda>i. get i \<noteq> None) {} (requested s ps));
          kept = prune ps (chosen - skipped_ids s ps)
      in if ps_check s = {} then kept else close_deps get (\<lambda>i. i \<in> kept) {} (requested s ps))"

definition apply_selection :: "probe_selection \<Rightarrow> planned list \<Rightarrow> planned list" where
  "apply_selection s ps =
     (if ps_check s = {} \<and> skipped_ids s ps = {} then ps
      else filter (\<lambda>p. pl_id p \<in> kept_ids s ps) ps)"

text \<open>The graph of a run: the probes that need asking for are built where they are asked for.\<close>

definition selected_probes :: "probe_selection \<Rightarrow> target option \<Rightarrow> string \<Rightarrow> bool \<Rightarrow> planned list" where
  "selected_probes s t dns auto =
     apply_selection s (build_probes t dns auto (filter (\<lambda>i. i \<in> ps_check s)
       [ProbeIface, ProbeSSID, ProbeInternet, ProbeQUIC, ProbeProxy, ProbeDNS, ProbeDNSPublic, ProbeDNSEncrypted,
        ProbeTargetTCP, ProbePMTU, ProbeTLS, ProbeHTTP, ProbeHTTPS, ProbeSSH, ProbeSMTP]))"

text \<open>\<^verbatim>\<open>Validate\<close>: the first unknown identity in the order of names, of the checks before
  the skips. The identities come from the command line, so they are strings here.\<close>

definition validate_selection :: "string list \<Rightarrow> string list \<Rightarrow> (string \<times> string) option" where
  "validate_selection check skip =
     (let known = map (probe_name \<circ> fst) stable_probes;
          unknown = (\<lambda>ids. sort_func three_way (filter (\<lambda>i. i \<notin> set known) ids))
      in if check = [] \<and> skip = [] then None
         else case unknown check of
                i # _ \<Rightarrow> Some (''check'', i)
              | [] \<Rightarrow> (case unknown skip of i # _ \<Rightarrow> Some (''skip'', i) | [] \<Rightarrow> None))"

end
