(* ===== verification/Graph_Laws.thy ===== *)
theory Graph_Laws
  imports Probe_Graph Verdict_Laws Scheduler_Laws
begin

text \<open>
  What a selection of probes is, and that a run of any selection of any graph ends with a
  conclusion: the graph lists every node after its dependencies, a selection keeps that, so
  the executor records every row and \<^verbatim>\<open>Interpret\<close> finds none missing.
\<close>

section \<open>Order of the graph\<close>

fun in_order :: "probe_id set \<Rightarrow> planned list \<Rightarrow> bool" where
  "in_order seen [] = True"
| "in_order seen (p # ps) = (pl_id p \<notin> seen \<and> set (pl_deps p) \<subseteq> seen \<and> in_order (insert (pl_id p) seen) ps)"

lemma in_order_append:
  "in_order seen (ps @ qs) \<longleftrightarrow> in_order seen ps \<and> in_order (seen \<union> pl_id ` set ps) qs"
  by (induction ps arbitrary: seen) auto

lemma in_order_map:
  "(\<And>p. pl_id (f p) = pl_id p) \<Longrightarrow> (\<And>p. pl_deps (f p) = pl_deps p) \<Longrightarrow> in_order seen (map f ps) = in_order seen ps"
  by (induction ps arbitrary: seen) auto

lemma node_fields [simp]: "pl_id (node i name deps) = i" "pl_deps (node i name deps) = deps"
  by (simp_all add: node_def)

lemma graph_in_order: "in_order {} (build_probe_graph t dns auto explicit)"
  by (cases t; cases "tg_proto (the t)")
    (simp_all add: build_probe_graph_def common_nodes_def public_dns_nodes_def encrypted_dns_node_def network_node_def
      iface_node_def protocol_nodes_def banner_node_def Let_def in_order_append)

lemma probes_in_order: "in_order {} (build_probes t dns auto explicit)"
  unfolding build_probes_def by (subst in_order_map) (simp_all add: graph_in_order)

lemma in_order_distinct: "in_order seen ps \<Longrightarrow> distinct (map pl_id ps) \<and> pl_id ` set ps \<inter> seen = {}"
  by (induction ps arbitrary: seen) fastforce+

lemma in_order_deps: "in_order seen ps \<Longrightarrow> p \<in> set ps \<Longrightarrow> set (pl_deps p) \<subseteq> seen \<union> pl_id ` set ps"
  by (induction ps arbitrary: seen) fastforce+

lemma in_order_filter:
  assumes "in_order seen ps" "\<And>p. p \<in> set ps \<Longrightarrow> pl_id p \<in> K \<Longrightarrow> set (pl_deps p) \<subseteq> K"
  shows "in_order (seen \<inter> K) (filter (\<lambda>p. pl_id p \<in> K) ps)"
  using assms
proof (induction ps arbitrary: seen)
  case (Cons p ps)
  have "in_order (insert (pl_id p) seen \<inter> K) (filter (\<lambda>p. pl_id p \<in> K) ps)"
    using Cons.prems by (intro Cons.IH) auto
  then show ?case
    using Cons.prems by (cases "pl_id p \<in> K") (auto simp: Int_insert_left)
qed simp

section \<open>Closing over dependencies\<close>

text \<open>A chain of dependencies, every member of it within the set.\<close>

inductive needs :: "(probe_id \<Rightarrow> planned option) \<Rightarrow> (probe_id \<Rightarrow> bool) \<Rightarrow> probe_id \<Rightarrow> probe_id \<Rightarrow> bool"
  for get within where
  Self: "within i \<Longrightarrow> needs get within i i"
| Dep: "within i \<Longrightarrow> get i = Some p \<Longrightarrow> d \<in> set (pl_deps p) \<Longrightarrow> needs get within d j \<Longrightarrow> needs get within i j"

lemma close_sound:
  "j \<in> close_deps get within kept todo \<Longrightarrow> j \<in> kept \<or> (\<exists>i\<in>set todo. needs get within i j)"
proof (induction get within kept todo rule: close_deps.induct)
  case (2 get within kept i todo)
  show ?case
  proof (cases "i \<in> kept \<or> \<not> within i")
    case True
    with 2 show ?thesis by auto
  next
    case False
    then consider "j = i" | "j \<in> kept"
      | d where "d \<in> set (case get i of Some p \<Rightarrow> pl_deps p | None \<Rightarrow> []) \<union> set todo" "needs get within d j"
      using 2 by auto
    then show ?thesis
    proof cases
      case 1
      with False show ?thesis by (auto intro: Self)
    next
      case 3
      with False show ?thesis by (cases "get i") (auto intro: Dep)
    qed simp
  qed
qed simp

lemma close_grows: "kept \<subseteq> close_deps get within kept todo"
  by (induction get within kept todo rule: close_deps.induct) auto

lemma close_complete:
  assumes "\<And>i p d. i \<in> kept \<Longrightarrow> get i = Some p \<Longrightarrow> d \<in> set (pl_deps p) \<Longrightarrow> within d \<Longrightarrow> d \<in> kept \<or> d \<in> set todo"
  shows "(\<forall>i\<in>set todo. within i \<longrightarrow> i \<in> close_deps get within kept todo)
    \<and> (\<forall>i p d. i \<in> close_deps get within kept todo \<longrightarrow> get i = Some p \<longrightarrow> d \<in> set (pl_deps p) \<longrightarrow> within d
          \<longrightarrow> d \<in> close_deps get within kept todo)"
  using assms
proof (induction get within kept todo rule: close_deps.induct)
  case (1 get within kept)
  then show ?case by auto
next
  case (2 get within kept i todo)
  show ?case
  proof (cases "i \<in> kept \<or> \<not> within i")
    case True
    have "\<And>j p d. j \<in> kept \<Longrightarrow> get j = Some p \<Longrightarrow> d \<in> set (pl_deps p) \<Longrightarrow> within d \<Longrightarrow> d \<in> kept \<or> d \<in> set todo"
      using 2(3) True by (metis set_ConsD)
    from 2(1) [OF True this] show ?thesis
      using True close_grows [of kept get within todo] by auto
  next
    case False
    let ?todo = "(case get i of Some p \<Rightarrow> pl_deps p | None \<Rightarrow> []) @ todo"
    have "\<And>j p d. j \<in> insert i kept \<Longrightarrow> get j = Some p \<Longrightarrow> d \<in> set (pl_deps p) \<Longrightarrow> within d
        \<Longrightarrow> d \<in> insert i kept \<or> d \<in> set ?todo"
      using 2(3) by fastforce
    from 2(2) [OF False this] show ?thesis
      using False close_grows [of "insert i kept" get within ?todo] by auto
  qed
qed

lemma close_exact: "close_deps get within {} todo = {j. \<exists>i\<in>set todo. needs get within i j}"
proof (intro equalityI subsetI)
  fix j assume "j \<in> {j. \<exists>i\<in>set todo. needs get within i j}"
  then obtain i where i: "i \<in> set todo" "needs get within i j" by blast
  note complete = close_complete [of "{}" get within todo, simplified]
  have start: "within k" if "needs get within k j" for k
    using that by (cases rule: needs.cases)
  have "k \<in> close_deps get within {} todo \<longrightarrow> j \<in> close_deps get within {} todo" if "needs get within k j" for k
    using that
  proof (induction rule: needs.induct)
    case (Dep k p d j)
    then have "within d" by (auto elim: needs.cases)
    with Dep show ?case using complete by blast
  qed simp
  then show "j \<in> close_deps get within {} todo"
    using i start complete by blast
qed (use close_sound [of _ get within "{}" todo] in auto)

section \<open>Pruning\<close>

definition closed_under :: "planned list \<Rightarrow> probe_id set \<Rightarrow> bool" where
  "closed_under ps K \<longleftrightarrow> (\<forall>p\<in>set ps. pl_id p \<in> K \<longrightarrow> set (pl_deps p) \<subseteq> K)"

lemma prune_pass_keeps: "closed_under ps S \<Longrightarrow> set qs \<subseteq> set ps \<Longrightarrow> S \<subseteq> K \<Longrightarrow> S \<subseteq> foldl prune_one K qs"
proof (induction qs arbitrary: K)
  case (Cons q qs)
  have "S \<subseteq> prune_one K q"
    using Cons.prems by (auto simp: prune_one_def closed_under_def list_all_iff)
  then show ?case using Cons by simp
qed simp

lemma prune_pass_fixed: "foldl prune_one K ps = K \<Longrightarrow> closed_under ps K"
proof (induction ps)
  case (Cons p ps)
  have "foldl prune_one (prune_one K p) ps \<subseteq> prune_one K p" "prune_one K p \<subseteq> K"
    by (rule prune_pass_subset) (auto simp: prune_one_def)
  then have same: "prune_one K p = K"
    using Cons.prems by auto
  then have "pl_id p \<in> K \<longrightarrow> set (pl_deps p) \<subseteq> K"
    by (auto simp: prune_one_def list_all_iff split: if_splits)
  moreover have "closed_under ps K"
    using Cons same by simp
  ultimately show ?case by (simp add: closed_under_def)
qed (simp add: closed_under_def)

lemma prune_exact:
  "prune ps K \<subseteq> K \<and> closed_under ps (prune ps K) \<and> (\<forall>S. S \<subseteq> K \<longrightarrow> closed_under ps S \<longrightarrow> S \<subseteq> prune ps K)"
proof (induction ps K rule: prune.induct)
  case (1 ps K)
  show ?case
  proof (cases "foldl prune_one K ps = K")
    case True
    have eq: "prune ps K = K"
      unfolding prune.simps [of ps K] Let_def using True by simp
    show ?thesis
      unfolding eq using prune_pass_fixed [OF True] by blast
  next
    case False
    have eq: "prune ps K = prune ps (foldl prune_one K ps)"
      using False by (subst prune.simps) (simp add: Let_def)
    let ?K = "foldl prune_one K ps"
    note IH = 1 [OF refl False]
    have "S \<subseteq> prune ps ?K" if "S \<subseteq> K" "closed_under ps S" for S
      using IH [THEN conjunct2, THEN conjunct2] prune_pass_keeps [OF that(2) subset_refl that(1)] that(2) by simp
    moreover have "prune ps ?K \<subseteq> K"
      using IH [THEN conjunct1] prune_pass_subset [of K ps] by (rule order_trans)
    ultimately show ?thesis
      unfolding eq using IH [THEN conjunct2, THEN conjunct1] by simp
  qed
qed

section \<open>The selection\<close>

text \<open>A node of one identity reads a node of another, directly.\<close>

definition reads :: "planned list \<Rightarrow> (probe_id \<times> probe_id) set" where
  "reads ps = {(pl_id p, d) | p d. p \<in> set ps \<and> d \<in> set (pl_deps p)}"

text \<open>A node survives when neither it nor anything it reads, directly or through others, is
  skipped.\<close>

definition survives :: "probe_selection \<Rightarrow> planned list \<Rightarrow> probe_id \<Rightarrow> bool" where
  "survives s ps i \<longleftrightarrow> i \<in> pl_id ` set ps \<and> (\<forall>j. (i, j) \<in> (reads ps)\<^sup>* \<longrightarrow> j \<notin> skipped_ids s ps)"

text \<open>A node is selected when it survives and is wanted: by itself or by a surviving node that
  was asked for, or because nothing in particular was asked for.\<close>

definition wanted :: "probe_selection \<Rightarrow> planned list \<Rightarrow> probe_id \<Rightarrow> bool" where
  "wanted s ps i \<longleftrightarrow> ps_check s = {} \<or> (\<exists>c\<in>ps_check s. survives s ps c \<and> (c, i) \<in> (reads ps)\<^sup>*)"

lemma by_id_Some: "in_order {} ps \<Longrightarrow> by_id ps i = Some p \<longleftrightarrow> p \<in> set ps \<and> pl_id p = i"
proof -
  assume "in_order {} ps"
  then have d: "distinct (map pl_id (rev ps))" using in_order_distinct [of "{}" ps] by (simp add: rev_map [symmetric])
  have "find (\<lambda>p. pl_id p = i) qs = Some p \<longleftrightarrow> p \<in> set qs \<and> pl_id p = i" if "distinct (map pl_id qs)" for qs
    using that by (induction qs) auto
  from this [OF d] show ?thesis by (simp add: by_id_def)
qed

lemma by_id_None: "in_order {} ps \<Longrightarrow> by_id ps i \<noteq> None \<longleftrightarrow> i \<in> pl_id ` set ps"
  using by_id_Some [of ps i] by (auto simp: image_iff)

lemma needs_reads:
  assumes "in_order {} ps" "needs (by_id ps) within i j"
  shows "(i, j) \<in> (reads ps)\<^sup>* \<and> within i \<and> within j"
  using assms(2)
proof (induction rule: needs.induct)
  case (Dep i p d j)
  then have "(i, d) \<in> reads ps"
    using by_id_Some [OF assms(1)] by (auto simp: reads_def)
  with Dep show ?case by (meson converse_rtrancl_into_rtrancl)
qed simp

lemma reads_needs:
  assumes "in_order {} ps" "(i, j) \<in> (reads ps)\<^sup>*" "\<And>k. (i, k) \<in> (reads ps)\<^sup>* \<Longrightarrow> within k"
  shows "needs (by_id ps) within i j"
  using assms(2,3)
proof (induction rule: converse_rtrancl_induct)
  case (step i d)
  then obtain p where "by_id ps i = Some p" "d \<in> set (pl_deps p)"
    using by_id_Some [OF assms(1)] by (auto simp: reads_def)
  moreover have "needs (by_id ps) within d j"
    using step by (meson converse_rtrancl_into_rtrancl)
  moreover have "within i" using step.prems by simp
  ultimately show ?case by (meson Dep)
qed (simp add: Self)

lemma closed_under_reads: "closed_under ps K \<longleftrightarrow> (\<forall>i j. i \<in> K \<longrightarrow> (i, j) \<in> (reads ps)\<^sup>* \<longrightarrow> j \<in> K)"
proof
  assume K: "closed_under ps K"
  have "(i, j) \<in> (reads ps)\<^sup>* \<Longrightarrow> i \<in> K \<Longrightarrow> j \<in> K" for i j
    by (induction rule: rtrancl_induct) (use K in \<open>auto simp: closed_under_def reads_def\<close>)
  then show "\<forall>i j. i \<in> K \<longrightarrow> (i, j) \<in> (reads ps)\<^sup>* \<longrightarrow> j \<in> K" by blast
next
  assume K: "\<forall>i j. i \<in> K \<longrightarrow> (i, j) \<in> (reads ps)\<^sup>* \<longrightarrow> j \<in> K"
  have "(pl_id p, d) \<in> (reads ps)\<^sup>*" if "p \<in> set ps" "d \<in> set (pl_deps p)" for p d
    using that by (auto simp: reads_def)
  with K show "closed_under ps K" unfolding closed_under_def by blast
qed

lemma reads_inside:
  assumes "in_order {} ps" "(i, j) \<in> (reads ps)\<^sup>*" "i \<in> pl_id ` set ps"
  shows "j \<in> pl_id ` set ps"
  using assms(2,3) by (induction rule: rtrancl_induct) (use in_order_deps [OF assms(1)] in \<open>auto simp: reads_def\<close>)

lemma pruned:
  assumes "in_order {} ps" "closed_under ps chosen" "chosen \<subseteq> pl_id ` set ps"
  shows "prune ps (chosen - skipped_ids s ps) = {i \<in> chosen. survives s ps i}"
proof (intro equalityI subsetI)
  let ?P = "prune ps (chosen - skipped_ids s ps)"
  note p = prune_exact [of ps "chosen - skipped_ids s ps"]
  {
    fix i assume i: "i \<in> ?P"
    have "j \<in> ?P" if "(i, j) \<in> (reads ps)\<^sup>*" for j
      using p [THEN conjunct2, THEN conjunct1, unfolded closed_under_reads] i that by blast
    then have "\<forall>j. (i, j) \<in> (reads ps)\<^sup>* \<longrightarrow> j \<notin> skipped_ids s ps"
      using p [THEN conjunct1] by blast
    moreover have "i \<in> chosen" using p [THEN conjunct1] i by blast
    ultimately show "i \<in> {i \<in> chosen. survives s ps i}"
      using assms(3) by (auto simp: survives_def)
  }
  let ?S = "{i \<in> chosen. survives s ps i}"
  have "?S \<subseteq> chosen - skipped_ids s ps"
    by (auto simp: survives_def)
  moreover have "closed_under ps ?S"
    unfolding closed_under_reads survives_def
    using assms(2) [unfolded closed_under_reads] assms(3) by (auto intro: rtrancl_trans)
  ultimately have "?S \<subseteq> ?P"
    using p [THEN conjunct2, THEN conjunct2] by simp
  then show "i \<in> ?P" if "i \<in> ?S" for i using that by blast
qed

lemma kept_exact:
  assumes "in_order {} ps"
  shows "kept_ids s ps = {i. survives s ps i \<and> wanted s ps i}"
proof (cases "ps_check s = {}")
  case True
  have "closed_under ps (pl_id ` set ps)"
    using in_order_deps [OF assms] by (auto simp: closed_under_def)
  from pruned [OF assms this, of s] True show ?thesis
    by (auto simp: kept_ids_def Let_def wanted_def survives_def)
next
  case False
  let ?ids = "pl_id ` set ps"
  let ?chosen = "close_deps (by_id ps) (\<lambda>i. by_id ps i \<noteq> None) {} (requested s ps)"
  have req: "set (requested s ps) = ps_check s \<inter> ?ids"
    by (auto simp: requested_def)
  have chosen: "?chosen = {j. \<exists>c\<in>ps_check s \<inter> ?ids. (c, j) \<in> (reads ps)\<^sup>*}"
    unfolding close_exact req by_id_None [OF assms]
  proof (intro Collect_cong bex_cong refl iffI)
    fix c j assume "(c, j) \<in> (reads ps)\<^sup>*" "c \<in> ps_check s \<inter> ?ids"
    then show "needs (by_id ps) (\<lambda>i. i \<in> ?ids) c j"
      using reads_needs [OF assms, of c j "\<lambda>i. i \<in> ?ids"] reads_inside [OF assms] by blast
  qed (use needs_reads [OF assms] in blast)
  then have closed: "closed_under ps ?chosen"
    unfolding closed_under_reads by (auto intro: rtrancl_trans)
  have inside: "?chosen \<subseteq> ?ids"
    unfolding chosen using reads_inside [OF assms] by blast
  note kept = pruned [OF assms closed inside, of s]
  let ?kept = "{i \<in> ?chosen. survives s ps i}"
  have survives: "survives s ps i \<Longrightarrow> (i, k) \<in> (reads ps)\<^sup>* \<Longrightarrow> survives s ps k" for i k
    using reads_inside [OF assms] unfolding survives_def by (meson rtrancl_trans)
  have "kept_ids s ps = {j. \<exists>c\<in>ps_check s \<inter> ?ids. needs (by_id ps) (\<lambda>i. i \<in> ?kept) c j}"
  proof -
    have "kept_ids s ps = close_deps (by_id ps) (\<lambda>i. i \<in> ?kept) {} (requested s ps)"
      by (simp only: kept_ids_def Let_def False if_False kept)
    then show ?thesis by (simp only: close_exact req)
  qed
  also have "\<dots> = {j. \<exists>c\<in>ps_check s. survives s ps c \<and> (c, j) \<in> (reads ps)\<^sup>*}"
  proof (intro Collect_cong iffI)
    fix j assume "\<exists>c\<in>ps_check s \<inter> ?ids. needs (by_id ps) (\<lambda>i. i \<in> ?kept) c j"
    then show "\<exists>c\<in>ps_check s. survives s ps c \<and> (c, j) \<in> (reads ps)\<^sup>*"
      using needs_reads [OF assms] by fastforce
  next
    fix j assume "\<exists>c\<in>ps_check s. survives s ps c \<and> (c, j) \<in> (reads ps)\<^sup>*"
    then obtain c where c: "c \<in> ps_check s" "survives s ps c" "(c, j) \<in> (reads ps)\<^sup>*" by blast
    then have "c \<in> ?ids" by (simp add: survives_def)
    moreover have "needs (by_id ps) (\<lambda>i. i \<in> ?kept) c j"
      using c(3)
    proof (rule reads_needs [OF assms])
      fix k assume k: "(c, k) \<in> (reads ps)\<^sup>*"
      then have "k \<in> ?chosen"
        unfolding chosen using c(1) \<open>c \<in> ?ids\<close> by blast
      then show "k \<in> ?kept" using survives [OF c(2) k] by blast
    qed
    ultimately show "\<exists>c\<in>ps_check s \<inter> ?ids. needs (by_id ps) (\<lambda>i. i \<in> ?kept) c j"
      using c(1) by blast
  qed
  also have "\<dots> = {i. survives s ps i \<and> wanted s ps i}"
    using False survives by (auto simp: wanted_def)
  finally show ?thesis .
qed

lemma apply_kept:
  assumes "in_order {} ps"
  shows "apply_selection s ps = filter (\<lambda>p. pl_id p \<in> kept_ids s ps) ps"
proof (cases "ps_check s = {} \<and> skipped_ids s ps = {}")
  case True
  then have "filter (\<lambda>p. pl_id p \<in> kept_ids s ps) ps = ps"
    using kept_exact [OF assms, of s] by (auto simp: survives_def wanted_def intro!: filter_True)
  with True show ?thesis by (simp add: apply_selection_def)
next
  case False
  then show ?thesis by (simp only: apply_selection_def if_False)
qed

text \<open>C11. What a selection keeps, exactly. From the graph of any target a selection keeps, in the
  order of the graph, the nodes that survive and are wanted: nothing such a node reads, directly
  or through other nodes, is skipped or, where reference egress is refused, aimed at reference
  infrastructure; and it was asked for, or a surviving node that was asked for reads it.\<close>

theorem selection_exact:
  "(let ps = build_probes t dns auto explicit
    in apply_selection s ps = filter (\<lambda>p. survives s ps (pl_id p) \<and> wanted s ps (pl_id p)) ps)"
  unfolding Let_def apply_kept [OF probes_in_order] kept_exact [OF probes_in_order] by simp

section \<open>No reference egress\<close>

lemma build_probes_reference:
  "p \<in> set (build_probes t dns auto explicit) \<Longrightarrow>
     pl_reference p \<longleftrightarrow> reference_egress_policy (pl_id p) (t \<noteq> None) (\<not> auto)"
  by (auto simp: build_probes_def)

lemma selected_survives:
  assumes "p \<in> set (apply_selection s ps)" "in_order {} ps"
  shows "p \<in> set ps \<and> survives s ps (pl_id p)"
  using assms(1) unfolding apply_kept [OF assms(2)] kept_exact [OF assms(2)] by simp

text \<open>The graph without a target: every node beside the interface and the wireless network is
  reference egress.\<close>

lemma generic_ids:
  "p \<in> set (build_probes None dns auto explicit) \<Longrightarrow>
     pl_id p \<in> {ProbeIface, ProbeSSID, ProbeInternet, ProbeQUIC, ProbeProxy, ProbeDNS, ProbeDNSPublic, ProbeDNSEncrypted}"
  by (auto simp: build_probes_def build_probe_graph_def common_nodes_def public_dns_nodes_def encrypted_dns_node_def
      network_node_def iface_node_def node_def split: if_splits)

text \<open>C10. A run that refuses reference egress keeps no probe that is aimed at it: never the fixed
  endpoints, the fixed QUIC host, the proxy tunnel or encrypted DNS, no public resolver the run
  chose itself, and without a target nothing beside this machine's own interfaces.\<close>

theorem no_reference_contact:
  assumes "ps_no_reference s" "p \<in> set (selected_probes s t dns auto)"
  shows "\<not> pl_reference p \<and> pl_id p \<notin> {ProbeInternet, ProbeQUIC, ProbeProxy, ProbeDNSEncrypted}
    \<and> (auto \<longrightarrow> pl_id p \<noteq> ProbeDNSPublic) \<and> (t = None \<longrightarrow> pl_id p \<in> {ProbeIface, ProbeSSID})"
proof -
  obtain explicit where sel: "selected_probes s t dns auto = apply_selection s (build_probes t dns auto explicit)"
    unfolding selected_probes_def by blast
  let ?G = "build_probes t dns auto explicit"
  have p: "p \<in> set ?G" "survives s ?G (pl_id p)"
    using selected_survives [OF assms(2) [unfolded sel] probes_in_order] by blast+
  then have "pl_id p \<notin> skipped_ids s ?G"
    unfolding survives_def by blast
  then have plain: "\<not> pl_reference p"
    using assms(1) p(1) by (auto simp: skipped_ids_def)
  then have "\<not> reference_egress_policy (pl_id p) (t \<noteq> None) (\<not> auto)"
    using build_probes_reference [OF p(1)] by simp
  with plain generic_ids [of p dns auto explicit] p(1) show ?thesis
    by (auto simp: reference_egress_policy_def)
qed

definition refusing :: probe_selection where
  "refusing = \<lparr>ps_check = {}, ps_skip = {}, ps_no_reference = True\<rparr>"

theorem no_reference_contact_witness:
  "network_node \<in> set (selected_probes refusing None default_public_dns True) \<and> \<not> pl_reference network_node"
proof -
  have n: "network_node \<in> set (selected_probes refusing None default_public_dns True)"
    by code_simp
  from no_reference_contact [OF _ this] show ?thesis
    using n by (simp add: refusing_def)
qed

section \<open>A run of the selection\<close>

definition plan_probe :: "planned \<Rightarrow> probe" where
  "plan_probe p = \<lparr>pr_id = probe_name (pl_id p), pr_deps = map probe_name (pl_deps p)\<rparr>"

lemma plan_fields [simp]: "pr_id (plan_probe p) = probe_name (pl_id p)" "pr_deps (plan_probe p) = map probe_name (pl_deps p)"
  by (simp_all add: plan_probe_def)

text \<open>The row the diagnosis reads of a result the executor recorded.\<close>

definition row_of_result :: "row probe_result \<Rightarrow> row" where
  "row_of_result r =
     (case rs_rest r of Some x \<Rightarrow> x | None \<Rightarrow> zero_row)\<lparr>row_status := rs_status r, row_detail := rs_detail r\<rparr>"

definition results_of_run :: "(string \<Rightarrow> row probe_result option) \<Rightarrow> results" where
  "results_of_run recorded_rows = (\<lambda>i. map_option row_of_result (recorded_rows (probe_name i)))"

lemma in_order_grounded:
  assumes "in_order seen ps" "set ps \<subseteq> set qs" "\<And>i. i \<in> seen \<Longrightarrow> grounded (map plan_probe qs) (probe_name i)" "p \<in> set ps"
  shows "grounded (map plan_probe qs) (probe_name (pl_id p))"
  using assms
proof (induction ps arbitrary: seen)
  case (Cons q ps)
  have "grounded (map plan_probe qs) (pr_id (plan_probe q))"
    by (rule grounded.Probe) (use Cons.prems in auto)
  then have q: "grounded (map plan_probe qs) (probe_name (pl_id q))"
    by simp
  show ?case
  proof (cases "p = q")
    case False
    show ?thesis
      by (rule Cons.IH [of "insert (pl_id q) seen"]) (use Cons.prems q False in auto)
  qed (use q in simp)
qed simp

lemma selected_in_order: "in_order {} (selected_probes s t dns auto)"
proof -
  obtain explicit where sel: "selected_probes s t dns auto = apply_selection s (build_probes t dns auto explicit)"
    unfolding selected_probes_def by blast
  let ?G = "build_probes t dns auto explicit"
  have "d \<in> kept_ids s ?G" if p: "p \<in> set ?G" "pl_id p \<in> kept_ids s ?G" "d \<in> set (pl_deps p)" for p d
  proof -
    have r: "(pl_id p, d) \<in> reads ?G" using p by (auto simp: reads_def)
    then have inside: "d \<in> pl_id ` set ?G"
      using reads_inside [OF probes_in_order r_into_rtrancl] p(1) by blast
    have survives: "survives s ?G d"
      using p(2) r inside unfolding kept_exact [OF probes_in_order]
      by (auto simp: survives_def intro: converse_rtrancl_into_rtrancl)
    have "wanted s ?G d"
      using p(2) r unfolding kept_exact [OF probes_in_order] wanted_def by (auto intro: rtrancl_into_rtrancl)
    with survives show ?thesis
      unfolding kept_exact [OF probes_in_order] by simp
  qed
  then have "in_order ({} \<inter> kept_ids s ?G) (filter (\<lambda>p. pl_id p \<in> kept_ids s ?G) ?G)"
    by (intro in_order_filter [OF probes_in_order]) blast
  then show ?thesis
    by (simp add: sel apply_kept [OF probes_in_order])
qed

lemma plan_names: "pr_id ` set (map plan_probe ps) \<subseteq> probe_name ` UNIV"
  by (auto simp: plan_probe_def)

lemma names_card: "card (pr_id ` set (map plan_probe ps)) \<le> 15"
proof -
  have "card (pr_id ` set (map plan_probe ps)) \<le> card (probe_name ` UNIV)"
    by (rule card_mono [OF _ plan_names]) simp
  also have "\<dots> \<le> card (UNIV :: probe_id set)" by (rule card_image_le) simp
  also have "\<dots> \<le> 15" unfolding probe_ids by (rule order_trans [OF card_length [of "[_, _, _, _, _, _, _, _, _, _, _, _, _, _, _]", simplified]]) simp
  finally show ?thesis .
qed

text \<open>C9. Every run of a selection concludes. Whatever the target, the resolver and the selection,
  and however the probes answer, the executor ends within thirty turns, and the results it ends
  with give a conclusion: no row of the report is missing, so the run is not called incomplete.\<close>

theorem run_concludes:
  assumes "\<And>p deps. \<exists>r. outcome p deps r"
    "run_reach outcome (map plan_probe (selected_probes s t dns auto)) n st"
  shows "n \<le> 30 \<and> (run_done st \<or> (\<exists>st'. run_step outcome st st'))
    \<and> (run_done st \<longrightarrow> di_verdict (interpret_run t (map pl_id (selected_probes s t dns auto))
          (finalize (results_of_run (ru_results st)))) \<noteq> VerdictIncomplete)"
proof -
  let ?G = "selected_probes s t dns auto"
  have "n \<le> 30"
    using run_bounded_turns [OF assms(2)] names_card [of ?G] by simp
  moreover have "run_done st \<or> (\<exists>st'. run_step outcome st st')"
    using run_not_stuck [of outcome st] assms(1) by blast
  moreover have "di_verdict (interpret_run t (map pl_id ?G) (finalize (results_of_run (ru_results st)))) \<noteq> VerdictIncomplete"
    if fin: "run_done st"
  proof -
    have "has (results_of_run (ru_results st)) (pl_id p)" if "p \<in> set ?G" for p
    proof -
      have "grounded (map plan_probe ?G) (probe_name (pl_id p))"
        by (rule in_order_grounded [OF selected_in_order subset_refl _ that]) simp
      from done_grounded [OF run_inv_reach [OF assms(2)] fin this] show ?thesis
        by (auto simp: has_def results_of_run_def)
    qed
    then have "\<not> list_ex (\<lambda>i. \<not> has (finalize (results_of_run (ru_results st))) i) (map pl_id ?G)"
      by (auto simp: list_ex_iff)
    then show ?thesis
      using interpreted_verdict [of t "map pl_id ?G" "finalize (results_of_run (ru_results st))"]
        table_incomplete [of t "map pl_id ?G" "finalize (results_of_run (ru_results st))"]
      by (auto simp: compared_verdict_def)
  qed
  ultimately show ?thesis by blast
qed

text \<open>Probes that all pass, on the graph without a target.\<close>

definition all_pass :: "probe \<Rightarrow> (string \<Rightarrow> row probe_result option) \<Rightarrow> row probe_result \<Rightarrow> bool" where
  "all_pass p deps r \<longleftrightarrow> r = \<lparr>rs_id = pr_id p, rs_status = StatusPass, rs_detail = [], rs_rest = None\<rparr>"

definition first_pass :: "row run_state" where
  "first_pass = start_run (map plan_probe (selected_probes refusing None default_public_dns True))"

theorem run_concludes_witness: "\<exists>st'. run_step all_pass first_pass st'"
proof -
  let ?G = "selected_probes refusing None default_public_dns True"
  have "\<not> run_done first_pass"
  proof
    assume fin: "run_done first_pass"
    have "iface_node \<in> set ?G" by code_simp
    from in_order_grounded [OF selected_in_order subset_refl _ this] have "grounded (map plan_probe ?G) ''iface''"
      by (simp add: iface_node_def)
    from done_grounded [OF run_inv_start [where outcome = all_pass] fin [unfolded first_pass_def] this] show False
      by (simp add: start_run_def)
  qed
  moreover have "run_reach all_pass (map plan_probe (selected_probes refusing None default_public_dns True)) 0 first_pass"
    unfolding first_pass_def by (rule run_reach.Start)
  ultimately show ?thesis
    using run_concludes [of all_pass refusing None default_public_dns True 0 first_pass] by (auto simp: all_pass_def)
qed

end
