(* ===== verification/Service_Laws.thy ===== *)
theory Service_Laws
  imports Graph_Laws
begin

text \<open>
  What the service verdict rests on, for a run of the executor on a selection of the graph: the
  graph says which rows a row needs, the executor that they did not block it, and the truth table
  which row it accuses.
\<close>

section \<open>What a row needs\<close>

fun needed_rows :: "target \<Rightarrow> probe_id \<Rightarrow> probe_id list list" where
  "needed_rows t ProbeTargetTCP = [[ProbeDNS]]"
| "needed_rows t ProbeTLS = [[ProbeTargetTCP]]"
| "needed_rows t ProbeHTTPS = [[ProbeTLS]]"
| "needed_rows t ProbeHTTP = [[if tg_proto t = ProtoTLSHTTP then ProbeDNS else ProbeTargetTCP]]"
| "needed_rows t ProbeSSH = [[ProbeTargetTCP], [ProbeTLS]]"
| "needed_rows t ProbeSMTP = [[ProbeTargetTCP], [ProbeTLS]]"
| "needed_rows t _ = [[], [ProbeIface], [ProbeTargetTCP]]"

definition needs_rows :: "target \<Rightarrow> planned list \<Rightarrow> bool" where
  "needs_rows t ps \<longleftrightarrow> list_all (\<lambda>p. pl_deps p \<in> set (needed_rows t (pl_id p))) ps"

lemma graph_needs: "needs_rows t (build_probe_graph (Some t) dns auto explicit)"
  by (cases "tg_proto t")
    (simp_all add: needs_rows_def build_probe_graph_def common_nodes_def public_dns_nodes_def encrypted_dns_node_def
      network_node_def iface_node_def protocol_nodes_def banner_node_def Let_def)

lemma selected_needs:
  assumes "p \<in> set (selected_probes s (Some t) dns auto)"
  shows "pl_deps p \<in> set (needed_rows t (pl_id p))"
proof -
  have "needs_rows t (build_probes (Some t) dns auto explicit)" for explicit
    using graph_needs [of t dns auto explicit] by (simp add: needs_rows_def build_probes_def list.pred_map comp_def)
  moreover have "set (apply_selection s ps) \<subseteq> set ps" for ps
    by (auto simp: apply_selection_def)
  ultimately show ?thesis
    using assms unfolding selected_probes_def needs_rows_def list_all_iff by blast
qed

section \<open>What an executed row shows\<close>

lemma probe_name_inj: "probe_name i = probe_name j \<Longrightarrow> i = j"
  by (cases i; cases j) simp_all

text \<open>The row finished and lets the rows that need it run.\<close>

definition passable :: "row run_state \<Rightarrow> probe_id \<Rightarrow> bool" where
  "passable st i \<longleftrightarrow> (\<exists>x. ru_results st (probe_name i) = Some x \<and> \<not> blocks x)"

text \<open>A recorded row was skipped for a row it needs, or ran after every row it needs let it.\<close>

lemma recorded_row:
  assumes "run_inv outcome (map plan_probe ps) st" "ru_results st (probe_name i) = Some r"
  obtains p where "p \<in> set ps" "pl_id p = i"
    "(\<exists>d\<in>set (pl_deps p). \<not> passable st d) \<and> rs_status r = StatusSkip
     \<or> (\<forall>d\<in>set (pl_deps p). passable st d) \<and> (\<exists>deps r0. outcome (plan_probe p) deps r0 \<and> rs_status r = rs_status r0)"
proof -
  have r: "rs_id r = probe_name i" "explained outcome (map plan_probe ps) (ru_results st) r"
    using assms unfolding run_inv_def by blast+
  from r(2) [unfolded explained_def r(1)] obtain q where q: "q \<in> set (map plan_probe ps)" "pr_id q = probe_name i"
    "set (pr_deps q) \<subseteq> dom (ru_results st)"
    "if \<exists>d\<in>set (pr_deps q). \<exists>x. ru_results st d = Some x \<and> blocks x then r = skip_prereq (pr_id q)
     else \<exists>r0. outcome q (deps_of q (ru_results st)) r0 \<and> r = r0\<lparr>rs_id := pr_id q\<rparr>"
    by blast
  from q(1) obtain p where p: "p \<in> set ps" "q = plan_probe p" by auto
  have i: "pl_id p = i" using q(2) p(2) by (intro probe_name_inj) simp
  have pass: "passable st d \<longleftrightarrow> \<not> (\<exists>x. ru_results st (probe_name d) = Some x \<and> blocks x)" if "d \<in> set (pl_deps p)" for d
  proof -
    have "probe_name d \<in> dom (ru_results st)" using q(3) that p(2) by auto
    then show ?thesis by (auto simp: passable_def)
  qed
  show ?thesis
  proof (cases "\<exists>d\<in>set (pr_deps q). \<exists>x. ru_results st d = Some x \<and> blocks x")
    case True
    then have "rs_status r = StatusSkip" using q(4) by (simp add: skip_prereq_def)
    moreover have "\<exists>d\<in>set (pl_deps p). \<not> passable st d" using True pass unfolding p(2) plan_fields by auto
    ultimately show ?thesis using that [OF p(1) i] by blast
  next
    case False
    with q(4) obtain r0 where "outcome q (deps_of q (ru_results st)) r0" "r = r0\<lparr>rs_id := pr_id q\<rparr>"
      by (simp only: if_False) blast
    then have "\<exists>r0. outcome q (deps_of q (ru_results st)) r0 \<and> rs_status r = rs_status r0" by auto
    moreover have "\<forall>d\<in>set (pl_deps p). passable st d" using False pass unfolding p(2) plan_fields by auto
    ultimately show ?thesis using that [OF p(1) i] p(2) by blast
  qed
qed

lemma deps_passable:
  assumes "run_inv outcome (map plan_probe (selected_probes s (Some t) dns auto)) st"
    "ru_results st (probe_name i) = Some r" "rs_status r \<noteq> StatusSkip"
  shows "\<exists>ds\<in>set (needed_rows t i). list_all (passable st) ds"
  using assms(1, 2)
proof (rule recorded_row)
  fix p assume p: "p \<in> set (selected_probes s (Some t) dns auto)" "pl_id p = i"
    "(\<exists>d\<in>set (pl_deps p). \<not> passable st d) \<and> rs_status r = StatusSkip
     \<or> (\<forall>d\<in>set (pl_deps p). passable st d) \<and> (\<exists>deps r0. outcome (plan_probe p) deps r0 \<and> rs_status r = rs_status r0)"
  have "pl_deps p \<in> set (needed_rows t i)" using selected_needs [OF p(1)] p(2) by simp
  moreover have "list_all (passable st) (pl_deps p)" using p(3) assms(3) by (simp add: list_all_iff)
  ultimately show ?thesis by blast
qed

lemma passable_deps:
  assumes "run_inv outcome (map plan_probe (selected_probes s (Some t) dns auto)) st" "passable st i"
  shows "\<exists>ds\<in>set (needed_rows t i). list_all (passable st) ds"
proof -
  obtain x where "ru_results st (probe_name i) = Some x" "rs_status x \<noteq> StatusSkip"
    using assms(2) by (auto simp: passable_def blocks_def)
  from deps_passable [OF assms(1) this] show ?thesis .
qed

text \<open>The target row ran when it let another row run, or when the name was resolved.\<close>

lemma target_ran:
  assumes "run_inv outcome (map plan_probe (selected_probes s (Some t) dns auto)) st"
    "ru_results st (probe_name ProbeTargetTCP) = Some r" "passable st ProbeTargetTCP \<or> passable st ProbeDNS"
  obtains p deps r0 where "pr_id p = probe_name ProbeTargetTCP" "outcome p deps r0" "rs_status r = rs_status r0"
  using assms(1, 2)
proof (rule recorded_row)
  fix p assume p: "p \<in> set (selected_probes s (Some t) dns auto)" "pl_id p = ProbeTargetTCP"
    "(\<exists>d\<in>set (pl_deps p). \<not> passable st d) \<and> rs_status r = StatusSkip
     \<or> (\<forall>d\<in>set (pl_deps p). passable st d) \<and> (\<exists>deps r0. outcome (plan_probe p) deps r0 \<and> rs_status r = rs_status r0)"
  have "pl_deps p = [ProbeDNS]" using selected_needs [OF p(1)] p(2) by simp
  moreover have "rs_status r \<noteq> StatusSkip" if "passable st ProbeTargetTCP"
    using that assms(2) by (simp add: passable_def blocks_def)
  ultimately have "\<exists>deps r0. outcome (plan_probe p) deps r0 \<and> rs_status r = rs_status r0"
    using p(3) assms(3) by auto
  then show ?thesis using that [of "plan_probe p"] p(2) by auto
qed

text \<open>A service row that failed ran on a connection, or on a resolved name where the target is an
  HTTPS one.\<close>

lemma failed_needs:
  assumes inv: "run_inv outcome (map plan_probe (selected_probes s (Some t) dns auto)) st"
    and r: "ru_results st (probe_name i) = Some r" "rs_status r = StatusFail" and i: "i \<in> set service_rows"
  shows "passable st ProbeTargetTCP \<or> i = ProbeHTTP \<and> tg_proto t = ProtoTLSHTTP \<and> passable st ProbeDNS"
proof -
  have tls: "passable st ProbeTLS \<Longrightarrow> passable st ProbeTargetTCP"
    using passable_deps [OF inv, of ProbeTLS] by simp
  have "\<exists>ds\<in>set (needed_rows t i). list_all (passable st) ds"
    by (rule deps_passable [OF inv r(1)]) (simp add: r(2))
  then show ?thesis
    using i tls by (auto simp: service_rows_def split: if_splits)
qed

section \<open>The accusation\<close>

lemma rows_status:
  "row_status (row_at (results_of_run recorded_rows) i) =
     (case recorded_rows (probe_name i) of Some x \<Rightarrow> rs_status x | None \<Rightarrow> StatusPass)"
  by (simp add: results_of_run_def row_at_def row_of_result_def zero_row_def split: option.split)

lemma rows_has: "has (results_of_run recorded_rows) i \<longleftrightarrow> recorded_rows (probe_name i) \<noteq> None"
  by (simp add: results_of_run_def has_def)

lemma service_row_status:
  "i \<in> set service_rows \<Longrightarrow> row_status (row_at (finalize res) i) = row_status (row_at res i)"
  "row_status (row_at (finalize res) ProbeDNS) = row_status (row_at res ProbeDNS)"
  by (auto simp: finalize_status_at service_rows_def)

text \<open>C2. What the service verdict rests on. When a finished run against a target, of any selection
  of its probes, ends in it, the interface and the lookup of the name did not fail and nothing
  intercepted the run. If the connection row was selected, then either that row is present and
  works, and a service row failed on top of it, or it failed although the direct path carried
  other traffic, or a target on this network refused it. A run that did not select the
  connection row accuses a service in one case only, where no connection is shown: the plain HTTP
  row of an HTTPS target failed, which needs no more than the lookup of the name, and that row is
  present and was not skipped. What the target probe answers is a hypothesis: a pass, a
  warning or a failure.\<close>

theorem service_needs_path:
  assumes probe: "\<And>p deps r. pr_id p = probe_name ProbeTargetTCP \<Longrightarrow> outcome p deps r
      \<Longrightarrow> rs_status r \<in> {StatusPass, StatusWarn, StatusFail}"
    and ps: "ps = selected_probes s (Some t) dns auto"
    and run: "run_reach outcome (map plan_probe ps) n st" "run_done st"
    and res: "res = finalize (results_of_run (ru_results st))"
    and verdict: "di_verdict (interpret_run (Some t) (map pl_id ps) res) = VerdictService"
  shows "\<not> failed res ProbeIface \<and> \<not> intercepted res \<and> \<not> failed res ProbeDNS
    \<and> (if ProbeTargetTCP \<in> pl_id ` set ps
        then works res ProbeTargetTCP \<and> list_ex (failed res) service_rows
          \<or> failed res ProbeTargetTCP \<and> (direct_egress_ok res \<or> local_target t res \<and> target_cause res = ConnectionCauseRefused)
        else failed res ProbeHTTP \<and> tg_proto t = ProtoTLSHTTP \<and> has res ProbeDNS \<and> row_status (row_at res ProbeDNS) \<noteq> StatusSkip)"
proof -
  note facts = service_facts [OF verdict]
  have inv: "run_inv outcome (map plan_probe ps) st" by (rule run_inv_reach [OF run(1)])
  note inv' = inv [unfolded ps]
  have tried: "passable st ProbeTargetTCP \<or> (passable st ProbeDNS \<and> tg_proto t = ProtoTLSHTTP \<and> failed res ProbeHTTP)"
    if "\<not> failed res ProbeTargetTCP"
  proof -
    have "list_ex (failed res) service_rows" using facts(5) that by blast
    then obtain i where i: "i \<in> set service_rows" "failed res i"
      by (auto simp: list_ex_iff)
    then have "has (results_of_run (ru_results st)) i" "row_status (row_at (results_of_run (ru_results st)) i) = StatusFail"
      by (simp_all add: status_is_row_at res service_row_status)
    then obtain r where "ru_results st (probe_name i) = Some r" "rs_status r = StatusFail"
      by (auto simp: rows_status rows_has)
    from failed_needs [OF inv' this i(1)] i(2) show ?thesis by blast
  qed
  have dns: "has res ProbeDNS \<and> row_status (row_at res ProbeDNS) \<noteq> StatusSkip" if "passable st ProbeDNS"
    using that by (auto simp: passable_def blocks_def res service_row_status rows_status rows_has)
  show ?thesis
  proof (cases "ProbeTargetTCP \<in> pl_id ` set ps")
    case True
    then obtain p where p: "p \<in> set ps" "pl_id p = ProbeTargetTCP" by auto
    have "grounded (map plan_probe ps) (probe_name ProbeTargetTCP)"
      using in_order_grounded [OF selected_in_order subset_refl _ p(1) [unfolded ps]] p(2) by (simp add: ps)
    then obtain r where r: "ru_results st (probe_name ProbeTargetTCP) = Some r"
      using done_grounded [OF inv run(2)] by blast
    have "works res ProbeTargetTCP" if ok: "\<not> failed res ProbeTargetTCP"
    proof -
      have "passable st ProbeTargetTCP \<or> passable st ProbeDNS" using tried [OF ok] by blast
      from target_ran [OF inv' r this] probe have "rs_status r \<in> {StatusPass, StatusWarn, StatusFail}" by metis
      moreover have "row_status (row_at res ProbeTargetTCP) \<in> {StatusWarn, rs_status r}"
        using r by (simp add: res finalize_status_at rows_status)
      ultimately show ?thesis
        using ok r by (auto simp: works_def functional_def status_is_row_at res rows_has)
    qed
    then show ?thesis
      using True facts by auto
  next
    case False
    have "ru_results st (probe_name ProbeTargetTCP) = None"
    proof (rule ccontr)
      assume "ru_results st (probe_name ProbeTargetTCP) \<noteq> None"
      then obtain r where "ru_results st (probe_name ProbeTargetTCP) = Some r" by blast
      with inv obtain p where "p \<in> set ps" "pl_id p = ProbeTargetTCP" by (rule recorded_row)
      with False show False by (metis imageI)
    qed
    then have "\<not> failed res ProbeTargetTCP" "\<not> passable st ProbeTargetTCP"
      by (simp_all add: passable_def status_is_row_at res rows_has)
    with tried dns False facts(1-3) show ?thesis by simp
  qed
qed

section \<open>Two runs\<close>

text \<open>Probes that answer the same whatever they are given, none of which blocks another.\<close>

definition answering :: "(string \<Rightarrow> row probe_result) \<Rightarrow> probe \<Rightarrow> (string \<Rightarrow> row probe_result option) \<Rightarrow> row probe_result" where
  "answering ans p deps = ans (pr_id p)"

lemma answers_settle:
  assumes "grounded ps i" "\<And>i. rs_id (ans i) = i" "\<And>p d. p \<in> set ps \<Longrightarrow> d \<in> set (pr_deps p) \<Longrightarrow> \<not> blocks (ans d)"
  shows "settles (answering ans) ps i (ans i)"
  using assms(1)
proof (induction rule: grounded.induct)
  case (Probe p)
  have "ans (pr_id p) = (ans (pr_id p))\<lparr>rs_id := pr_id p\<rparr>"
    using assms(2) [of "pr_id p"] by (cases "ans (pr_id p)") simp
  then show ?case
    using assms(3) [OF Probe.hyps(1)] by (intro settles.Settle [OF Probe.hyps(1) Probe.IH]) (auto simp: answering_def)
qed

lemma answers_recorded:
  assumes "in_order {} ps" "\<And>i. rs_id (ans i) = i"
    "\<And>p d. p \<in> set ps \<Longrightarrow> d \<in> set (pl_deps p) \<Longrightarrow> \<not> blocks (ans (probe_name d))"
    "run_reach (function_outcome (answering ans)) (map plan_probe ps) n st" "run_done st"
  shows "ru_results st = (\<lambda>i. if i \<in> set (map (probe_name \<circ> pl_id) ps) then Some (ans i) else None)"
proof
  fix i
  have ids: "distinct (map pr_id (map plan_probe ps))"
    using in_order_distinct [OF assms(1)] by (auto simp: comp_def distinct_map inj_on_def dest!: probe_name_inj)
  show "ru_results st i = (if i \<in> set (map (probe_name \<circ> pl_id) ps) then Some (ans i) else None)"
  proof (cases "i \<in> set (map (probe_name \<circ> pl_id) ps)")
    case True
    then obtain p where p: "p \<in> set ps" "i = probe_name (pl_id p)" by auto
    have "grounded (map plan_probe ps) i"
      using in_order_grounded [OF assms(1) subset_refl _ p(1)] p(2) by simp
    then have "settles (answering ans) (map plan_probe ps) i (ans i)"
      by (rule answers_settle) (use assms(2, 3) in auto)
    from settles_recorded [OF run_inv_reach [OF assms(4)] assms(5) ids this] True show ?thesis by simp
  next
    case False
    have "\<not> grounded (map plan_probe ps) i"
    proof
      assume "grounded (map plan_probe ps) i"
      then show False by (cases rule: grounded.cases) (use False in auto)
    qed
    then show ?thesis
      using results_grounded [OF assms(4), of i] False by (cases "ru_results st i") auto
  qed
qed

text \<open>Every probe passes but the plain HTTP one, on an HTTPS target: once where nothing else was
  asked for, and once beside the HTTPS row.\<close>

definition http_fails :: "string \<Rightarrow> row probe_result" where
  "http_fails i =
     \<lparr>rs_id = i, rs_status = (if i = probe_name ProbeHTTP then StatusFail else StatusPass), rs_detail = [], rs_rest = None\<rparr>"

definition asks :: "probe_id set \<Rightarrow> probe_selection" where
  "asks rows = \<lparr>ps_check = rows, ps_skip = {}, ps_no_reference = False\<rparr>"

abbreviation lab_probes :: "probe_id set \<Rightarrow> planned list" where
  "lab_probes rows \<equiv> selected_probes (asks rows) (Some lab_target) default_public_dns True"

definition lab_results :: "probe_id set \<Rightarrow> results" where
  "lab_results rows = finalize (results_of_run (\<lambda>i.
     if i \<in> set (map (probe_name \<circ> pl_id) (lab_probes rows)) then Some (http_fails i) else None))"

definition accuses :: "probe_id set \<Rightarrow> bool" where
  "accuses rows \<longleftrightarrow> di_verdict (interpret_run (Some lab_target) (map pl_id (lab_probes rows)) (lab_results rows)) = VerdictService"

lemma lab_accuses:
  "accuses {ProbeHTTP}" "ProbeTargetTCP \<notin> set (map pl_id (lab_probes {ProbeHTTP}))"
  "accuses {ProbeHTTP, ProbeHTTPS}" "ProbeTargetTCP \<in> set (map pl_id (lab_probes {ProbeHTTP, ProbeHTTPS}))"
  "\<not> failed (lab_results {ProbeHTTP, ProbeHTTPS}) ProbeTargetTCP"
  by code_simp+

lemma lab_needs:
  "list_all (\<lambda>p. ProbeHTTP \<notin> set (pl_deps p)) (lab_probes {ProbeHTTP})"
  "list_all (\<lambda>p. ProbeHTTP \<notin> set (pl_deps p)) (lab_probes {ProbeHTTP, ProbeHTTPS})"
  by code_simp+

lemma lab_run:
  assumes "list_all (\<lambda>p. ProbeHTTP \<notin> set (pl_deps p)) (lab_probes rows)"
  shows "\<exists>n st. run_reach (function_outcome (answering http_fails)) (map plan_probe (lab_probes rows)) n st
    \<and> run_done st \<and> finalize (results_of_run (ru_results st)) = lab_results rows"
proof -
  obtain n st where run: "run_reach (function_outcome (answering http_fails)) (map plan_probe (lab_probes rows)) n st"
    "run_done st"
    using run_completes [of "function_outcome (answering http_fails)" "map plan_probe (lab_probes rows)"]
    unfolding function_outcome_def by blast
  have "ru_results st = (\<lambda>i. if i \<in> set (map (probe_name \<circ> pl_id) (lab_probes rows)) then Some (http_fails i) else None)"
  proof (rule answers_recorded [OF selected_in_order _ _ run])
    fix p d
    assume "p \<in> set (lab_probes rows)" "d \<in> set (pl_deps p)"
    with assms have "d \<noteq> ProbeHTTP" by (auto simp: list_all_iff)
    then have "probe_name d \<noteq> probe_name ProbeHTTP" using probe_name_inj by blast
    then show "\<not> blocks (http_fails (probe_name d))" by (simp add: http_fails_def blocks_def)
  qed (simp add: http_fails_def)
  then have "finalize (results_of_run (ru_results st)) = lab_results rows"
    unfolding lab_results_def by simp
  with run show ?thesis by blast
qed

theorem service_needs_path_witness:
  "\<exists>n st m st'. run_reach (function_outcome (answering http_fails)) (map plan_probe (lab_probes {ProbeHTTP})) n st
    \<and> run_done st \<and> failed (finalize (results_of_run (ru_results st))) ProbeHTTP
    \<and> has (finalize (results_of_run (ru_results st))) ProbeDNS
    \<and> run_reach (function_outcome (answering http_fails)) (map plan_probe (lab_probes {ProbeHTTP, ProbeHTTPS})) m st'
    \<and> run_done st' \<and> works (finalize (results_of_run (ru_results st'))) ProbeTargetTCP"
proof -
  have answers: "rs_status r \<in> {StatusPass, StatusWarn, StatusFail}"
    if "function_outcome (answering http_fails) p deps r" for p deps r
    using that by (auto simp: function_outcome_def answering_def http_fails_def)
  note rests = service_needs_path [where outcome = "function_outcome (answering http_fails)" and t = lab_target
      and dns = default_public_dns and auto = True, OF answers refl _ _ refl]
  obtain n st where one: "run_reach (function_outcome (answering http_fails)) (map plan_probe (lab_probes {ProbeHTTP})) n st"
    "run_done st" "finalize (results_of_run (ru_results st)) = lab_results {ProbeHTTP}"
    using lab_run [of "{ProbeHTTP}"] lab_needs by blast
  obtain m st' where two: "run_reach (function_outcome (answering http_fails)) (map plan_probe (lab_probes {ProbeHTTP, ProbeHTTPS})) m st'"
    "run_done st'" "finalize (results_of_run (ru_results st')) = lab_results {ProbeHTTP, ProbeHTTPS}"
    using lab_run [of "{ProbeHTTP, ProbeHTTPS}"] lab_needs by blast
  have "failed (lab_results {ProbeHTTP}) ProbeHTTP \<and> has (lab_results {ProbeHTTP}) ProbeDNS"
    using rests [OF _ one(1, 2), unfolded one(3)] lab_accuses(1, 2) by (auto simp: accuses_def)
  moreover have "works (lab_results {ProbeHTTP, ProbeHTTPS}) ProbeTargetTCP"
    using rests [OF _ two(1, 2), unfolded two(3)] lab_accuses(3-5) by (auto simp: accuses_def)
  ultimately show ?thesis
    using one two by metis
qed

end
