(* ===== verification/Watch.thy ===== *)
theory Watch
  imports Probe_Graph
begin

text \<open>
  Watch sessions: \<^verbatim>\<open>internal/diagnostic/watch.go\<close>. A pass over the graph may answer
  some rows from their last passing observation, under rules about two clocks, about what the
  row was measured from, and about reported changes of the network. Readings of the clocks are
  arguments of the operations. A fingerprint keeps apart the printed values that the code
  joins in one text. The rows of a pass ask and finish in any order, each as one step.
\<close>

section \<open>Clocks\<close>

text \<open>\<^verbatim>\<open>time.Time\<close>: nanoseconds of the wall clock since the zero time, and of the
  monotonic clock where it has a reading. A \<^verbatim>\<open>Duration\<close> has 64 bits, and
  \<^verbatim>\<open>Sub\<close> saturates.\<close>

record instant =
  in_wall :: int
  in_mono :: "int option"

definition zero_instant :: instant where
  "zero_instant = \<lparr>in_wall = 0, in_mono = None\<rparr>"

definition saturate_dur :: "int \<Rightarrow> int" where
  "saturate_dur d = max (- (2 ^ 63)) (min max_duration d)"

definition elapsed :: "instant \<Rightarrow> instant \<Rightarrow> int \<times> int" where
  "elapsed now before =
     (let wall = saturate_dur (in_wall now - in_wall before)
      in (case (in_mono now, in_mono before) of (Some a, Some b) \<Rightarrow> saturate_dur (a - b) | _ \<Rightarrow> wall, wall))"

definition seconds :: "int \<Rightarrow> int" where
  "seconds n = n * 1000000000"

definition watch_max_age :: int where
  "watch_max_age = seconds 60"

definition in_window :: "int \<Rightarrow> int \<Rightarrow> bool" where
  "in_window age window \<longleftrightarrow> 0 \<le> age \<and> age < window"

definition fresh_ages :: "int \<Rightarrow> int \<Rightarrow> bool" where
  "fresh_ages steady wall \<longleftrightarrow> in_window steady watch_max_age \<and> in_window wall watch_max_age"

definition within_age :: "instant \<Rightarrow> instant \<Rightarrow> bool" where
  "within_age now before = (case elapsed now before of (steady, wall) \<Rightarrow> fresh_ages steady wall)"

definition drift_floor :: int where
  "drift_floor = seconds 1"

definition drift_cap :: int where
  "drift_cap = seconds 10"

definition drift_allowance :: "int \<Rightarrow> int" where
  "drift_allowance steady = min (drift_floor + steady div 2000) drift_cap"

definition pass_current :: "int \<Rightarrow> int \<Rightarrow> int \<Rightarrow> bool" where
  "pass_current steady wall window \<longleftrightarrow>
     in_window steady window \<and> in_window wall window \<and> \<bar>wall - steady\<bar> \<le> drift_allowance steady"

text \<open>The unbiased count has units of 100 ns.\<close>

definition unbiased_tick :: int where
  "unbiased_tick = 100"

definition ticks_elapsed :: "64 word \<Rightarrow> 64 word \<Rightarrow> int" where
  "ticks_elapsed start stop =
     (if stop < start then - 1
      else let ticks = stop - start
           in if uint ticks > max_duration div unbiased_tick then max_duration else uint ticks * unbiased_tick)"

definition unbiased_current :: "int \<Rightarrow> int \<Rightarrow> int \<Rightarrow> bool" where
  "unbiased_current steady working window \<longleftrightarrow>
     in_window steady window \<and> in_window working window \<and> \<bar>steady - working\<bar> \<le> drift_allowance steady"

section \<open>The window of a pass\<close>

definition deps_by_id :: "planned list \<Rightarrow> probe_id \<Rightarrow> probe_id list" where
  "deps_by_id ps i = (case by_id ps i of Some p \<Rightarrow> pl_deps p | None \<Rightarrow> [])"

text \<open>The longest of the chains below some rows, with the table of the rows already measured. A
  row has the value 1 in the table while the rows below it are measured.\<close>

function longest_chain :: "(probe_id \<Rightarrow> probe_id list) \<Rightarrow> (probe_id \<Rightarrow> nat option) \<Rightarrow> probe_id list \<Rightarrow> nat
    \<Rightarrow> nat \<times> (probe_id \<Rightarrow> nat option)" where
  "longest_chain deps memo [] longest = (longest, memo)"
| "longest_chain deps memo (i # is) longest =
     (case memo i of
        Some d \<Rightarrow> longest_chain deps memo is (max longest d)
      | None \<Rightarrow>
          (case longest_chain deps (memo(i \<mapsto> 1)) (deps i) 0 of
             (below, memo') \<Rightarrow> longest_chain deps (memo'(i \<mapsto> below + 1)) is (max longest (below + 1))))"
  by pat_completeness auto

lemma longest_chain_grows:
  "longest_chain_dom (deps, memo, ids, longest) \<Longrightarrow> dom memo \<subseteq> dom (snd (longest_chain deps memo ids longest))"
proof (induction rule: longest_chain.pinduct)
  case (2 deps memo i "is" longest)
  show ?case
  proof (cases "memo i")
    case (Some d)
    show ?thesis
      using 2(4) [OF Some] by (simp add: longest_chain.psimps(2) [OF 2(1)] Some)
  next
    case None
    obtain below memo' where m: "longest_chain deps (memo(i \<mapsto> 1)) (deps i) 0 = (below, memo')"
      by (cases "longest_chain deps (memo(i \<mapsto> 1)) (deps i) 0")
    have "dom (memo(i \<mapsto> 1)) \<subseteq> dom memo'"
      using 2(2) [OF None] unfolding m snd_conv .
    moreover have "dom (memo'(i \<mapsto> below + 1)) \<subseteq> dom (snd (longest_chain deps (memo'(i \<mapsto> below + 1)) is (max longest (below + 1))))"
      using 2(3) [OF None m [symmetric]] .
    ultimately have "dom memo \<subseteq> dom (snd (longest_chain deps (memo'(i \<mapsto> below + 1)) is (max longest (below + 1))))"
      unfolding dom_fun_upd by auto
    then show ?thesis
      unfolding longest_chain.psimps(2) [OF 2(1)] None m by simp
  qed
qed (simp add: longest_chain.psimps)

lemma more_measured: "dom m \<subseteq> dom m' \<Longrightarrow> i \<notin> dom m \<Longrightarrow> i \<in> dom m' \<Longrightarrow> card (- dom m') < card (- dom (m :: probe_id \<Rightarrow> nat option))"
  by (rule psubset_card_mono) auto

termination longest_chain
proof (relation "measures [\<lambda>(deps, memo, ids, longest). card (- dom memo), \<lambda>(deps, memo, ids, longest). length ids]")
  fix deps memo i "is" longest below memo'
  assume "memo i = None" "(below, memo') = longest_chain deps (memo(i \<mapsto> 1)) (deps i) 0"
    "longest_chain_dom (deps, memo(i \<mapsto> 1), deps i, 0)"
  then have "dom (memo(i \<mapsto> 1)) \<subseteq> dom memo'"
    using longest_chain_grows [of deps "memo(i \<mapsto> 1)" "deps i" 0] by (metis snd_conv)
  then have "card (- dom (memo'(i \<mapsto> below + 1))) < card (- dom memo)"
    by (intro more_measured) (use \<open>memo i = None\<close> in auto)
  then show "((deps, memo'(i \<mapsto> below + 1), is, max longest (below + 1)), deps, memo, i # is, longest)
      \<in> measures [\<lambda>(deps, memo, ids, longest). card (- dom memo), \<lambda>(deps, memo, ids, longest). length ids]"
    by simp
next
  fix deps memo i "is" longest
  assume "(memo :: probe_id \<Rightarrow> nat option) i = None"
  then have "card (- dom (memo(i \<mapsto> 1))) < card (- dom memo)"
    by (intro more_measured) auto
  then show "((deps, memo(i \<mapsto> 1), deps i, 0), deps, memo, i # is, longest)
      \<in> measures [\<lambda>(deps, memo, ids, longest). card (- dom memo), \<lambda>(deps, memo, ids, longest). length ids]"
    by simp
qed auto

definition chain_depth :: "planned list \<Rightarrow> nat" where
  "chain_depth base = fst (longest_chain (deps_by_id base) (\<lambda>_. None) (map pl_id base) 0)"

definition default_probe_timeout :: int where
  "default_probe_timeout = seconds 4"

definition pass_window :: "planned list \<Rightarrow> int \<Rightarrow> int" where
  "pass_window base timeout =
     (let timeout = (if timeout \<le> 0 then default_probe_timeout else timeout); limit = int (2 * chain_depth base)
      in if limit = 0 then watch_max_age
         else if timeout > max_duration div limit then max_duration
         else max watch_max_age (timeout * limit))"

text \<open>Every row one row reads, directly or through another, from a stack whose top is the head.\<close>

function ancestors_from :: "(probe_id \<Rightarrow> probe_id list) \<Rightarrow> probe_id list \<Rightarrow> probe_id list \<Rightarrow> probe_id list" where
  "ancestors_from deps out [] = out"
| "ancestors_from deps out (i # stack) =
     (if i \<in> set out then ancestors_from deps out stack
      else ancestors_from deps (out @ [i]) (rev (deps i) @ stack))"
  by pat_completeness auto
termination
  by (relation "measures [\<lambda>(deps, out, stack). card (- set out), \<lambda>(deps, out, stack). length stack]")
    (auto intro!: psubset_card_mono)

definition ancestors_of :: "planned list \<Rightarrow> probe_id \<Rightarrow> probe_id list" where
  "ancestors_of base i = ancestors_from (deps_by_id base) [] (rev (deps_by_id base i))"

section \<open>Rows and fingerprints\<close>

text \<open>The fields of a result that no rule of the diagnosis reads, with the text and the
  duration of each attempt.\<close>

record watched = row +
  wr_network :: string
  wr_resolver_targets :: "string list"
  wr_cleartext :: bool
  wr_errors :: "string list"
  wr_dur :: int
  wr_attempt_durs :: "int list"
  wr_acquisition :: "64 word"
  wr_reused_from :: "instant option"

text \<open>A route as \<^verbatim>\<open>%+v\<close> prints it: the addresses as text, so that the two forms of an
  IPv4 address are one.\<close>

definition printed_route :: "route_decision \<Rightarrow> string \<times> string \<times> string \<times> route_decision" where
  "printed_route d =
     (ip_string (rd_destination d), ip_string (rd_gateway d), ip_string (rd_source d),
      d\<lparr>rd_destination := [], rd_gateway := [], rd_source := []\<rparr>)"

record fingerprint =
  fp_outcome :: "status \<times> cause \<times> family"
  fp_iface :: "string \<times> bool \<times> string"
  fp_selected :: string
  fp_source :: string
  fp_addrs :: "string list"
  fp_not_found :: bool
  fp_resolvers :: "string list \<times> string"
  fp_routes :: "(string \<times> string \<times> string \<times> route_decision) list"
  fp_alternates :: "(family \<times> default_route list) list"
  fp_flags :: "bool \<times> bool \<times> bool"
  fp_families :: "family_connectivity option"
  fp_portal :: "string option"
  fp_attempts :: "(string \<times> bool \<times> cause \<times> string) list"

definition fingerprint_of :: "watched \<Rightarrow> fingerprint" where
  "fingerprint_of r =
     \<lparr>fp_outcome = (row_status r, row_cause r, row_cause_family r),
      fp_iface = (row_iface r, row_iface_ambiguous r, wr_network r),
      fp_selected = ip_string (row_selected r), fp_source = ip_string (row_source r),
      fp_addrs = map ip_string (row_addrs r), fp_not_found = row_not_found r,
      fp_resolvers = (wr_resolver_targets r, row_resolver r),
      fp_routes = map printed_route (row_routes r), fp_alternates = map (\<lambda>f. (f, row_alternates r f)) [NoFamily, IPv4, IPv6],
      fp_flags = (row_downgraded r, row_timed_out r, wr_cleartext r),
      fp_families = row_families r, fp_portal = row_portal r,
      fp_attempts = map (\<lambda>(a, e). (ip_string (at_ip a), at_aborted a, at_cause a, e)) (zip (row_attempts r) (wr_errors r))\<rparr>"

section \<open>Sessions and passes\<close>

definition watch_reusable :: "probe_id set" where
  "watch_reusable =
     {ProbeTLS, ProbeHTTP, ProbeHTTPS, ProbeSSH, ProbeSMTP, ProbeQUIC, ProbeDNSEncrypted, ProbeProxy}"

record watch_observation =
  ob_result :: watched
  ob_fp :: fingerprint
  ob_sampled :: instant
  ob_generation :: "64 word"
  ob_inputs :: "probe_id \<Rightarrow> fingerprint option"

type_synonym watch_cache = "probe_id \<Rightarrow> watch_observation option"
type_synonym watch_results = "probe_id \<Rightarrow> watched option"

record watch_session =
  ws_cache :: watch_cache
  ws_last :: "probe_id \<Rightarrow> (status \<times> cause) option"
  ws_path :: string
  ws_settled :: bool
  ws_last_full :: instant
  ws_force :: bool
  ws_requests :: "64 word"
  ws_generation :: "64 word"

record watch_pass =
  wp_at :: instant
  wp_force :: bool
  wp_requested :: "64 word"
  wp_generation :: "64 word"
  wp_window :: int
  wp_start :: "64 word option"
  wp_probes :: "planned list"
  wp_cache :: watch_cache
  wp_ancestors :: "probe_id \<Rightarrow> probe_id list"
  wp_ran :: watch_cache
  wp_reused :: "probe_id set"
  wp_fingerprints :: "probe_id \<Rightarrow> fingerprint option"

definition new_watch_session :: watch_session where
  "new_watch_session =
     \<lparr>ws_cache = (\<lambda>_. None), ws_last = (\<lambda>_. None), ws_path = [], ws_settled = False,
      ws_last_full = zero_instant, ws_force = True, ws_requests = 0, ws_generation = 0\<rparr>"

definition force_session :: "watch_session \<Rightarrow> watch_session" where
  "force_session s = s\<lparr>ws_force := True, ws_requests := ws_requests s + 1\<rparr>"

definition invalidate :: "watch_session \<Rightarrow> watch_session" where
  "invalidate s = s\<lparr>ws_generation := ws_generation s + 1\<rparr>"

text \<open>The unbiased count of the session: \<open>None\<close> where the platform needs none, \<open>Some None\<close> where
  it cannot be read now.\<close>

definition begin_pass :: "watch_session \<Rightarrow> planned list \<Rightarrow> int \<Rightarrow> instant \<Rightarrow> 64 word option option \<Rightarrow> watch_pass" where
  "begin_pass s base timeout now unbiased =
     \<lparr>wp_at = now,
      wp_force = (ws_force s \<or> \<not> ws_settled s \<or> \<not> within_age now (ws_last_full s)),
      wp_requested = ws_requests s, wp_generation = ws_generation s,
      wp_window = (if unbiased = Some None then watch_max_age else pass_window base timeout),
      wp_start = (case unbiased of Some (Some ticks) \<Rightarrow> Some ticks | _ \<Rightarrow> None),
      wp_probes = base, wp_cache = ws_cache s, wp_ancestors = ancestors_of base,
      wp_ran = (\<lambda>_. None), wp_reused = {}, wp_fingerprints = (\<lambda>_. None)\<rparr>"

definition reused_row :: "watch_observation \<Rightarrow> watched" where
  "reused_row ob =
     (ob_result ob)\<lparr>wr_dur := 0, wr_acquisition := 0, wr_reused_from := Some (ob_sampled ob),
       wr_attempt_durs := map (\<lambda>_. 0) (wr_attempt_durs (ob_result ob))\<rparr>"

text \<open>An input that was not recorded reads as the empty text, which is no fingerprint.\<close>

definition unchanged :: "watch_pass \<Rightarrow> probe_id \<Rightarrow> watch_observation \<Rightarrow> bool" where
  "unchanged p i ob \<longleftrightarrow>
     list_all (\<lambda>a. wp_fingerprints p a \<noteq> None \<and> wp_fingerprints p a = ob_inputs ob a) (wp_ancestors p i)"

definition reuse :: "watch_session \<Rightarrow> watch_pass \<Rightarrow> probe_id \<Rightarrow> instant \<Rightarrow> watch_observation option" where
  "reuse s p i now =
     (if wp_force p then None
      else case wp_cache p i of
        None \<Rightarrow> None
      | Some ob \<Rightarrow>
          if ob_generation ob \<noteq> ws_generation s then None
          else if \<not> within_age now (ob_sampled ob) then None
          else if unchanged p i ob then Some ob else None)"

text \<open>What \<^verbatim>\<open>wrap\<close> makes of a row: it answers from the cache,\<close>

definition ask_row :: "watch_session \<Rightarrow> watch_pass \<Rightarrow> probe_id \<Rightarrow> instant \<Rightarrow> (watch_pass \<times> watched) option" where
  "ask_row s p i now =
     (if i \<in> watch_reusable then
        map_option (\<lambda>ob. (p\<lparr>wp_reused := insert i (wp_reused p), wp_fingerprints := (wp_fingerprints p)(i \<mapsto> ob_fp ob)\<rparr>,
          reused_row ob)) (reuse s p i now)
      else None)"

text \<open>or runs, with \<open>sampled\<close> read before it ran.\<close>

definition record_row :: "watch_pass \<Rightarrow> probe_id \<Rightarrow> fingerprint \<Rightarrow> instant \<Rightarrow> watched \<Rightarrow> watch_pass" where
  "record_row p i fp sampled r =
     (if list_all (\<lambda>a. wp_fingerprints p a \<noteq> None) (wp_ancestors p i) then
        p\<lparr>wp_ran := (wp_ran p)(i \<mapsto>
          \<lparr>ob_result = r, ob_fp = fp, ob_sampled = sampled, ob_generation = wp_generation p,
           ob_inputs = (\<lambda>a. if a \<in> set (wp_ancestors p i) then wp_fingerprints p a else None)\<rparr>)\<rparr>
      else p)"

definition finish_row :: "watch_pass \<Rightarrow> probe_id \<Rightarrow> instant \<Rightarrow> watched \<Rightarrow> watch_pass" where
  "finish_row p i sampled r =
     (let fp = fingerprint_of r; p' = p\<lparr>wp_fingerprints := (wp_fingerprints p)(i \<mapsto> fp)\<rparr>
      in if i \<in> watch_reusable \<and> row_status r = StatusPass then record_row p' i fp sampled r else p')"

definition fresh_pass :: "watch_pass \<Rightarrow> bool" where
  "fresh_pass p \<longleftrightarrow> wp_reused p = {}"

definition straddled :: "watch_session \<Rightarrow> watch_pass \<Rightarrow> bool" where
  "straddled s p \<longleftrightarrow> ws_generation s \<noteq> wp_generation p"

section \<open>Publishing\<close>

fun tunnel_string :: "tunnel_state \<Rightarrow> string" where
  "tunnel_string TunnelUnknown = []"
| "tunnel_string TunnelDirect = ''direct''"
| "tunnel_string TunnelLikely = ''likely''"
| "tunnel_string TunnelKnown = ''tunnel''"

definition decision_line :: "probe_id \<Rightarrow> route_decision \<Rightarrow> string" where
  "decision_line i d =
     join [probe_name i, rd_iface d, ip_string (rd_gateway d), ip_string (rd_source d), tunnel_string (rd_tunnel d)] '' ''"

text \<open>The results are visited in the order of the identifiers; the sort makes it immaterial.\<close>

definition path_rows :: "probe_id list" where
  "path_rows =
     [ProbeIface, ProbeSSID, ProbeInternet, ProbeDNS, ProbeDNSPublic, ProbeTargetTCP, ProbePMTU]"

definition path_lines :: "watch_results \<Rightarrow> probe_id \<Rightarrow> string list" where
  "path_lines res i = (case res i of Some r \<Rightarrow> map (decision_line i) (row_routes r) | None \<Rightarrow> [])"

definition path_of :: "watch_results \<Rightarrow> string" where
  "path_of res = join (sort (concat (map (path_lines res) path_rows))) [CHR 0x0A]"

definition verdicts_of :: "watch_results \<Rightarrow> probe_id \<Rightarrow> (status \<times> cause) option" where
  "verdicts_of res = (\<lambda>i. map_option (\<lambda>r. (row_status r, row_cause r)) (res i))"

definition ok_result :: "watched option \<Rightarrow> bool" where
  "ok_result r = (case r of Some r \<Rightarrow> row_status r \<noteq> StatusFail | None \<Rightarrow> False)"

definition settled_by :: "watch_pass \<Rightarrow> watch_results \<Rightarrow> bool" where
  "settled_by p res \<longleftrightarrow> list_all (\<lambda>q. ok_result (res (pl_id q))) (wp_probes p)"

definition unbiased_ok :: "watch_pass \<Rightarrow> int \<Rightarrow> 64 word option \<Rightarrow> bool" where
  "unbiased_ok p steady reading =
     (case wp_start p of
        None \<Rightarrow> True
      | Some start \<Rightarrow>
          (case reading of
             None \<Rightarrow> False
           | Some ticks \<Rightarrow> unbiased_current steady (ticks_elapsed start ticks) (wp_window p)))"

definition sampled_within :: "instant \<Rightarrow> watch_observation option \<Rightarrow> bool" where
  "sampled_within now ob = (case ob of Some ob \<Rightarrow> within_age now (ob_sampled ob) | None \<Rightarrow> within_age now zero_instant)"

definition current :: "watch_pass \<Rightarrow> instant \<Rightarrow> 64 word option \<Rightarrow> bool" where
  "current p now reading =
     (case elapsed now (wp_at p) of (steady, wall) \<Rightarrow>
        pass_current steady wall (wp_window p) \<and> unbiased_ok p steady reading \<and>
        (\<forall>i \<in> wp_reused p. sampled_within now (wp_cache p i)))"

definition publish :: "watch_session \<Rightarrow> watch_pass \<Rightarrow> watch_results \<Rightarrow> instant \<Rightarrow> 64 word option \<Rightarrow> watch_session \<times> bool" where
  "publish s p res now reading =
     (let verdicts = verdicts_of res; path = path_of res
      in if \<not> current p now reading \<or>
          (\<not> wp_force p \<and> wp_reused p \<noteq> {} \<and> (ws_last s \<noteq> verdicts \<or> path \<noteq> ws_path s))
         then (force_session s, False)
         else
           (s\<lparr>ws_cache := (\<lambda>i. if i \<in> wp_reused p then wp_cache p i else wp_ran p i),
              ws_last := verdicts, ws_path := path, ws_settled := settled_by p res,
              ws_last_full := (if wp_reused p = {} then wp_at p else ws_last_full s),
              ws_force := (if ws_requests s = wp_requested p then False else ws_force s)\<rparr>, True))"

end
