(* ===== verification/Watch_Laws.thy ===== *)
theory Watch_Laws
  imports Watch Graph_Laws
begin

text \<open>
  What a watch session guarantees. The window of a pass covers the deepest chain of rows, the
  rows a row reads are all that can reach it, a reused row stands for what was sampled, and a
  published pass is a measurement of one stretch of time. The session and the pass in flight
  form a step relation, in which rows ask and finish in any order between the calls of the owner
  and the reports of changes.
\<close>

section \<open>The longest chain\<close>

text \<open>One sweep over a graph in order gives every row the length of the longest chain up to it.\<close>

fun depth_table :: "planned list \<Rightarrow> (probe_id \<Rightarrow> nat) \<Rightarrow> probe_id \<Rightarrow> nat" where
  "depth_table [] m = m"
| "depth_table (p # ps) m = depth_table ps (m(pl_id p := Suc (foldr max (map m (pl_deps p)) 0)))"

definition chain_at :: "planned list \<Rightarrow> probe_id \<Rightarrow> nat" where
  "chain_at ps = depth_table ps (\<lambda>_. 1)"

lemma depth_table_other: "i \<notin> pl_id ` set ps \<Longrightarrow> depth_table ps m i = m i"
  by (induction ps arbitrary: m) auto

lemma depth_table_deps:
  "in_order seen ps \<Longrightarrow> p \<in> set ps \<Longrightarrow>
     depth_table ps m (pl_id p) = Suc (foldr max (map (depth_table ps m) (pl_deps p)) 0)"
proof (induction ps arbitrary: seen m)
  case (Cons q ps)
  let ?m = "m(pl_id q := Suc (foldr max (map m (pl_deps q)) 0))"
  have later: "in_order (insert (pl_id q) seen) ps" using Cons.prems(1) by simp
  have fresh: "pl_id ` set ps \<inter> insert (pl_id q) seen = {}"
    using in_order_distinct [OF later] by simp
  show ?case
  proof (cases "p \<in> set ps")
    case True
    show ?thesis unfolding depth_table.simps by (rule Cons.IH [OF later True])
  next
    case False
    then have p: "p = q" using Cons.prems(2) by simp
    have out: "pl_id q \<notin> pl_id ` set ps" using fresh by blast
    have eq: "map (depth_table ps ?m) (pl_deps q) = map m (pl_deps q)"
    proof (rule map_cong [OF refl])
      fix d assume "d \<in> set (pl_deps q)"
      then have "d \<in> seen" "d \<noteq> pl_id q" using Cons.prems(1) by auto
      then show "depth_table ps ?m d = m d" using fresh by (subst depth_table_other) auto
    qed
    show ?thesis
      unfolding p depth_table.simps eq by (simp only: depth_table_other [OF out] fun_upd_same)
  qed
qed simp

lemma deps_by_id_reads:
  assumes "in_order {} ps"
  shows "d \<in> set (deps_by_id ps i) \<longleftrightarrow> (i, d) \<in> reads ps"
proof (cases "by_id ps i")
  case None
  then show ?thesis
    using by_id_None [OF assms, of i] by (auto simp: deps_by_id_def reads_def)
next
  case (Some p)
  then have p: "p \<in> set ps" "pl_id p = i"
    using by_id_Some [OF assms, of i p] by blast+
  have "q = p" if "q \<in> set ps" "pl_id q = i" for q
  proof -
    have "by_id ps i = Some q" using by_id_Some [OF assms, of i q] that by blast
    with Some show ?thesis by simp
  qed
  then have "(i, d) \<in> reads ps \<longleftrightarrow> d \<in> set (pl_deps p)"
    using p unfolding reads_def by blast
  then show ?thesis
    by (simp add: deps_by_id_def Some)
qed

lemma chain_at_deps:
  assumes "in_order {} ps"
  shows "chain_at ps i = Suc (foldr max (map (chain_at ps) (deps_by_id ps i)) 0)"
proof (cases "by_id ps i")
  case None
  then have "i \<notin> pl_id ` set ps"
    by (auto simp: by_id_def find_None_iff)
  then show ?thesis
    by (simp add: deps_by_id_def None chain_at_def depth_table_other)
next
  case (Some p)
  then have "p \<in> set ps" "pl_id p = i"
    using by_id_Some [OF assms, of i p] by simp_all
  then show ?thesis
    using depth_table_deps [OF assms, of p "\<lambda>_. 1"] by (simp add: deps_by_id_def Some chain_at_def)
qed

text \<open>The table of a search only ever holds exact lengths below the rows still open.\<close>

lemma foldr_max_below: "foldr max (map D xs) 0 < (n :: nat) \<longleftrightarrow> 0 < n \<and> (\<forall>x \<in> set xs. D x < n)"
  by (induction xs) auto

lemma member_foldr_max: "d \<in> set ds \<Longrightarrow> D d \<le> foldr max (map D ds) (n :: nat)"
  by (induction ds) (auto simp: le_max_iff_disj)

lemma below_chain: "D i = Suc (foldr max (map D ds) 0) \<Longrightarrow> d \<in> set ds \<Longrightarrow> D d < (D i :: nat)"
  using member_foldr_max [of d ds D 0] by simp

definition exact_below :: "(probe_id \<Rightarrow> nat) \<Rightarrow> nat \<Rightarrow> (probe_id \<Rightarrow> nat option) \<Rightarrow> bool" where
  "exact_below D N memo \<longleftrightarrow> (\<forall>j. D j < N \<longrightarrow> memo j = None \<or> memo j = Some (D j))"

definition same_above :: "(probe_id \<Rightarrow> nat) \<Rightarrow> nat \<Rightarrow> (probe_id \<Rightarrow> nat option) \<Rightarrow> (probe_id \<Rightarrow> nat option) \<Rightarrow> bool" where
  "same_above D N memo memo' \<longleftrightarrow> (\<forall>j. N \<le> D j \<longrightarrow> memo' j = memo j)"

lemma longest_chain_exact:
  assumes "\<And>i. D i = Suc (foldr max (map D (deps i)) 0)"
    "\<And>i. i \<in> set ids \<Longrightarrow> D i < N" "exact_below D N memo"
    "longest_chain deps memo ids longest = (d, memo')"
  shows "d = max longest (foldr max (map D ids) 0) \<and> exact_below D N memo' \<and> same_above D N memo memo'"
  using assms
proof (induction deps memo ids longest arbitrary: N d memo' rule: longest_chain.induct)
  case (1 deps memo longest)
  show ?case using 1(3, 4) by (simp add: same_above_def)
next
  case (2 deps memo i "is" longest)
  note chain = 2(4)
  have i: "D i < N" using 2(5) by simp
  have rest: "D j < N" if "j \<in> set is" for j using 2(5) that by simp
  show ?case
  proof (cases "memo i")
    case (Some x)
    then have x: "x = D i" using 2(6) i by (auto simp: exact_below_def)
    have "longest_chain deps memo is (max longest x) = (d, memo')"
      using 2(7) Some by simp
    from 2(3) [OF Some chain rest 2(6) this] show ?thesis
      unfolding x by (simp add: max.assoc)
  next
    case None
    obtain below inner where inner: "longest_chain deps (memo(i \<mapsto> 1)) (deps i) 0 = (below, inner)"
      by (cases "longest_chain deps (memo(i \<mapsto> 1)) (deps i) 0")
    have "exact_below D (D i) (memo(i \<mapsto> 1))"
      using 2(6) i by (auto simp: exact_below_def)
    note within = 2(1) [OF None chain below_chain [OF chain] this inner]
    have "below + 1 = D i"
      using within [THEN conjunct1] chain [of i] by linarith
    with within have below: "below + 1 = D i" "exact_below D (D i) inner" "same_above D (D i) (memo(i \<mapsto> 1)) inner"
      by blast+
    have ok: "exact_below D N (inner(i \<mapsto> below + 1))"
      unfolding exact_below_def
    proof (intro allI impI)
      fix j assume j: "D j < N"
      show "(inner(i \<mapsto> below + 1)) j = None \<or> (inner(i \<mapsto> below + 1)) j = Some (D j)"
        using below 2(6) j by (cases "j = i"; cases "D j < D i") (auto simp: exact_below_def same_above_def not_less)
    qed
    have "longest_chain deps (inner(i \<mapsto> below + 1)) is (max longest (below + 1)) = (d, memo')"
      using 2(7) None inner by simp
    from 2(2) [OF None inner [symmetric] chain rest ok this]
    have "d = max (max longest (D i)) (foldr max (map D is) 0)" "exact_below D N memo'"
      "same_above D N (inner(i \<mapsto> below + 1)) memo'"
      unfolding below(1) by blast+
    moreover have "same_above D N memo memo'"
      using calculation(3) below(3) i by (auto simp: same_above_def)
    ultimately show ?thesis by (simp add: max.assoc)
  qed
qed

lemma chain_depth_exact:
  assumes "in_order {} ps"
  shows "chain_depth ps = foldr max (map (\<lambda>p. chain_at ps (pl_id p)) ps) 0"
proof -
  obtain d memo' where run: "longest_chain (deps_by_id ps) (\<lambda>_. None) (map pl_id ps) 0 = (d, memo')"
    by (cases "longest_chain (deps_by_id ps) (\<lambda>_. None) (map pl_id ps) 0")
  let ?N = "Suc (Max (range (chain_at ps)))"
  have "chain_at ps i < ?N" for i
    by (simp add: less_Suc_eq_le)
  from longest_chain_exact [OF chain_at_deps [OF assms] this _ run]
  show ?thesis
    by (simp add: chain_depth_def run exact_below_def comp_def)
qed

section \<open>The window of a pass\<close>

text \<open>How far a row can be from a row without dependencies.\<close>

fun rung :: "probe_id \<Rightarrow> nat" where
  "rung ProbeIface = 1"
| "rung ProbeTargetTCP = 3"
| "rung ProbePMTU = 4"
| "rung ProbeTLS = 4"
| "rung ProbeHTTP = 5"
| "rung ProbeHTTPS = 5"
| "rung ProbeSSH = 5"
| "rung ProbeSMTP = 5"
| "rung _ = 2"

definition climbs :: "planned list \<Rightarrow> bool" where
  "climbs ps \<longleftrightarrow> list_all (\<lambda>p. list_all (\<lambda>d. rung d < rung (pl_id p)) (pl_deps p)) ps"

lemma graph_climbs: "climbs (build_probe_graph t dns auto explicit)"
  by (cases t; cases "tg_proto (the t)")
    (simp_all add: climbs_def build_probe_graph_def common_nodes_def public_dns_nodes_def encrypted_dns_node_def
      network_node_def iface_node_def protocol_nodes_def banner_node_def Let_def)

lemma climbs_subset: "climbs qs \<Longrightarrow> set ps \<subseteq> set qs \<Longrightarrow> climbs ps"
  by (auto simp: climbs_def list_all_iff)

lemma selected_climbs: "climbs (selected_probes s t dns auto)"
proof -
  have "climbs (build_probes t dns auto explicit)" for explicit
    using graph_climbs [of t dns auto explicit] by (simp add: climbs_def build_probes_def list.pred_map comp_def)
  moreover have "set (apply_selection s ps) \<subseteq> set ps" for ps
    by (auto simp: apply_selection_def)
  ultimately show ?thesis
    unfolding selected_probes_def by (blast intro: climbs_subset)
qed

lemma rung_bounds: "1 \<le> rung i" "rung i \<le> 5"
  by (cases i; simp)+

lemma chain_at_rung:
  assumes "in_order {} ps" "climbs ps"
  shows "chain_at ps i \<le> rung i"
proof (induction i rule: measure_induct_rule [of rung])
  case (less i)
  have "chain_at ps d < rung i" if "d \<in> set (deps_by_id ps i)" for d
  proof -
    have "(i, d) \<in> reads ps" using that deps_by_id_reads [OF assms(1)] by simp
    then have "rung d < rung i" using assms(2) by (auto simp: climbs_def reads_def list_all_iff)
    with less [OF this] show ?thesis by simp
  qed
  then have "foldr max (map (chain_at ps) (deps_by_id ps i)) 0 < rung i"
    using rung_bounds(1) [of i] by (simp add: foldr_max_below)
  then show ?case
    by (simp add: chain_at_deps [OF assms(1), of i])
qed

lemma depth_at_most:
  assumes "in_order {} ps" "climbs ps"
  shows "chain_depth ps \<le> 5"
proof -
  have "chain_at ps i < 6" for i
    using chain_at_rung [OF assms, of i] rung_bounds(2) [of i] by simp
  then have "foldr max (map (\<lambda>p. chain_at ps (pl_id p)) ps) 0 < 6"
    by (simp add: foldr_max_below)
  then show ?thesis
    unfolding chain_depth_exact [OF assms(1)] by simp
qed

lemma chain_length:
  assumes "in_order {} ps" "successively (\<lambda>i j. (i, j) \<in> reads ps) (i # is)"
  shows "length (i # is) \<le> chain_at ps i"
  using assms(2)
proof (induction "is" arbitrary: i)
  case Nil
  show ?case by (simp add: chain_at_deps [OF assms(1), of i])
next
  case (Cons j js)
  have "j \<in> set (deps_by_id ps i)"
    using Cons.prems by (simp add: deps_by_id_reads [OF assms(1)])
  with member_foldr_max [OF this, of "chain_at ps" 0] have "chain_at ps j < chain_at ps i"
    by (simp add: chain_at_deps [OF assms(1), of i])
  moreover have "length (j # js) \<le> chain_at ps j"
    using Cons.prems by (intro Cons.IH) (simp add: successively_Cons)
  ultimately show ?case by simp
qed

lemma chain_at_depth:
  assumes "in_order {} ps" "i \<in> pl_id ` set ps"
  shows "chain_at ps i \<le> chain_depth ps"
  using assms(2) member_foldr_max [of _ ps "\<lambda>p. chain_at ps (pl_id p)" 0]
  unfolding chain_depth_exact [OF assms(1)] by auto

text \<open>C16. How long a pass may take. For every selection of the graph of every target the window of
  a pass is at least a minute, and exactly a minute while one probe may take at most six seconds,
  which holds for the default. However long a probe may take, the window leaves every chain of
  rows, each reading the next, twice the time its probes may take, or is the largest duration.\<close>

theorem window_covers_chains:
  assumes "ps = selected_probes s t dns auto" "0 < timeout"
    "successively (\<lambda>i j. (i, j) \<in> reads ps) is" "set is \<subseteq> pl_id ` set ps"
  shows "watch_max_age \<le> pass_window ps timeout \<and> pass_window ps timeout \<le> max_duration
    \<and> (pass_window ps timeout = max_duration \<or> 2 * int (length is) * timeout \<le> pass_window ps timeout)
    \<and> (timeout \<le> seconds 6 \<longrightarrow> pass_window ps timeout = watch_max_age)"
proof -
  note order = selected_in_order [of s t dns auto, folded assms(1)]
  let ?limit = "int (2 * chain_depth ps)"
  have limit: "?limit \<le> 10"
    using depth_at_most [OF order] selected_climbs [of s t dns auto] by (simp add: assms(1))
  have len: "2 * int (length is) \<le> ?limit"
  proof (cases "is")
    case (Cons i js)
    then show ?thesis
      using chain_length [OF order assms(3) [unfolded Cons]] chain_at_depth [OF order, of i] assms(4) by simp
  qed simp
  have scaled: "2 * int (length is) * timeout \<le> timeout * ?limit"
    using mult_right_mono [OF len, of timeout] assms(2) by (simp add: mult.commute)
  have age: "watch_max_age \<le> max_duration"
    by (simp add: watch_max_age_def seconds_def max_duration_def)
  show ?thesis
  proof (cases "?limit = 0")
    case True
    then have "pass_window ps timeout = watch_max_age" by (simp add: pass_window_def)
    moreover have "0 \<le> watch_max_age" by (simp add: watch_max_age_def seconds_def)
    moreover have "2 * int (length is) * timeout \<le> 0" using scaled unfolding True by simp
    ultimately show ?thesis using age by linarith
  next
    case False
    then have pos: "0 < ?limit" by simp
    have least: "max_duration div 10 \<le> max_duration div ?limit"
      by (rule zdiv_mono2) (use pos limit in \<open>simp_all add: max_duration_def\<close>)
    have fits: "timeout * ?limit \<le> max_duration" if "timeout \<le> max_duration div ?limit"
      using mult_right_mono [OF that, of ?limit] pos div_mult_mod_eq [of max_duration ?limit]
        pos_mod_sign [OF pos, of max_duration] by linarith
    have short: "timeout * ?limit \<le> watch_max_age \<and> timeout \<le> max_duration div ?limit" if "timeout \<le> seconds 6"
      using mult_mono [OF that limit] assms(2) that least by (simp add: seconds_def watch_max_age_def max_duration_def)
    have window: "pass_window ps timeout = (if timeout \<le> max_duration div ?limit then max watch_max_age (timeout * ?limit) else max_duration)"
      using assms(2) False by (simp add: pass_window_def Let_def)
    show ?thesis
    proof (cases "timeout \<le> max_duration div ?limit")
      case True
      then have w: "pass_window ps timeout = max watch_max_age (timeout * ?limit)"
        unfolding window by (rule if_P)
      show ?thesis
        unfolding w
      proof (intro conjI impI)
        show "max watch_max_age (timeout * ?limit) = max_duration
            \<or> 2 * int (length is) * timeout \<le> max watch_max_age (timeout * ?limit)"
          using scaled by (simp only: le_max_iff_disj simp_thms)
      qed (use short fits [OF True] age in \<open>simp_all only: max.bounded_iff max.cobounded1 max_absorb1\<close>)
    next
      case False
      then show ?thesis
        using short age unfolding window by (simp only: if_False) blast
    qed
  qed
qed

theorem window_covers_chains_witness:
  "(let ps = selected_probes refusing None default_public_dns True
    in watch_max_age \<le> pass_window ps default_probe_timeout)"
  using window_covers_chains [of _ refusing None default_public_dns True default_probe_timeout "[]", OF refl]
  by (simp add: Let_def default_probe_timeout_def seconds_def)

section \<open>What a row reads\<close>

lemma ancestors_from_reach:
  assumes "\<And>i d. i \<in> set out \<Longrightarrow> d \<in> set (deps i) \<Longrightarrow> d \<in> set out \<union> set stack"
  shows "set (ancestors_from deps out stack) = set out \<union> {(i, d). d \<in> set (deps i)}\<^sup>* `` set stack"
  using assms
proof (induction deps out stack rule: ancestors_from.induct)
  case (2 deps out i stack)
  let ?R = "{(i, d). d \<in> set (deps i)}"
  show ?case
  proof (cases "i \<in> set out")
    case True
    have inside: "j \<in> set out \<union> ?R\<^sup>* `` set stack" if "(i, j) \<in> ?R\<^sup>*" for j
      using that
    proof (induction rule: rtrancl_induct)
      case (step y z)
      then show ?case
        using 2(3) [of y z] True by (auto intro: rtrancl_into_rtrancl)
    qed (use True in simp)
    have "set (ancestors_from deps out stack) = set out \<union> ?R\<^sup>* `` set stack"
      by (rule 2(1) [OF True]) (use 2(3) True in auto)
    also have "\<dots> = set out \<union> ?R\<^sup>* `` set (i # stack)"
      using inside by auto
    finally show ?thesis using True by simp
  next
    case False
    have "set (ancestors_from deps (out @ [i]) (rev (deps i) @ stack))
        = set (out @ [i]) \<union> ?R\<^sup>* `` set (rev (deps i) @ stack)"
      by (rule 2(2) [OF False]) (use 2(3) in auto)
    also have "\<dots> = set out \<union> ?R\<^sup>* `` set (i # stack)"
      by (auto elim: converse_rtranclE intro: converse_rtrancl_into_rtrancl)
    finally show ?thesis using False by simp
  qed
qed simp

lemma ancestors_exact:
  assumes "in_order {} ps"
  shows "set (ancestors_of ps i) = (reads ps)\<^sup>+ `` {i}"
proof -
  have R: "{(i, d). d \<in> set (deps_by_id ps i)} = reads ps"
    using deps_by_id_reads [OF assms] by auto
  have "set (ancestors_of ps i) = (reads ps)\<^sup>* `` (reads ps `` {i})"
    unfolding ancestors_of_def by (subst ancestors_from_reach) (auto simp: R deps_by_id_reads [OF assms])
  also have "\<dots> = (reads ps)\<^sup>+ `` {i}"
    by (auto intro: rtrancl_into_trancl2 dest: tranclD)
  finally show ?thesis .
qed

section \<open>A session at work\<close>

text \<open>What can happen to a session and the pass in flight: the owner forces, begins and publishes,
  the system reports a change, a row is answered from the cache, a row runs to its end. A row
  happens once in a pass. \<open>None\<close> where the event cannot happen.\<close>

datatype watch_event =
    Force | Change | Begin instant "64 word option option"
  | Answered probe_id instant | Ran probe_id instant watched
  | Published watch_results instant "64 word option"

fun watch_do :: "planned list \<Rightarrow> int \<Rightarrow> watch_event \<Rightarrow> watch_session \<times> watch_pass option
    \<Rightarrow> (watch_session \<times> watch_pass option) option" where
  "watch_do base timeout Force (s, p) = Some (force_session s, p)"
| "watch_do base timeout Change (s, p) = Some (invalidate s, p)"
| "watch_do base timeout (Begin now unbiased) (s, p) = Some (s, Some (begin_pass s base timeout now unbiased))"
| "watch_do base timeout (Answered i now) (s, Some p) =
     (if wp_fingerprints p i = None then map_option (\<lambda>(p', r). (s, Some p')) (ask_row s p i now) else None)"
| "watch_do base timeout (Ran i sampled r) (s, Some p) =
     (if wp_fingerprints p i = None then Some (s, Some (finish_row p i sampled r)) else None)"
| "watch_do base timeout (Published res now reading) (s, Some p) = Some (fst (publish s p res now reading), None)"
| "watch_do base timeout _ (s, None) = None"

text \<open>The states of a session, with the events that led there, the latest first.\<close>

inductive watch_reach :: "planned list \<Rightarrow> int \<Rightarrow> watch_event list \<Rightarrow> watch_session \<times> watch_pass option \<Rightarrow> bool"
  for base timeout where
  New: "watch_reach base timeout [] (new_watch_session, None)"
| Event: "watch_reach base timeout past st \<Longrightarrow> watch_do base timeout e st = Some st' \<Longrightarrow> watch_reach base timeout (e # past) st'"

text \<open>The events since the pass in flight began.\<close>

definition is_begin :: "watch_event \<Rightarrow> bool" where
  "is_begin e = (case e of Begin _ _ \<Rightarrow> True | _ \<Rightarrow> False)"

definition since :: "watch_event list \<Rightarrow> watch_event list" where
  "since past = takeWhile (\<lambda>e. \<not> is_begin e) past"

section \<open>The invariant\<close>

text \<open>A passing observation of a row that may be reused, with the fingerprints of all it was
  measured from.\<close>

definition sound_observation :: "planned list \<Rightarrow> probe_id \<Rightarrow> watch_observation \<Rightarrow> bool" where
  "sound_observation base i ob \<longleftrightarrow>
     i \<in> watch_reusable \<and> row_status (ob_result ob) = StatusPass \<and> ob_fp ob = fingerprint_of (ob_result ob)
     \<and> dom (ob_inputs ob) = set (ancestors_of base i)"

definition sound_cache :: "planned list \<Rightarrow> watch_cache \<Rightarrow> bool" where
  "sound_cache base c \<longleftrightarrow> (\<forall>i ob. c i = Some ob \<longrightarrow> sound_observation base i ob)"

text \<open>A reused row stands for its observation, and everything it reads has finished with the
  fingerprint that was sampled with it.\<close>

definition stands_for :: "watch_pass \<Rightarrow> probe_id \<Rightarrow> watch_observation \<Rightarrow> bool" where
  "stands_for p i ob \<longleftrightarrow>
     wp_cache p i = Some ob \<and> wp_fingerprints p i = Some (ob_fp ob) \<and> unchanged p i ob"

definition pass_inv :: "planned list \<Rightarrow> watch_event list \<Rightarrow> watch_session \<Rightarrow> watch_pass \<Rightarrow> bool" where
  "pass_inv base recent s p \<longleftrightarrow>
     wp_probes p = base \<and> wp_ancestors p = ancestors_of base \<and> wp_cache p = ws_cache s \<and> sound_cache base (wp_ran p)
     \<and> (wp_reused p \<noteq> {} \<longrightarrow> \<not> wp_force p)
     \<and> (\<not> wp_force p \<longrightarrow> ws_settled s \<and> within_age (wp_at p) (ws_last_full s))
     \<and> (\<forall>i \<in> wp_reused p. \<exists>ob. stands_for p i ob)
     \<and> ws_requests s = wp_requested p + of_nat (count_list recent Force)
     \<and> ws_generation s = wp_generation p + of_nat (count_list recent Change)
     \<and> (Force \<in> set recent \<longrightarrow> ws_force s)"

definition watch_inv :: "planned list \<Rightarrow> watch_event list \<Rightarrow> watch_session \<times> watch_pass option \<Rightarrow> bool" where
  "watch_inv base past st \<longleftrightarrow>
     sound_cache base (ws_cache (fst st)) \<and> (\<forall>p. snd st = Some p \<longrightarrow> pass_inv base (since past) (fst st) p)"

lemma since_simps [simp]:
  "since (Force # past) = Force # since past" "since (Change # past) = Change # since past"
  "since (Begin now u # past) = []" "since (Answered i now # past) = Answered i now # since past"
  "since (Ran i now r # past) = Ran i now r # since past"
  by (simp_all add: since_def is_begin_def)

lemma pass_inv_force: "pass_inv base recent s p \<Longrightarrow> pass_inv base (Force # recent) (force_session s) p"
  by (simp add: pass_inv_def force_session_def)

lemma pass_inv_change: "pass_inv base recent s p \<Longrightarrow> pass_inv base (Change # recent) (invalidate s) p"
  by (simp add: pass_inv_def invalidate_def)

lemma pass_inv_begin: "pass_inv base [] s (begin_pass s base timeout now unbiased)"
  by (simp add: pass_inv_def begin_pass_def sound_cache_def)

text \<open>Fingerprints are only ever added.\<close>

lemma map_le_value: "m \<subseteq>\<^sub>m m' \<Longrightarrow> m a = Some x \<Longrightarrow> m' a = Some x"
  by (metis domI map_le_def)

lemma unchanged_more:
  assumes "unchanged p i ob" "wp_ancestors p' = wp_ancestors p" "wp_fingerprints p \<subseteq>\<^sub>m wp_fingerprints p'"
  shows "unchanged p' i ob"
proof -
  have "wp_fingerprints p' a = wp_fingerprints p a" if "wp_fingerprints p a \<noteq> None" for a
    using that map_le_value [OF assms(3)] by auto
  then show ?thesis
    using assms(1) unfolding unchanged_def list_all_iff assms(2) by metis
qed

lemma stands_for_more:
  "stands_for p i ob \<Longrightarrow> wp_ancestors p' = wp_ancestors p \<Longrightarrow> wp_cache p' = wp_cache p
     \<Longrightarrow> wp_fingerprints p \<subseteq>\<^sub>m wp_fingerprints p' \<Longrightarrow> stands_for p' i ob"
  using unchanged_more [of p i ob p'] map_le_value [of "wp_fingerprints p" "wp_fingerprints p'" i]
  by (simp add: stands_for_def)

lemma map_le_new: "m i = None \<Longrightarrow> m \<subseteq>\<^sub>m m(i \<mapsto> x)"
  by (auto simp: map_le_def)

lemma reuse_Some:
  "reuse s p i now = Some ob \<longleftrightarrow>
     \<not> wp_force p \<and> wp_cache p i = Some ob \<and> ob_generation ob = ws_generation s \<and> within_age now (ob_sampled ob) \<and> unchanged p i ob"
  by (auto simp: reuse_def split: option.splits if_splits)

lemma ask_row_Some:
  "ask_row s p i now = Some (p', r) \<longleftrightarrow>
     i \<in> watch_reusable \<and> (\<exists>ob. reuse s p i now = Some ob \<and> r = reused_row ob
       \<and> p' = p\<lparr>wp_reused := insert i (wp_reused p), wp_fingerprints := (wp_fingerprints p)(i \<mapsto> ob_fp ob)\<rparr>)"
  by (auto simp: ask_row_def)

lemma finish_row_fields:
  "wp_probes (finish_row p i sampled r) = wp_probes p" "wp_ancestors (finish_row p i sampled r) = wp_ancestors p"
  "wp_cache (finish_row p i sampled r) = wp_cache p" "wp_reused (finish_row p i sampled r) = wp_reused p"
  "wp_force (finish_row p i sampled r) = wp_force p" "wp_at (finish_row p i sampled r) = wp_at p"
  "wp_requested (finish_row p i sampled r) = wp_requested p" "wp_generation (finish_row p i sampled r) = wp_generation p"
  "wp_window (finish_row p i sampled r) = wp_window p" "wp_start (finish_row p i sampled r) = wp_start p"
  "wp_fingerprints (finish_row p i sampled r) = (wp_fingerprints p)(i \<mapsto> fingerprint_of r)"
  by (simp_all add: finish_row_def record_row_def Let_def)

lemma finish_row_ran:
  assumes "sound_cache base (wp_ran p)" "wp_ancestors p = ancestors_of base"
  shows "sound_cache base (wp_ran (finish_row p i sampled r))"
  using assms
  by (auto simp: sound_cache_def sound_observation_def finish_row_def record_row_def Let_def dom_def list_all_iff split: if_splits)

lemma pass_inv_ran:
  assumes "pass_inv base recent s p" "wp_fingerprints p i = None"
  shows "pass_inv base (Ran i sampled r # recent) s (finish_row p i sampled r)"
proof -
  have "\<exists>ob. stands_for (finish_row p i sampled r) j ob" if j: "j \<in> wp_reused p" for j
  proof -
    obtain ob where "stands_for p j ob" using assms(1) j by (auto simp: pass_inv_def)
    then have "stands_for (finish_row p i sampled r) j ob"
      by (rule stands_for_more) (simp_all only: finish_row_fields map_le_new [where m = "wp_fingerprints p", OF assms(2)])
    then show ?thesis ..
  qed
  then show ?thesis
    using assms(1) finish_row_ran [of base p i sampled r] by (simp add: pass_inv_def finish_row_fields)
qed

lemma pass_inv_answered:
  assumes "pass_inv base recent s p" "wp_fingerprints p i = None" "ask_row s p i now = Some (p', r)"
  shows "pass_inv base (Answered i now # recent) s p'"
proof -
  obtain ob where ob: "reuse s p i now = Some ob"
    "p' = p\<lparr>wp_reused := insert i (wp_reused p), wp_fingerprints := (wp_fingerprints p)(i \<mapsto> ob_fp ob)\<rparr>"
    using assms(3) by (auto simp: ask_row_Some)
  have more: "wp_fingerprints p \<subseteq>\<^sub>m wp_fingerprints p'"
    using map_le_new [where m = "wp_fingerprints p", OF assms(2)] by (simp add: ob(2))
  have "unchanged p' i ob"
    using ob(1) more by (intro unchanged_more [of p i ob p']) (simp_all add: reuse_Some ob(2))
  then have "stands_for p' i ob"
    using ob(1) by (simp add: stands_for_def ob(2) reuse_Some)
  moreover have "\<exists>ob'. stands_for p' j ob'" if j: "j \<in> wp_reused p" for j
  proof -
    obtain ob' where "stands_for p j ob'" using assms(1) j by (auto simp: pass_inv_def)
    then have "stands_for p' j ob'"
      by (rule stands_for_more) (use more in \<open>simp_all add: ob(2)\<close>)
    then show ?thesis ..
  qed
  ultimately have "\<exists>ob'. stands_for p' j ob'" if "j \<in> wp_reused p'" for j
    using that ob(2) by auto
  then show ?thesis
    using assms(1) ob(1) by (simp add: pass_inv_def reuse_Some ob(2))
qed

lemma publish_cache:
  assumes "pass_inv base recent s p" "sound_cache base (ws_cache s)"
  shows "sound_cache base (ws_cache (fst (publish s p res now reading)))"
  using assms by (auto simp: publish_def Let_def sound_cache_def pass_inv_def force_session_def)

lemma watch_inv_do:
  assumes "watch_inv base past st" "watch_do base timeout e st = Some st'"
  shows "watch_inv base (e # past) st'"
proof -
  obtain s p where st: "st = (s, p)" by (cases st)
  have inv: "sound_cache base (ws_cache s)" "\<And>q. p = Some q \<Longrightarrow> pass_inv base (since past) s q"
    using assms(1) by (simp_all add: watch_inv_def st)
  show ?thesis
    using assms(2) inv unfolding st watch_inv_def
    by (induction base timeout e "(s, p)" rule: watch_do.induct)
      (auto simp: force_session_def [THEN arg_cong [where f = ws_cache]] invalidate_def [THEN arg_cong [where f = ws_cache]]
        pass_inv_force pass_inv_change pass_inv_begin pass_inv_ran publish_cache
        pass_inv_answered split: if_splits)
qed

lemma watch_inv_reach: "watch_reach base timeout past st \<Longrightarrow> watch_inv base past st"
proof (induction rule: watch_reach.induct)
  case New
  show ?case by (simp add: watch_inv_def new_watch_session_def sound_cache_def)
qed (rule watch_inv_do)

section \<open>What may be relied on\<close>

lemma reach_invs:
  assumes "watch_reach base timeout past (s, Some p)"
  shows "sound_cache base (ws_cache s)" "pass_inv base (since past) s p"
  using watch_inv_reach [OF assms] by (simp_all add: watch_inv_def)

text \<open>Everything a row reads, directly or through other rows, has finished in the pass with the
  fingerprint that was recorded with the observation.\<close>

definition inputs_stand :: "planned list \<Rightarrow> watch_pass \<Rightarrow> probe_id \<Rightarrow> watch_observation \<Rightarrow> bool" where
  "inputs_stand base p i ob \<longleftrightarrow>
     (\<forall>a. (i, a) \<in> (reads base)\<^sup>+ \<longrightarrow> (\<exists>fp. wp_fingerprints p a = Some fp \<and> ob_inputs ob a = Some fp))"

lemma unchanged_reads:
  assumes "in_order {} base" "wp_ancestors p = ancestors_of base"
  shows "unchanged p i ob \<longleftrightarrow> inputs_stand base p i ob"
proof -
  have "wp_fingerprints p a \<noteq> None \<and> wp_fingerprints p a = ob_inputs ob a
      \<longleftrightarrow> (\<exists>fp. wp_fingerprints p a = Some fp \<and> ob_inputs ob a = Some fp)" for a
    by auto
  then show ?thesis
    unfolding unchanged_def inputs_stand_def list_all_iff assms(2) ancestors_exact [OF assms(1)] by blast
qed

lemma reused_row_fields:
  "row.truncate (reused_row ob) = row.truncate (ob_result ob)" "fingerprint_of (reused_row ob) = fingerprint_of (ob_result ob)"
  "row_status (reused_row ob) = row_status (ob_result ob)" "wr_dur (reused_row ob) = 0"
  "wr_reused_from (reused_row ob) = Some (ob_sampled ob)"
  by (simp_all add: reused_row_def row.truncate_def fingerprint_of_def)

text \<open>C13. A reused row stands for what was sampled. When a row of a pass is answered from the
  session, the row passed when it was sampled, less than a minute ago on both clocks, in a pass
  that began after the last reported change; everything it reads, directly or through other rows,
  has finished in this pass with the fingerprint it had then; and the answer gives the diagnosis
  and the rows built on it exactly what the sampled row gave, marked with the time of the sample.\<close>

theorem reused_row_stands:
  assumes "base = selected_probes sel t dns auto" "watch_reach base timeout past (s, Some p)"
    "ask_row s p i now = Some (p', r)"
  shows "\<exists>ob. ws_cache s i = Some ob \<and> i \<in> watch_reusable \<and> \<not> wp_force p
    \<and> row.truncate r = row.truncate (ob_result ob) \<and> fingerprint_of r = fingerprint_of (ob_result ob)
    \<and> row_status r = StatusPass \<and> wr_dur r = 0 \<and> wr_reused_from r = Some (ob_sampled ob)
    \<and> within_age now (ob_sampled ob) \<and> ob_generation ob = ws_generation s
    \<and> inputs_stand base p i ob"
proof -
  obtain ob where ob: "reuse s p i now = Some ob" "i \<in> watch_reusable" "r = reused_row ob"
    using assms(3) by (auto simp: ask_row_Some)
  note inv = reach_invs [OF assms(2)]
  have p: "wp_ancestors p = ancestors_of base" "wp_cache p = ws_cache s"
    using inv(2) by (simp_all add: pass_inv_def)
  have cached: "ws_cache s i = Some ob"
    using ob(1) p by (simp add: reuse_Some)
  then have "sound_observation base i ob"
    using inv(1) by (simp add: sound_cache_def)
  moreover have "in_order {} base"
    by (simp add: assms(1) selected_in_order)
  ultimately show ?thesis
    using ob cached unchanged_reads [OF _ p(1), of i ob]
    by (intro exI [of _ ob]) (simp add: reuse_Some sound_observation_def reused_row_fields)
qed

text \<open>C12. A published pass is one measurement. It began within its window on both clocks, which
  moved apart by at most ten seconds, so a longer suspension of either is never published. Where
  it reused rows, the pass before was settled and its last whole measurement began less than a
  minute before it; every verdict and every measured route is the one of the last published pass;
  each reused row was sampled less than a minute before publication, and all it reads finished in
  this pass with the fingerprint it had then.\<close>

theorem published_pass_sound:
  assumes "base = selected_probes sel t dns auto" "watch_reach base timeout past (s, Some p)"
    "publish s p res now reading = (s', True)"
  shows "(case elapsed now (wp_at p) of (steady, wall) \<Rightarrow>
        0 \<le> steady \<and> steady < wp_window p \<and> 0 \<le> wall \<and> wall < wp_window p \<and> \<bar>wall - steady\<bar> \<le> seconds 10)
    \<and> (wp_reused p \<noteq> {} \<longrightarrow> ws_settled s \<and> within_age (wp_at p) (ws_last_full s)
        \<and> verdicts_of res = ws_last s \<and> path_of res = ws_path s)
    \<and> (\<forall>i \<in> wp_reused p. \<exists>ob. ws_cache s i = Some ob \<and> within_age now (ob_sampled ob) \<and> inputs_stand base p i ob)"
proof -
  have inv: "pass_inv base (since past) s p" by (rule reach_invs [OF assms(2)])
  have order: "in_order {} base" by (simp add: assms(1) selected_in_order)
  obtain steady wall where e: "elapsed now (wp_at p) = (steady, wall)" by (cases "elapsed now (wp_at p)")
  have cur: "current p now reading"
    and same: "\<not> wp_force p \<Longrightarrow> wp_reused p \<noteq> {} \<Longrightarrow> ws_last s = verdicts_of res \<and> path_of res = ws_path s"
    using assms(3) by (auto simp: publish_def Let_def split: if_splits)
  have clocks: "pass_current steady wall (wp_window p)"
    using cur by (simp add: current_def e)
  have reused: "\<exists>ob. ws_cache s i = Some ob \<and> within_age now (ob_sampled ob) \<and> inputs_stand base p i ob"
    if i: "i \<in> wp_reused p" for i
  proof -
    obtain ob where "stands_for p i ob" "wp_ancestors p = ancestors_of base" "wp_cache p = ws_cache s"
      using inv i by (auto simp: pass_inv_def)
    moreover have "sampled_within now (wp_cache p i)"
      using cur i by (simp add: current_def e)
    ultimately show ?thesis
      using unchanged_reads [OF order, of p i ob] by (intro exI [of _ ob]) (simp add: stands_for_def sampled_within_def)
  qed
  have "drift_allowance steady \<le> seconds 10"
    by (simp add: drift_allowance_def drift_cap_def)
  moreover have "wp_reused p \<noteq> {} \<longrightarrow> ws_settled s \<and> within_age (wp_at p) (ws_last_full s)
        \<and> verdicts_of res = ws_last s \<and> path_of res = ws_path s"
    using inv same by (auto simp: pass_inv_def)
  ultimately show ?thesis
    using clocks reused unfolding e by (auto simp: pass_current_def in_window_def)
qed

text \<open>The state a session has reached is a function of the events.\<close>

inductive_cases reach_event: "watch_reach base timeout (e # past) st"

lemma reach_unique: "watch_reach base timeout past st \<Longrightarrow> watch_reach base timeout past st' \<Longrightarrow> st' = st"
proof (induction arbitrary: st' rule: watch_reach.induct)
  case New
  then show ?case by (cases rule: watch_reach.cases) auto
next
  case (Event past st e st1)
  from Event.prems obtain st2 where "watch_reach base timeout past st2" "watch_do base timeout e st2 = Some st'"
    by (rule reach_event)
  with Event.IH [of st2] Event.hyps(2) show ?case by simp
qed

lemma do_keeps_force:
  assumes "watch_do base timeout e (s, Some p) = Some (s', Some p')" "\<not> is_begin e"
  shows "wp_force p' = wp_force p"
  using assms by (cases e) (auto simp: is_begin_def finish_row_fields ask_row_Some split: if_splits)

lemma do_from_none: "watch_do base timeout e (s, None) = Some (s', Some p') \<Longrightarrow> is_begin e"
  by (cases e) (auto simp: is_begin_def)

lemma force_of_pass:
  assumes "watch_reach base timeout (recent @ Begin now u # past) (s, Some p)" "list_all (\<lambda>e. \<not> is_begin e) recent"
    "watch_reach base timeout past (s0, p0)"
  shows "wp_force p = wp_force (begin_pass s0 base timeout now u)"
  using assms(1, 2)
proof (induction recent arbitrary: s p)
  case Nil
  then obtain st where "watch_reach base timeout past st" "watch_do base timeout (Begin now u) st = Some (s, Some p)"
    by (auto elim: reach_event)
  with reach_unique [OF assms(3)] show ?case by fastforce
next
  case (Cons e es)
  then obtain s1 p1 where st: "watch_reach base timeout (es @ Begin now u # past) (s1, p1)"
    "watch_do base timeout e (s1, p1) = Some (s, Some p)"
    by (auto elim: reach_event)
  show ?case
  proof (cases p1)
    case None
    then show ?thesis using do_from_none st(2) Cons.prems(2) by auto
  next
    case (Some q)
    then show ?thesis
      using do_keeps_force [of base timeout e s1 q s p] st Cons.IH [of s1 q] Cons.prems(2) by simp
  qed
qed

text \<open>C14. A refused pass is made up for. The pass after a refusal, whatever happens while it runs,
  acquires every row fresh, and it is published exactly when its clocks are current: no verdict
  and no route can refuse it, and it becomes the last whole measurement of the session.\<close>

theorem refusal_recovers:
  assumes "watch_reach base timeout past (s0, Some p0)" "publish s0 p0 res0 now0 reading0 = (s1, False)"
    "watch_reach base timeout (recent @ Begin at u # Published res0 now0 reading0 # past) (s, Some p)"
    "list_all (\<lambda>e. \<not> is_begin e) recent"
  shows "wp_force p \<and> fresh_pass p \<and> snd (publish s p res now reading) = current p now reading
    \<and> (current p now reading \<longrightarrow> ws_last_full (fst (publish s p res now reading)) = wp_at p)"
proof -
  have after: "watch_reach base timeout (Published res0 now0 reading0 # past) (s1, None)"
    by (rule watch_reach.Event [OF assms(1)]) (simp add: assms(2))
  have "ws_force s1"
    using assms(2) by (auto simp: publish_def Let_def force_session_def split: if_splits)
  then have forced: "wp_force p"
    using force_of_pass [OF assms(3, 4) after] by (simp add: begin_pass_def)
  then have "wp_reused p = {}"
    using reach_invs(2) [OF assms(3)] by (auto simp: pass_inv_def)
  with forced show ?thesis
    by (simp add: fresh_pass_def publish_def Let_def)
qed

text \<open>C15. Nothing that happens while a pass runs is lost or invented. A published pass leaves the
  session forced exactly when a fresh pass was asked for since it began, and it is reported to
  straddle a change exactly when a change was reported since it began.\<close>

theorem requests_kept:
  assumes "watch_reach base timeout past (s, Some p)" "length past < 2 ^ 64"
    "publish s p res now reading = (s', True)"
  shows "(ws_force s' \<longleftrightarrow> Force \<in> set (since past)) \<and> (straddled s p \<longleftrightarrow> Change \<in> set (since past))"
proof -
  have inv: "pass_inv base (since past) s p" by (rule reach_invs [OF assms(1)])
  have zero: "of_nat (count_list (since past) e) = (0 :: 64 word) \<longleftrightarrow> e \<notin> set (since past)" for e
  proof -
    have "count_list (since past) e \<le> length past"
      using count_le_length [of "since past" e] length_takeWhile_le [of _ past] unfolding since_def
      by (rule order_trans)
    then have "count_list (since past) e < 2 ^ LENGTH(64)" using assms(2) by simp
    then have "2 ^ LENGTH(64) dvd count_list (since past) e \<longleftrightarrow> count_list (since past) e = 0"
      by (metis dvd_0_right nat_dvd_not_less neq0_conv)
    then show ?thesis
      unfolding word_of_nat_eq_0_iff by (simp add: count_list_0_iff)
  qed
  have "ws_force s' = (if ws_requests s = wp_requested p then False else ws_force s)"
    using assms(3) by (auto simp: publish_def Let_def split: if_splits)
  then show ?thesis
    using inv zero [of Force] zero [of Change] by (auto simp: pass_inv_def straddled_def)
qed

section \<open>A session that reuses a row\<close>

text \<open>The events of a session, the latest first.\<close>

fun watch_run :: "planned list \<Rightarrow> int \<Rightarrow> watch_event list \<Rightarrow> (watch_session \<times> watch_pass option) option" where
  "watch_run base timeout [] = Some (new_watch_session, None)"
| "watch_run base timeout (e # past) =
     (case watch_run base timeout past of Some st \<Rightarrow> watch_do base timeout e st | None \<Rightarrow> None)"

lemma run_reaches: "watch_run base timeout past = Some st \<Longrightarrow> watch_reach base timeout past st"
  by (induction base timeout past arbitrary: st rule: watch_run.induct)
    (auto intro: watch_reach.intros split: option.splits)

definition asks_quic :: probe_selection where
  "asks_quic = \<lparr>ps_check = {ProbeQUIC}, ps_skip = {}, ps_no_reference = False\<rparr>"

abbreviation quic_graph :: "planned list" where
  "quic_graph \<equiv> selected_probes asks_quic None default_public_dns True"

definition clock_at :: "int \<Rightarrow> instant" where
  "clock_at n = \<lparr>in_wall = seconds (100 + n), in_mono = Some (seconds n)\<rparr>"

definition passing :: watched where
  "passing = row.extend zero_row
     \<lparr>wr_network = [], wr_resolver_targets = [], wr_cleartext = False, wr_errors = [], wr_dur = seconds 1,
      wr_attempt_durs = [], wr_acquisition = 0, wr_reused_from = None\<rparr>"

definition both_pass :: watch_results where
  "both_pass = (\<lambda>i. if i \<in> {ProbeIface, ProbeQUIC} then Some passing else None)"

text \<open>A first pass runs both rows and is published; the second has run the interface row.\<close>

definition first_events :: "watch_event list" where
  "first_events =
     [Ran ProbeQUIC (clock_at 1) passing, Ran ProbeIface (clock_at 0) passing, Begin (clock_at 0) None]"

definition second_events :: "watch_event list" where
  "second_events =
     [Ran ProbeIface (clock_at 20) passing, Begin (clock_at 20) None, Published both_pass (clock_at 2) None] @ first_events"

lemma sample_answer:
  "case watch_run quic_graph default_probe_timeout second_events of
     Some (s, Some p) \<Rightarrow> ask_row s p ProbeQUIC (clock_at 20) \<noteq> None | _ \<Rightarrow> False"
  by code_simp

lemma sample_publication:
  "case watch_run quic_graph default_probe_timeout (Answered ProbeQUIC (clock_at 20) # second_events) of
     Some (s, Some p) \<Rightarrow> snd (publish s p both_pass (clock_at 21) None) \<and> wp_reused p \<noteq> {} | _ \<Rightarrow> False"
  by code_simp

lemma sample_refusal:
  "case watch_run quic_graph default_probe_timeout first_events of
     Some (s, Some p) \<Rightarrow> \<not> snd (publish s p both_pass (clock_at 100) None) | _ \<Rightarrow> False"
  by code_simp

lemma sample_retry:
  "case watch_run quic_graph default_probe_timeout
       ([Force] @ Begin (clock_at 101) None # Published both_pass (clock_at 100) None # first_events) of
     Some (s, Some p) \<Rightarrow> True | _ \<Rightarrow> False"
  by code_simp

lemma sample_request:
  "case watch_run quic_graph default_probe_timeout (Force # first_events) of
     Some (s, Some p) \<Rightarrow> snd (publish s p both_pass (clock_at 2) None) | _ \<Rightarrow> False"
  by code_simp

lemma run_case:
  assumes "case watch_run base timeout past of Some (s, Some p) \<Rightarrow> P s p | _ \<Rightarrow> False"
  obtains s p where "watch_run base timeout past = Some (s, Some p)" "P s p" "watch_reach base timeout past (s, Some p)"
  using assms run_reaches [of base timeout past] by (auto split: option.splits)

theorem reused_row_stands_witness:
  "\<exists>s p p' r ob. watch_run quic_graph default_probe_timeout second_events = Some (s, Some p)
     \<and> ask_row s p ProbeQUIC (clock_at 20) = Some (p', r) \<and> fingerprint_of r = fingerprint_of (ob_result ob)
     \<and> inputs_stand quic_graph p ProbeQUIC ob"
proof -
  obtain s p where p: "watch_run quic_graph default_probe_timeout second_events = Some (s, Some p)"
    "ask_row s p ProbeQUIC (clock_at 20) \<noteq> None" "watch_reach quic_graph default_probe_timeout second_events (s, Some p)"
    using sample_answer by (rule run_case)
  then obtain p' r where "ask_row s p ProbeQUIC (clock_at 20) = Some (p', r)" by auto
  from reused_row_stands [OF refl p(3) this] p(1) this show ?thesis by blast
qed

theorem published_pass_sound_witness:
  "\<exists>s p. watch_run quic_graph default_probe_timeout (Answered ProbeQUIC (clock_at 20) # second_events) = Some (s, Some p)
     \<and> snd (publish s p both_pass (clock_at 21) None) \<and> wp_reused p \<noteq> {} \<and> ws_settled s \<and> verdicts_of both_pass = ws_last s"
proof -
  obtain s p where p: "watch_run quic_graph default_probe_timeout (Answered ProbeQUIC (clock_at 20) # second_events) = Some (s, Some p)"
    "snd (publish s p both_pass (clock_at 21) None) \<and> wp_reused p \<noteq> {}"
    "watch_reach quic_graph default_probe_timeout (Answered ProbeQUIC (clock_at 20) # second_events) (s, Some p)"
    using sample_publication by (rule run_case)
  then have "publish s p both_pass (clock_at 21) None = (fst (publish s p both_pass (clock_at 21) None), True)"
    by (metis prod.collapse)
  from published_pass_sound [OF refl p(3) this] p(1, 2) show ?thesis by blast
qed

theorem refusal_recovers_witness:
  "\<exists>s p. watch_run quic_graph default_probe_timeout
       ([Force] @ Begin (clock_at 101) None # Published both_pass (clock_at 100) None # first_events) = Some (s, Some p)
     \<and> wp_force p \<and> fresh_pass p"
proof -
  obtain s0 p0 where p0: "\<not> snd (publish s0 p0 both_pass (clock_at 100) None)"
    "watch_reach quic_graph default_probe_timeout first_events (s0, Some p0)"
    using sample_refusal by (rule run_case)
  obtain s p where p: "watch_run quic_graph default_probe_timeout
       ([Force] @ Begin (clock_at 101) None # Published both_pass (clock_at 100) None # first_events) = Some (s, Some p)"
    "watch_reach quic_graph default_probe_timeout
       ([Force] @ Begin (clock_at 101) None # Published both_pass (clock_at 100) None # first_events) (s, Some p)"
    using sample_retry by (rule run_case)
  have "publish s0 p0 both_pass (clock_at 100) None = (fst (publish s0 p0 both_pass (clock_at 100) None), False)"
    using p0(1) by (metis prod.collapse)
  from refusal_recovers [OF p0(2) this p(2)] p(1) show ?thesis
    by (auto simp: is_begin_def)
qed

theorem requests_kept_witness:
  "\<exists>s p s'. watch_run quic_graph default_probe_timeout (Force # first_events) = Some (s, Some p)
     \<and> publish s p both_pass (clock_at 2) None = (s', True) \<and> ws_force s' \<and> \<not> straddled s p"
proof -
  obtain s p where p: "watch_run quic_graph default_probe_timeout (Force # first_events) = Some (s, Some p)"
    "snd (publish s p both_pass (clock_at 2) None)" "watch_reach quic_graph default_probe_timeout (Force # first_events) (s, Some p)"
    using sample_request by (rule run_case)
  then have published: "publish s p both_pass (clock_at 2) None = (fst (publish s p both_pass (clock_at 2) None), True)"
    by (metis prod.collapse)
  have "(ws_force (fst (publish s p both_pass (clock_at 2) None)) \<longleftrightarrow> Force \<in> set (since (Force # first_events)))
      \<and> (straddled s p \<longleftrightarrow> Change \<in> set (since (Force # first_events)))"
    by (rule requests_kept [OF p(3) _ published]) (simp add: first_events_def)
  then show ?thesis
    using p(1) published by (auto simp: first_events_def)
qed

end
