(* ===== verification/Spec2Isabelle.thy ===== *)
theory Spec2Isabelle
  imports Report Model_Laws Walk_Laws Reach Simulate_Laws Ospf_Readings Scheduler_Laws Interpret Finalize_Laws Verdict_Laws Graph_Laws Service_Laws Watch_Laws
begin

text \<open>
  Network Doctor reads recorded routing state and network probes and says what they show. This
  development models the parts that decide what is said: the model of routing state
  (\<^verbatim>\<open>internal/netmodel\<close>), the explanation of a path through it
  (\<^verbatim>\<open>internal/routepath\<close>), the reading of OSPF attributes
  (\<^verbatim>\<open>internal/ospf\<close>), and, in \<^verbatim>\<open>internal/diagnostic\<close>, the executor that runs
  a pass of probes and the diagnosis of its results. Each theory names the file it models and keeps the
  order of its functions; a Go struct is a record, a constant type a datatype, a fallible
  function returns \<open>Inl\<close> the error or \<open>Inr\<close> the value, a map is a function to options or
  the list of its entries, and text that only prints is a constructor with the values it prints.

  \<^bold>\<open>How the parts interact.\<close> \<^verbatim>\<open>netmodel.New\<close> validates observations and puts them
  into one order; everything else reads a model only. \<^verbatim>\<open>routepath.Explain\<close> walks a
  destination twice over a model, once on the forwarding plane and once on intent, compares
  the two walks hop by hop, looks for the return route and states the drift;
  \<^verbatim>\<open>Simulate\<close> walks every destination with and without one failed element and rates
  the difference, and \<^verbatim>\<open>SimulateBlast\<close> does that from many sources.
  \<^verbatim>\<open>ospf.Analyze\<close> reads the attributes of the same model. \<^verbatim>\<open>RunAll\<close>
  runs probes as their dependencies allow. \<^verbatim>\<open>Finalize\<close> then reads the results against
  each other, in six passes, and \<^verbatim>\<open>Interpret\<close> turns what they hold into one conclusion:
  the truth table, the comparison of alternatives, route evidence, confidence, the blamed row.

  \<^bold>\<open>Theories.\<close>
  \<^item> \<^verbatim>\<open>Prelude\<close>, \<^verbatim>\<open>Golib\<close>: comparison functions, sorting, slices and
    strings of Go, addresses, prefixes and instants at their width. The laws of comparison
    functions are two locales, interpreted on every comparison of the sources; they are what
    makes a canonical order independent of its input.
  \<^item> \<^verbatim>\<open>Netmodel\<close>, \<^verbatim>\<open>Model_Laws\<close>: \<^verbatim>\<open>model.go\<close>. The answers of a
    lookup and their evidence, well-formedness of accepted models, rebuilding, order.
  \<^item> \<^verbatim>\<open>Hop_Match\<close>: \<^verbatim>\<open>sameHops\<close> of \<^verbatim>\<open>compare.go\<close>, an augmenting-path
    matching equal to the existence of a bijection.
  \<^item> \<^verbatim>\<open>Routepath\<close>, \<^verbatim>\<open>Decide\<close>: the types of \<^verbatim>\<open>routepath.go\<close> and the
    choice of a route in \<^verbatim>\<open>walk.go\<close>.
  \<^item> \<^verbatim>\<open>Sever\<close>, \<^verbatim>\<open>Walk\<close>, \<^verbatim>\<open>Walk_Laws\<close>, \<^verbatim>\<open>Reach\<close>: what a failure
    cuts, the walk itself with its three bounds, and what its end proves about delivery.
  \<^item> \<^verbatim>\<open>Explain\<close>, \<^verbatim>\<open>Asymmetry\<close>, \<^verbatim>\<open>Drift\<close>, \<^verbatim>\<open>Report\<close>: findings
    and failure regions, the return route and its concerns, drift of forwarding from intent,
    and \<^verbatim>\<open>Explain\<close> that puts them together.
  \<^item> \<^verbatim>\<open>Failures\<close>, \<^verbatim>\<open>Simulate\<close>, \<^verbatim>\<open>Simulate_Laws\<close>, \<^verbatim>\<open>Blast\<close>:
    which failure a file supports, the simulation of it, its ratings, and runs from several
    sources as single-source simulations.
  \<^item> \<^verbatim>\<open>Ospf\<close>, \<^verbatim>\<open>Ospf_Phases\<close>, \<^verbatim>\<open>Ospf_Laws\<close>, \<^verbatim>\<open>Ospf_Readings\<close>:
    \<^verbatim>\<open>ospf.go\<close>. Each reading a user acts on is equal to a condition on the
    observations.
  \<^item> \<^verbatim>\<open>Scheduler\<close>, \<^verbatim>\<open>Scheduler_Laws\<close>: \<^verbatim>\<open>scheduler.go\<close> and
    \<^verbatim>\<open>runall.go\<close> as a step relation. An invariant ties the counts and the queue to
    the results; every run ends, and every order of answers gives the same results.
  \<^item> \<^verbatim>\<open>Route_Decisions\<close>, \<^verbatim>\<open>Observations\<close>: the decisions of
    \<^verbatim>\<open>route.go\<close> and \<^verbatim>\<open>route_cause.go\<close>, the rows of \<^verbatim>\<open>checks.go\<close>
    and the questions \<^verbatim>\<open>diagnosis.go\<close> asks of them.
  \<^item> \<^verbatim>\<open>Finalize\<close>, \<^verbatim>\<open>Finalize_Laws\<close>: the six passes over finished results.
    Statuses change at three rows only, every field but the two texts is given by conditions on
    the results before, and a second run changes texts only.
  \<^item> \<^verbatim>\<open>Diagnosis\<close>, \<^verbatim>\<open>Alternatives\<close>, \<^verbatim>\<open>Truth_Table\<close>,
    \<^verbatim>\<open>Interpret\<close>: \<^verbatim>\<open>finding.go\<close>, \<^verbatim>\<open>confidence.go\<close>,
    \<^verbatim>\<open>counterfactual.go\<close>, the table of \<^verbatim>\<open>diagnosis.go\<close> case by case, and
    \<^verbatim>\<open>Interpret\<close> with \<^verbatim>\<open>route_evidence.go\<close>.
  \<^item> \<^verbatim>\<open>Interpret_Laws\<close>, \<^verbatim>\<open>Verdict_Laws\<close>: evidence is recorded, an
    interpretation is well formed, routes never conclude, and what each verdict may be relied on
    for.
  \<^item> \<^verbatim>\<open>Probe_Graph\<close>, \<^verbatim>\<open>Graph_Laws\<close>: the graph of probes that
    \<^verbatim>\<open>buildProbeGraph\<close> assembles, \<^verbatim>\<open>reference_policy.go\<close> and
    \<^verbatim>\<open>selection.go\<close>. What a selection keeps, and that every run of it ends with a
    conclusion.
  \<^item> \<^verbatim>\<open>Service_Laws\<close>: what a run of a selection has shown when it accuses a service,
    from the dependencies of the graph, the executor and the truth table together.
  \<^item> \<^verbatim>\<open>Watch\<close>, \<^verbatim>\<open>Watch_Laws\<close>: the sessions of
    \<^verbatim>\<open>watch.go\<close>. What a reused row and a published pass may be relied on for, over
    every interleaving of rows, changes of the network and forced passes.

  \<^bold>\<open>Bounds.\<close> A walk stops at depth 32, at 512 visits and after 64 next hops of one decision;
  a simulation visits at most 256 destinations and lists walks of at most 16384 states, a
  blast at most 64 sources. These are the constants of the code, and the theorems on bounds
  show that a cut is always reported. The depth makes the recursion of a walk terminate by
  itself, so no fuel is invented. The executor needs at most two turns per probe name.

  \<^bold>\<open>Parameters.\<close> What a probe does on the network is a parameter of the executor, any relation
  that answers at all; the quoting of values in OSPF details is a parameter of that reading.

  \<^bold>\<open>Not modelled.\<close> Reading and writing of files and wire formats, terminal output, sockets,
  clocks and the kernel; the import of FRR and tunnel captures in front of the model; the
  evaluation of recorded route deletions; the probes themselves; the subscription to
  route events; the test laboratory. The manifest lists each package.
\<close>

end
